(* ===== verification/Prelude.thy ===== *)
theory Prelude
  imports "HOL-Library.Word" "HOL-Library.Monad_Syntax"
begin

unbundle bit_operations_syntax

text \<open>
  What the components share: the machine types, the reading of a byte buffer, the
  interface of a self-delimiting encoding, and the collections of rewrite rules the
  component proofs use.
\<close>

section \<open>Types\<close>

type_synonym u8 = "8 word"
type_synonym u16 = "16 word"
type_synonym u32 = "32 word"
type_synonym u64 = "64 word"
type_synonym bytes = "8 word list"

text \<open>
  Reading the byte at an offset of a buffer.  \<open>None\<close> is a read past the end of the
  buffer, which C leaves undefined.
\<close>

definition rd :: "bytes \<Rightarrow> nat \<Rightarrow> u8 option" where
  "rd bs i = (if i < length bs then Some (bs ! i) else None)"

section \<open>Collections\<close>

named_theorems codec_simps \<open>decoding what was encoded\<close>
named_theorems len_simps \<open>sizes of encoded data\<close>

section \<open>Buffers\<close>

lemma rd_Nil [simp]: "rd [] i = None"
  by (simp add: rd_def)

lemma rd_Cons_0 [simp]: "rd (b # bs) 0 = Some b"
  by (simp add: rd_def)

lemma rd_Cons_Suc [simp]: "rd (b # bs) (Suc i) = rd bs i"
  by (simp add: rd_def)

lemma rd_Cons_numeral [simp]: "rd (b # bs) (numeral k) = rd bs (pred_numeral k)"
  by (simp add: numeral_eq_Suc)

lemma rd_append_left [simp]: "i < length xs \<Longrightarrow> rd (xs @ ys) i = rd xs i"
  by (simp add: rd_def nth_append)

lemma rd_append_right [simp]: "length xs \<le> i \<Longrightarrow> rd (xs @ ys) i = rd ys (i - length xs)"
  by (auto simp add: rd_def nth_append)

lemma rd_drop [simp]: "rd (drop k xs) i = rd xs (k + i)"
  by (auto simp add: rd_def)

lemma rd_None_iff: "rd bs i = None \<longleftrightarrow> length bs \<le> i"
  by (simp add: rd_def)

lemma rd_SomeD: "rd bs i = Some b \<Longrightarrow> i < length bs \<and> bs ! i = b"
  by (simp add: rd_def split: if_splits)

section \<open>Words\<close>

lemma unat_drop_bit: "unat (drop_bit n w) = unat w div 2 ^ n"
  unfolding unat_drop_bit_eq by (simp only: drop_bit_eq_div)

lemma unat_drop_bit_less: "0 < n \<Longrightarrow> drop_bit n w \<noteq> 0 \<Longrightarrow> unat (drop_bit n w) < unat w"
  for w :: "'a::len word"
proof -
  assume n: "0 < n" and "drop_bit n w \<noteq> 0"
  then have "unat (drop_bit n w) \<noteq> 0"
    by (simp add: unat_eq_zero)
  then have "unat w \<noteq> 0"
    by (metis unat_drop_bit div_0)
  moreover have "(1::nat) < 2 ^ n" using n by (intro one_less_power) simp_all
  ultimately show ?thesis
    by (metis unat_drop_bit div_less_dividend neq0_conv)
qed

lemma unat_exp: "n < LENGTH('a) \<Longrightarrow> unat (2 ^ n :: 'a::len word) = 2 ^ n"
proof -
  assume n: "n < LENGTH('a)"
  have "unat (of_nat (2 ^ n) :: 'a word) = 2 ^ n mod 2 ^ LENGTH('a)"
    by (rule unat_of_nat)
  with n show ?thesis by (simp add: mod_less)
qed

lemma drop_bit_eq_0_iff_less: "drop_bit n v = 0 \<longleftrightarrow> v < 2 ^ n" if "n < LENGTH('a)" for v :: "'a::len word"
proof -
  have "drop_bit n v = 0 \<longleftrightarrow> unat v div 2 ^ n = 0"
    by (metis unat_drop_bit unat_eq_zero)
  also have "\<dots> \<longleftrightarrow> unat v < 2 ^ n"
    by (simp add: div_eq_0_iff)
  also have "\<dots> \<longleftrightarrow> v < 2 ^ n"
    using that by (simp add: word_less_nat_alt unat_exp)
  finally show ?thesis .
qed

lemma and_0x7f: "x AND 0x7f = take_bit 7 x" for x :: "'a::len word"
  by (simp add: take_bit_eq_mask mask_eq_exp_minus_1)

lemma bit_0x80: "bit (0x80 :: int) n \<longleftrightarrow> n = 7"
  using bit_exp_iff [of 7 n, where 'a = int] by auto

lemma and_0x80_eq_0: "x AND 0x80 = 0 \<longleftrightarrow> \<not> bit x 7" for x :: "'a::len word"
  using and_exp_eq_0_iff_not_bit [of x 7] by simp

lemma sint_u8_nonneg: "0 \<le> sint x \<longleftrightarrow> \<not> bit x 7" for x :: u8
  using bit_last_iff [of x] by (simp add: not_less)

lemma u8_less_0x80: "x < 0x80 \<longleftrightarrow> \<not> bit x 7" for x :: u8
  using drop_bit_eq_0_iff_less [of 7 x] drop_bit_eq_zero_iff_not_bit_last [of x] by simp

lemma bit_u8_beyond: "8 \<le> n \<Longrightarrow> \<not> bit x n" for x :: u8
  using bit_imp_le_length [of x n] by auto

lemma bit_u64_beyond: "64 \<le> n \<Longrightarrow> \<not> bit x n" for x :: u64
  using bit_imp_le_length [of x n] by auto

text \<open>Deciding an equation between 64-bit words bit by bit.\<close>

lemma u64_eq_bitwise: "x = y \<longleftrightarrow> list_all (\<lambda>n. bit x n = bit y n) [0..<64]" for x y :: u64
  by (auto simp add: list_all_iff intro!: bit_word_eqI)

lemma upt_0_64: "[0..<64] =
  [0, 1, 2, 3, 4, 5, 6, 7, 8, 9, 10, 11, 12, 13, 14, 15, 16, 17, 18, 19, 20, 21, 22, 23, 24, 25,
   26, 27, 28, 29, 30, 31, 32, 33, 34, 35, 36, 37, 38, 39, 40, 41, 42, 43, 44, 45, 46, 47, 48, 49,
   50, 51, 52, 53, 54, 55, 56, 57, 58, 59, 60, 61, 62, 63]"
  by code_simp

lemmas bitwise_simps = u64_eq_bitwise upt_0_64 bit_simps bit_u8_beyond bit_u64_beyond

section \<open>Self-delimiting encodings\<close>

text \<open>
  The contract every encoder/decoder pair of the changeset format satisfies: the decoder,
  given an encoding followed by anything, returns the value and the number of bytes the
  encoding has.  From it follow that the encoding is injective and prefix free, and that a
  sequence of encodings is read back element by element.
\<close>

locale codec =
  fixes ok :: "'a \<Rightarrow> bool"
    and enc :: "'a \<Rightarrow> bytes"
    and dec :: "bytes \<Rightarrow> (nat \<times> 'a) option"
  assumes dec_enc: "ok x \<Longrightarrow> dec (enc x @ rest) = Some (length (enc x), x)"
begin

lemma dec_enc_exact: "ok x \<Longrightarrow> dec (enc x) = Some (length (enc x), x)"
  using dec_enc [of x "[]"] by simp

lemma enc_prefix_free:
  assumes "ok x" and "ok y" and "enc x @ r = enc y @ s"
  shows "x = y \<and> r = s"
proof -
  have "dec (enc x @ r) = Some (length (enc x), x)" "dec (enc y @ s) = Some (length (enc y), y)"
    using assms dec_enc by blast+
  then show ?thesis using assms(3) by auto
qed

lemma enc_inj: "ok x \<Longrightarrow> ok y \<Longrightarrow> enc x = enc y \<Longrightarrow> x = y"
  using enc_prefix_free [of x y "[]" "[]"] by simp

end

end
