(* ===== verification/Varint.thy ===== *)
theory Varint
  imports Prelude
begin

unbundle bit_operations_syntax

text \<open>
  The variable-length integers of SQLite's file and changeset formats (util.c part of
  sqlite3.c): the writer, the hand-unrolled 64-bit and 32-bit readers, the length
  function, and the reference decoder they are compared with.
\<close>

section \<open>Writing\<close>

text \<open>
  A write of \<open>n\<close> bytes through \<open>p\<close> is the list of these bytes; the returned \<open>n\<close> is its
  length.  The loop \<open>for(i=7; i>=0; i--)\<close> fills the bytes from the last to the first.
\<close>

fun putVarint64_high :: "nat \<Rightarrow> u64 \<Rightarrow> bytes \<Rightarrow> bytes" where
  "putVarint64_high 0 v acc = acc"
| "putVarint64_high (Suc i) v acc =
     putVarint64_high i (drop_bit 7 v) (ucast ((v AND 0x7f) OR 0x80) # acc)"

text \<open>The loop \<open>do{ buf[n++] = ...; v >>= 7; }while( v!=0 )\<close>.\<close>

function putVarint64_buf :: "u64 \<Rightarrow> bytes" where
  "putVarint64_buf v =
     (let b = ucast ((v AND 0x7f) OR 0x80); v' = drop_bit 7 v
      in if v' \<noteq> 0 then b # putVarint64_buf v' else [b])"
  by auto
termination
  by (relation "measure unat") (auto intro: unat_drop_bit_less)

declare putVarint64_buf.simps [simp del]

definition putVarint64 :: "u64 \<Rightarrow> bytes" where
  "putVarint64 v =
     (if v AND push_bit 32 0xff000000 \<noteq> 0
      then putVarint64_high 8 (drop_bit 8 v) [ucast v]
      else let buf = putVarint64_buf v in rev (buf[0 := hd buf AND 0x7f]))"

definition sqlite3PutVarint :: "u64 \<Rightarrow> bytes" where
  "sqlite3PutVarint v =
     (if v \<le> 0x7f then [ucast (v AND 0x7f)]
      else if v \<le> 0x3fff
      then [ucast ((drop_bit 7 v AND 0x7f) OR 0x80), ucast (v AND 0x7f)]
      else putVarint64 v)"

section \<open>Reading\<close>

abbreviation SLOT_2_0 :: u32 where
  "SLOT_2_0 \<equiv> 0x001fc07f"

abbreviation SLOT_4_2_0 :: u32 where
  "SLOT_4_2_0 \<equiv> 0xf01fc07f"

text \<open>
  The result is the number of bytes read and the value stored in \<open>*v\<close>; \<open>None\<close> is a read
  past the end of the buffer.  \<open>a\<close>, \<open>b\<close> and \<open>s\<close> are the 32-bit registers of the code.
\<close>

definition sqlite3GetVarint :: "bytes \<Rightarrow> (nat \<times> u64) option" where
  "sqlite3GetVarint p = do {
     p0 \<leftarrow> rd p 0;
     if 0 \<le> sint p0 then Some (1, ucast p0)
     else do {
       p1 \<leftarrow> rd p 1;
       if 0 \<le> sint p1
       then Some (2, ucast (push_bit 7 (ucast (p0 AND 0x7f) :: u32) OR ucast p1))
       else do {
         let a = push_bit 14 (ucast p0 :: u32);
         let b = (ucast p1 :: u32);
         p2 \<leftarrow> rd p 2;
         let a = a OR ucast p2;
         if a AND 0x80 = 0 then do {
           let a = a AND SLOT_2_0;
           let b = b AND 0x7f;
           let b = push_bit 7 b;
           let a = a OR b;
           Some (3, ucast a)
         } else do {
           let a = a AND SLOT_2_0;
           p3 \<leftarrow> rd p 3;
           let b = push_bit 14 b;
           let b = b OR ucast p3;
           if b AND 0x80 = 0 then do {
             let b = b AND SLOT_2_0;
             let a = push_bit 7 a;
             let a = a OR b;
             Some (4, ucast a)
           } else do {
             let b = b AND SLOT_2_0;
             let s = a;
             p4 \<leftarrow> rd p 4;
             let a = push_bit 14 a;
             let a = a OR ucast p4;
             if a AND 0x80 = 0 then do {
               let b = push_bit 7 b;
               let a = a OR b;
               let s = drop_bit 18 s;
               Some (5, push_bit 32 (ucast s) OR ucast a)
             } else do {
               let s = push_bit 7 s;
               let s = s OR b;
               p5 \<leftarrow> rd p 5;
               let b = push_bit 14 b;
               let b = b OR ucast p5;
               if b AND 0x80 = 0 then do {
                 let a = a AND SLOT_2_0;
                 let a = push_bit 7 a;
                 let a = a OR b;
                 let s = drop_bit 18 s;
                 Some (6, push_bit 32 (ucast s) OR ucast a)
               } else do {
                 p6 \<leftarrow> rd p 6;
                 let a = push_bit 14 a;
                 let a = a OR ucast p6;
                 if a AND 0x80 = 0 then do {
                   let a = a AND SLOT_4_2_0;
                   let b = b AND SLOT_2_0;
                   let b = push_bit 7 b;
                   let a = a OR b;
                   let s = drop_bit 11 s;
                   Some (7, push_bit 32 (ucast s) OR ucast a)
                 } else do {
                   let a = a AND SLOT_2_0;
                   p7 \<leftarrow> rd p 7;
                   let b = push_bit 14 b;
                   let b = b OR ucast p7;
                   if b AND 0x80 = 0 then do {
                     let b = b AND SLOT_4_2_0;
                     let a = push_bit 7 a;
                     let a = a OR b;
                     let s = drop_bit 4 s;
                     Some (8, push_bit 32 (ucast s) OR ucast a)
                   } else do {
                     p8 \<leftarrow> rd p 8;
                     let a = push_bit 15 a;
                     let a = a OR ucast p8;
                     let b = b AND SLOT_2_0;
                     let b = push_bit 8 b;
                     let a = a OR b;
                     let s = push_bit 4 s;
                     let b = (ucast p4 :: u32);
                     let b = b AND 0x7f;
                     let b = drop_bit 3 b;
                     let s = s OR b;
                     Some (9, push_bit 32 (ucast s) OR ucast a)
                   }
                 }
               }
             }
           }
         }
       }
     }
   }"

definition sqlite3GetVarint32 :: "bytes \<Rightarrow> (nat \<times> u32) option" where
  "sqlite3GetVarint32 p = do {
     p0 \<leftarrow> rd p 0;
     p1 \<leftarrow> rd p 1;
     if p1 AND 0x80 = 0
     then Some (2, push_bit 7 (ucast (p0 AND 0x7f)) OR ucast p1)
     else do {
       p2 \<leftarrow> rd p 2;
       if p2 AND 0x80 = 0
       then Some (3, push_bit 14 (ucast (p0 AND 0x7f)) OR push_bit 7 (ucast (p1 AND 0x7f))
                     OR ucast p2)
       else do {
         (n, v64) \<leftarrow> sqlite3GetVarint p;
         if v64 AND 0xffffffff \<noteq> v64 then Some (n, 0xffffffff) else Some (n, ucast v64)
       }
     }
   }"

text \<open>The macros \<open>getVarint32\<close> and \<open>putVarint32\<close>; the argument of the latter is a C \<open>int\<close>.\<close>

definition getVarint32 :: "bytes \<Rightarrow> (nat \<times> u32) option" where
  "getVarint32 p = do {
     p0 \<leftarrow> rd p 0;
     if p0 < 0x80 then Some (1, ucast p0) else sqlite3GetVarint32 p
   }"

definition putVarint32 :: "int \<Rightarrow> bytes" where
  "putVarint32 B =
     (if (word_of_int B :: u32) < 0x80 then [word_of_int B] else sqlite3PutVarint (word_of_int B))"

function sqlite3VarintLen_loop :: "nat \<Rightarrow> u64 \<Rightarrow> nat" where
  "sqlite3VarintLen_loop i v =
     (let v = drop_bit 7 v in if v \<noteq> 0 then sqlite3VarintLen_loop (i + 1) v else i)"
  by auto
termination
  by (relation "measure (unat \<circ> snd)") (auto intro: unat_drop_bit_less)

declare sqlite3VarintLen_loop.simps [simp del]

definition sqlite3VarintLen :: "u64 \<Rightarrow> nat" where
  "sqlite3VarintLen v = sqlite3VarintLen_loop 1 v"

definition sqlite3Get4byte :: "bytes \<Rightarrow> u32 option" where
  "sqlite3Get4byte p = do {
     p0 \<leftarrow> rd p 0; p1 \<leftarrow> rd p 1; p2 \<leftarrow> rd p 2; p3 \<leftarrow> rd p 3;
     Some (push_bit 24 (ucast p0) OR push_bit 16 (ucast p1) OR push_bit 8 (ucast p2) OR ucast p3)
   }"

definition sqlite3Put4byte :: "u32 \<Rightarrow> bytes" where
  "sqlite3Put4byte v =
     [ucast (drop_bit 24 v), ucast (drop_bit 16 v), ucast (drop_bit 8 v), ucast v]"

section \<open>The reference decoder\<close>

text \<open>
  The format as its comment describes it: seven bits a byte, most significant first, while
  the high bit is set; a ninth byte contributes all of its eight bits.
\<close>

fun varint_ref :: "nat \<Rightarrow> u64 \<Rightarrow> bytes \<Rightarrow> (nat \<times> u64) option" where
  "varint_ref i acc [] = None"
| "varint_ref i acc (b # bs) =
     (if i = 8 then Some (9, push_bit 8 acc OR ucast b)
      else if bit b 7 then varint_ref (Suc i) (push_bit 7 acc OR ucast (b AND 0x7f)) bs
      else Some (Suc i, push_bit 7 acc OR ucast b))"

text \<open>The saturation of a 64-bit value to 32 bits.\<close>

definition sat32 :: "u64 \<Rightarrow> u32" where
  "sat32 v = (if v \<le> 0xffffffff then ucast v else 0xffffffff)"

text \<open>The continuation bytes of a varint, most significant group first.\<close>

fun cont :: "nat \<Rightarrow> u64 \<Rightarrow> bytes" where
  "cont 0 v = []"
| "cont (Suc n) v = cont n (drop_bit 7 v) @ [ucast ((v AND 0x7f) OR 0x80)]"

section \<open>The readers compute the reference\<close>

lemma varint_ref_rd:
  "varint_ref i acc (drop i p) =
     (case rd p i of None \<Rightarrow> None
      | Some b \<Rightarrow> if i = 8 then Some (9, push_bit 8 acc OR ucast b)
         else if bit b 7 then varint_ref (Suc i) (push_bit 7 acc OR ucast (b AND 0x7f)) (drop (Suc i) p)
         else Some (Suc i, push_bit 7 acc OR ucast b))"
  by (cases "i < length p") (auto simp: rd_def Cons_nth_drop_Suc[symmetric])


lemmas varint_ref_unroll =
  varint_ref_rd [of 0, simplified] varint_ref_rd [of "Suc 0", simplified]
  varint_ref_rd [of 2, simplified] varint_ref_rd [of 3, simplified] varint_ref_rd [of 4, simplified]
  varint_ref_rd [of 5, simplified] varint_ref_rd [of 6, simplified] varint_ref_rd [of 7, simplified]
  varint_ref_rd [of 8, simplified]

lemmas varint_step_simps =
  varint_ref_unroll sint_u8_nonneg and_0x80_eq_0 numeral_2_eq_2 [symmetric]

lemma sqlite3GetVarint_ref: "sqlite3GetVarint p = varint_ref 0 0 p"
  unfolding sqlite3GetVarint_def Let_def
  apply (cases "rd p 0"; simp add: varint_step_simps bitwise_simps cong: imp_cong)
  apply (cases "rd p 1"; simp add: varint_step_simps bitwise_simps cong: imp_cong)
  apply (cases "rd p 2"; simp add: varint_step_simps bitwise_simps cong: imp_cong)
  apply (cases "rd p 3"; simp add: varint_step_simps bitwise_simps cong: imp_cong)
  apply (cases "rd p 4"; simp add: varint_step_simps bitwise_simps cong: imp_cong)
  apply (cases "rd p 5"; simp add: varint_step_simps bitwise_simps cong: imp_cong)
  apply (cases "rd p 6"; simp add: varint_step_simps bitwise_simps cong: imp_cong)
  apply (cases "rd p 7"; simp add: varint_step_simps bitwise_simps cong: imp_cong)
  apply (cases "rd p 8"; simp add: varint_step_simps bitwise_simps cong: imp_cong)
  done

lemma sat32_small: "drop_bit 32 v = 0 \<Longrightarrow> sat32 v = ucast v"
  using drop_bit_eq_0_iff_less [of 32 v] by (simp add: sat32_def word_less_nat_alt word_le_nat_alt)

lemma sat32_mask: "(if v AND 0xffffffff \<noteq> v then 0xffffffff else ucast v) = sat32 v"
proof -
  have "v AND 0xffffffff = take_bit 32 v" by (simp add: take_bit_eq_mask mask_eq_exp_minus_1)
  moreover have "v < 0x100000000 \<longleftrightarrow> v \<le> 0xffffffff"
    by (auto simp add: word_less_nat_alt word_le_nat_alt)
  ultimately show ?thesis using drop_bit_eq_0_iff_less [of 32 v]
    by (simp add: sat32_def take_bit_eq_self_iff_drop_bit_eq_0)
qed

lemma sat32_byte1: "sat32 (ucast a) = ucast a" for a :: u8
  by (subst sat32_small) (simp_all add: bitwise_simps, intro bit_word_eqI, auto simp add: bit_simps)

lemma sat32_byte2:
  "sat32 (push_bit 7 (ucast (a AND 0x7f)) OR ucast b) = push_bit 7 (ucast (a AND 0x7f)) OR ucast b"
  for a b :: u8
  by (subst sat32_small) (simp_all add: bitwise_simps, intro bit_word_eqI, auto simp add: bit_simps)

lemma sat32_byte3:
  "sat32 ((push_bit 14 (ucast (a AND 0x7f)) OR push_bit 7 (ucast (b AND 0x7f))) OR ucast c) =
     push_bit 14 (ucast (a AND 0x7f)) OR push_bit 7 (ucast (b AND 0x7f)) OR ucast c" for a b c :: u8
  by (subst sat32_small) (simp_all add: bitwise_simps, intro bit_word_eqI, auto simp add: bit_simps)

lemma getVarint32_GetVarint:
  "getVarint32 p = map_option (\<lambda>(n, v). (n, sat32 v)) (sqlite3GetVarint p)"
proof -
  have last: "(do { (n, v) \<leftarrow> r; if v AND 0xffffffff \<noteq> v then Some (n, 0xffffffff) else Some (n, ucast v) })
      = map_option (\<lambda>(n, v). (n, sat32 v)) r" for r :: "(nat \<times> u64) option"
    by (cases r) (auto simp add: sat32_mask [symmetric])
  note small = varint_ref_unroll sqlite3GetVarint_ref sat32_byte1 sat32_byte2 sat32_byte3 numeral_2_eq_2 [symmetric]
  show ?thesis
  proof (cases "rd p 0")
    case (Some a)
    note a = this
    show ?thesis
    proof (cases "bit a 7")
      case True
      show ?thesis
        using a True last
        unfolding getVarint32_def sqlite3GetVarint32_def
        by (cases "rd p 1"; cases "rd p 2"; simp add: u8_less_0x80 and_0x80_eq_0; simp add: small)
    qed (simp add: a getVarint32_def u8_less_0x80 small)
  qed (simp add: getVarint32_def small)
qed

section \<open>What the writer produces\<close>

lemma length_cont [simp]: "length (cont n v) = n"
  by (induction n arbitrary: v) auto

lemma putVarint64_high_cont: "putVarint64_high n v acc = cont n v @ acc"
  by (induction n arbitrary: v acc) auto

lemma cont_byte: 
  "bit (ucast ((v AND 0x7f) OR 0x80) :: u8) 7" "ucast (ucast ((v AND 0x7f) OR 0x80) AND 0x7f :: u8) = take_bit 7 v" for v :: u64
  by (simp add: bit_simps) (rule bit_word_eqI, auto simp add: and_0x7f bit_0x80 bit_simps)
  

lemma varint_ref_cont:
  "i + n \<le> 8 \<Longrightarrow>
   varint_ref i acc (cont n v @ rest) = varint_ref (i + n) (push_bit (7 * n) acc OR take_bit (7 * n) v) rest"
proof (induction n arbitrary: v rest)
  case (Suc n)
  have "push_bit 7 (push_bit (7 * n) acc OR take_bit (7 * n) (drop_bit 7 v)) OR take_bit 7 v
      = push_bit (7 * Suc n) acc OR take_bit (7 * Suc n) v"
    by (rule bit_word_eqI) (auto simp add: bit_simps)
  then show ?case using Suc by (simp add: cont_byte)
qed simp

lemma rev_putVarint64_buf: "rev (putVarint64_buf v) = cont (length (putVarint64_buf v)) v"
  by (induction v rule: putVarint64_buf.induct) (subst (1 2) putVarint64_buf.simps, simp add: Let_def)

lemma putVarint64_buf_nonempty [simp]: "putVarint64_buf v \<noteq> []"
  by (subst putVarint64_buf.simps) (simp add: Let_def)

lemma drop_bit_length_buf: "drop_bit (7 * length (putVarint64_buf v)) v = 0"
proof (induction v rule: putVarint64_buf.induct)
  case (1 v)
  show ?case
  proof (cases "drop_bit 7 v = 0")
    case True
    then show ?thesis by (subst putVarint64_buf.simps) (simp add: Let_def)
  next
    case False
    then show ?thesis using 1[OF refl refl] 
      by (subst putVarint64_buf.simps) (simp add: Let_def add.commute)
  qed
qed

lemma drop_bit_length_buf_less: "n < length (putVarint64_buf v) \<Longrightarrow> n = 0 \<or> drop_bit (7 * n) v \<noteq> 0"
proof (induction v arbitrary: n rule: putVarint64_buf.induct)
  case (1 v)
  have buf: "putVarint64_buf v = ucast ((v AND 0x7f) OR 0x80) # (if drop_bit 7 v = 0 then [] else putVarint64_buf (drop_bit 7 v))"
    by (subst putVarint64_buf.simps) (simp add: Let_def)
  show ?case
  proof (cases n)
    case (Suc m)
    then have nz: "drop_bit 7 v \<noteq> 0" and "m < length (putVarint64_buf (drop_bit 7 v))"
      using 1(2) buf by (auto split: if_splits)
    with 1(1)[OF refl refl nz this(2)] nz Suc show ?thesis 
      by (auto simp add: add.commute)
  qed simp
qed

lemma VarintLen_loop_buf: "sqlite3VarintLen_loop (Suc i) v = i + length (putVarint64_buf v)"
proof (induction v arbitrary: i rule: putVarint64_buf.induct)
  case (1 v)
  show ?case
  proof (cases "drop_bit 7 v = 0")
    case False
    then show ?thesis using 1[OF refl refl, of "Suc i"] 
      by (subst putVarint64_buf.simps, subst sqlite3VarintLen_loop.simps) (simp add: Let_def)
  qed (subst putVarint64_buf.simps, subst sqlite3VarintLen_loop.simps, simp add: Let_def)
qed


lemma sqlite3VarintLen_buf: "sqlite3VarintLen v = length (putVarint64_buf v)"
  using VarintLen_loop_buf[of 0 v] by (simp add: sqlite3VarintLen_def)

lemma VarintLen_eqI:
  assumes "drop_bit (7 * n) v = 0" "m = 0 \<or> drop_bit (7 * m) v \<noteq> 0" "n = Suc m"
  shows "sqlite3VarintLen v = n"
proof -
  let ?l = "length (putVarint64_buf v)"
  have "\<not> n < ?l" using drop_bit_length_buf_less[of n v] assms by auto
  moreover have "\<not> ?l < n"
  proof
    assume "?l < n"
    then have "?l \<le> m" using assms by simp
    then have "drop_bit (7 * m) v = drop_bit (7 * m - 7 * ?l) (drop_bit (7 * ?l) v)"
      by simp
    then have "drop_bit (7 * m) v = 0" by (simp add: drop_bit_length_buf)
    moreover have "m \<noteq> 0" using \<open>?l \<le> m\<close> by (cases "putVarint64_buf v") auto
    ultimately show False using assms by simp
  qed
  ultimately show ?thesis by (simp add: sqlite3VarintLen_buf)
qed


lemma high_byte_iff: "v AND 0xff00000000000000 = 0 \<longleftrightarrow> drop_bit 56 v = 0" for v :: u64
  by (simp add: bitwise_simps)

lemma putVarint64_cont:
  assumes "drop_bit 56 v = 0"
  shows "putVarint64 v = cont (sqlite3VarintLen v - 1) (drop_bit 7 v) @ [ucast (v AND 0x7f)]"
proof -
  obtain b bs where buf: "putVarint64_buf v = b # bs" by (cases "putVarint64_buf v") auto
  then have r: "rev bs @ [b] = cont (length bs) (drop_bit 7 v) @ [ucast ((v AND 0x7f) OR 0x80)]"
    using rev_putVarint64_buf[of v] by simp
  have "(ucast ((v AND 0x7f) OR 0x80) :: u8) AND 0x7f = ucast (v AND 0x7f)"
    by (rule bit_word_eqI) (auto simp add: and_0x7f bit_0x80 bit_simps)
  with r buf assms show ?thesis
    by (simp add: putVarint64_def high_byte_iff Let_def sqlite3VarintLen_buf)
qed

lemma sqlite3PutVarint_cont:
  "sqlite3PutVarint v =
     (if drop_bit 56 v = 0 then cont (sqlite3VarintLen v - 1) (drop_bit 7 v) @ [ucast (v AND 0x7f)]
      else cont 8 (drop_bit 8 v) @ [ucast v])"
proof -
  consider "v \<le> 0x7f" | "\<not> v \<le> 0x7f" "v \<le> 0x3fff" | "\<not> v \<le> 0x3fff" by blast
  then show ?thesis
  proof cases
    case 1
    then have "v < 2 ^ 7" by (simp add: word_le_nat_alt word_less_nat_alt)
    then have *: "drop_bit 7 v = 0" by (simp add: drop_bit_eq_0_iff_less del: One_nat_def)
    then have "sqlite3VarintLen v = 1" by (intro VarintLen_eqI) simp_all
    moreover have "drop_bit 56 v = drop_bit 49 (drop_bit 7 v)" by simp
    ultimately show ?thesis using 1 * by (simp add: sqlite3PutVarint_def)
  next
    case 2
    then have "v < 2 ^ 14" "\<not> v < 2 ^ 7" by (simp_all add: word_le_nat_alt word_less_nat_alt)
    then have *: "drop_bit 14 v = 0" "drop_bit 7 v \<noteq> 0"
      using drop_bit_eq_0_iff_less[of 14 v] drop_bit_eq_0_iff_less[of 7 v] by simp_all
    then have "sqlite3VarintLen v = 2" by (intro VarintLen_eqI [where m = 1]) simp_all
    moreover have "drop_bit 56 v = drop_bit 42 (drop_bit 14 v)" by simp
    ultimately show ?thesis using 2 * by (simp add: sqlite3PutVarint_def numeral_2_eq_2)
  next
    case 3
    then have "\<not> v \<le> 0x7f" by (auto simp add: word_le_nat_alt)
    then show ?thesis using 3
      by (simp add: sqlite3PutVarint_def putVarint64_cont)
        (simp add: putVarint64_def high_byte_iff putVarint64_high_cont)
  qed
qed


lemma VarintLen_bounds: "drop_bit 56 v = 0 \<Longrightarrow> 1 \<le> sqlite3VarintLen v \<and> sqlite3VarintLen v \<le> 8"
  using drop_bit_length_buf_less[of 8 v]
  by (cases "putVarint64_buf v") (auto simp add: sqlite3VarintLen_buf not_less[symmetric])

lemma drop_bit_VarintLen: "drop_bit (7 * sqlite3VarintLen v) v = 0"
  by (simp add: sqlite3VarintLen_buf drop_bit_length_buf)

lemma varint_ref_PutVarint:
  "varint_ref 0 0 (sqlite3PutVarint v @ rest) = Some (length (sqlite3PutVarint v), v)"
proof (cases "drop_bit 56 v = 0")
  case True
  let ?n = "sqlite3VarintLen v"
  from True obtain m where m: "?n = Suc m" "m \<le> 7"
    using VarintLen_bounds[of v] by (cases ?n) auto
  have z: "k < 7 * ?n" if "bit v k" for k
  proof (rule ccontr)
    assume "\<not> k < 7 * ?n"
    with that have "bit (drop_bit (7 * ?n) v) (k - 7 * ?n)" by (simp add: bit_drop_bit_eq)
    then show False by (simp add: drop_bit_VarintLen)
  qed
  have "push_bit 7 (take_bit (7 * m) (drop_bit 7 v)) OR ucast (ucast (v AND 0x7f) :: u8) = v"
    using m z by (intro bit_word_eqI) (auto simp add: and_0x7f bit_simps less_diff_conv2 add.commute)
  moreover have "\<not> bit (ucast (v AND 0x7f) :: u8) 7" by (simp add: bit_simps and_0x7f)
  ultimately show ?thesis using True m
    by (simp add: sqlite3PutVarint_cont varint_ref_cont)
next
  case False
  have "push_bit 8 (take_bit 56 (drop_bit 8 v)) OR ucast (ucast v :: u8) = v"
    by (intro bit_word_eqI) (auto simp add: bit_simps)
  with False show ?thesis
    by (simp add: sqlite3PutVarint_cont varint_ref_cont)
qed

lemma length_sqlite3PutVarint:
  "length (sqlite3PutVarint v) = (if v < 2 ^ 63 then sqlite3VarintLen v else 9)"
proof (cases "drop_bit 56 v = 0")
  case True
  moreover have "v < 2 ^ 63" using True
    using drop_bit_drop_bit[of 7 56 v] drop_bit_eq_0_iff_less[of 63 v] by simp
  ultimately show ?thesis using VarintLen_bounds[of v]
    by (simp add: sqlite3PutVarint_cont)
next
  case False
  then have "v < 2 ^ 63 \<Longrightarrow> sqlite3VarintLen v = 9"
    using drop_bit_eq_0_iff_less[of 63 v] by (intro VarintLen_eqI[where m=8]) simp_all
  with False show ?thesis by (simp add: sqlite3PutVarint_cont)
qed

lemma sqlite3VarintLen_top: "2 ^ 63 \<le> v \<Longrightarrow> sqlite3VarintLen v = 10"
  using drop_bit_eq_0_iff_less[of 63 v]
  by (intro VarintLen_eqI[where m=9]) (auto simp add: linorder_not_less[symmetric] )

section \<open>Round trips\<close>

lemma GetVarint_PutVarint [codec_simps]:
  "sqlite3GetVarint (sqlite3PutVarint v @ rest) = Some (length (sqlite3PutVarint v), v)"
  by (simp add: sqlite3GetVarint_ref varint_ref_PutVarint)

lemma PutVarint_bounds [len_simps]:
  "1 \<le> length (sqlite3PutVarint v) \<and> length (sqlite3PutVarint v) \<le> 9"
  using VarintLen_bounds [of v] by (auto simp add: sqlite3PutVarint_cont)

interpretation varint: codec "\<lambda>_. True" sqlite3PutVarint sqlite3GetVarint
  by unfold_locales (simp add: codec_simps)

lemma putVarint32_PutVarint:
  assumes "0 \<le> B" and "B < 2 ^ 32"
  shows "putVarint32 B = sqlite3PutVarint (word_of_int B)"
proof (cases "B < 0x80")
  case True
  with assms have "(word_of_int B :: u32) < 0x80" "(word_of_int B :: u64) \<le> 0x7f"
    by (simp_all add: word_less_def word_le_def uint_word_of_int)
  moreover have "(word_of_int B :: u8) = ucast ((word_of_int B :: u64) AND 0x7f)"
  proof -
    have "take_bit 7 B = B" using True assms by (simp add: take_bit_int_eq_self)
    then have "bit B n \<Longrightarrow> n < 7" for n by (metis bit_take_bit_iff)
    then show ?thesis by (intro bit_word_eqI) (auto simp add: and_0x7f bit_simps)
  qed
  ultimately show ?thesis by (simp add: putVarint32_def sqlite3PutVarint_def)
next
  case False
  with assms have "\<not> (word_of_int B :: u32) < 0x80"
    by (simp add: word_less_def uint_word_of_int)
  then show ?thesis by (simp add: putVarint32_def)
qed

lemma getVarint32_putVarint32 [codec_simps]:
  assumes "0 \<le> B" and "B < 2 ^ 32"
  shows "getVarint32 (putVarint32 B @ rest) = Some (length (putVarint32 B), word_of_int B)"
proof -
  have "(word_of_int B :: u64) \<le> 0xffffffff"
    using assms by (simp add: word_le_def uint_word_of_int)
  moreover have "ucast (word_of_int B :: u64) = (word_of_int B :: u32)"
    by (intro bit_word_eqI) (simp add: bit_simps)
  ultimately show ?thesis using assms
    by (simp add: getVarint32_GetVarint putVarint32_PutVarint codec_simps sat32_def)
qed

interpretation varint32: codec "\<lambda>B. 0 \<le> B \<and> B < 2 ^ 32" putVarint32
  "\<lambda>p. map_option (\<lambda>(n, v). (n, uint v)) (getVarint32 p)"
  by unfold_locales (simp add: codec_simps uint_word_of_int)

lemma Get4byte_Put4byte [codec_simps]: "sqlite3Get4byte (sqlite3Put4byte v @ rest) = Some v"
proof -
  have "bit (push_bit 24 (ucast (ucast (drop_bit 24 v) :: u8)) OR
          push_bit 16 (ucast (ucast (drop_bit 16 v) :: u8)) OR
          push_bit 8 (ucast (ucast (drop_bit 8 v) :: u8)) OR ucast (ucast v :: u8) :: u32) n = bit v n"
    if "n < 32" for n
    using that by (cases "n < 8"; cases "n < 16"; cases "n < 24") (auto simp add: bit_simps)
  then show ?thesis
    by (simp add: sqlite3Get4byte_def sqlite3Put4byte_def) (intro bit_word_eqI, simp)
qed

text \<open>C12: the hand-unrolled 64-bit varint reader, with its three 32-bit registers and its
  precomputed masks, returns on every buffer what the format's definition gives: the same
  byte count and value, and a read past the end exactly where the reference has one.\<close>

theorem GetVarint_is_reference: "sqlite3GetVarint p = varint_ref 0 0 p"
  by (rule sqlite3GetVarint_ref)

text \<open>C13: a written varint, followed by anything, is read back: the value is the one written
  and the reader consumes exactly the bytes the writer produced.  The writer produces between
  one and nine bytes.\<close>

theorem varint_roundtrip:
  "sqlite3GetVarint (sqlite3PutVarint v @ rest) = Some (length (sqlite3PutVarint v), v) \<and>
   1 \<le> length (sqlite3PutVarint v) \<and> length (sqlite3PutVarint v) \<le> 9"
  using PutVarint_bounds [of v] by (simp add: codec_simps)

text \<open>C25: \<open>sqlite3VarintLen\<close> is the number of bytes \<open>sqlite3PutVarint\<close> writes exactly for the
  values below \<open>2^63\<close>; from there on it answers 10 where 9 bytes are written.\<close>

theorem VarintLen_exact:
  "sqlite3VarintLen v = (if v < 2 ^ 63 then length (sqlite3PutVarint v) else 10) \<and>
   (sqlite3VarintLen v = length (sqlite3PutVarint v) \<longleftrightarrow> v < 2 ^ 63)"
  using length_sqlite3PutVarint [of v] sqlite3VarintLen_top [of v] by (auto simp add: not_less)
end
