(* ===== verification/SessionValue.thy ===== *)
theory SessionValue
  imports Varint
begin

unbundle bit_operations_syntax

text \<open>
  SQL values and records of the session extension of sqlite3.c: the serialised form of a
  value, its length, and the reader of a record.

  A C pointer into a buffer is the list of the bytes from it to the end of the buffer.
  \<open>None\<close> is undefined behaviour: a read past the end of the buffer, or a pointer moved out
  of it by a corrupt length field.  Allocations succeed, except where a parameter \<open>oom\<close>
  says that they fail.
\<close>

section \<open>Values\<close>

text \<open>
  An \<open>sqlite3_value\<close>: a 64-bit integer and a double are kept as their 64 bits (the code
  moves doubles with \<open>memcpy\<close>), a text as its UTF-8 bytes.  A null pointer to a value
  (column not part of the record) is \<open>None\<close> of the option type.
\<close>

datatype sqlite3_value =
    VInteger u64
  | VFloat u64
  | VText bytes
  | VBlob bytes
  | VNull

abbreviation SQLITE_INTEGER :: u8 where "SQLITE_INTEGER \<equiv> 1"
abbreviation SQLITE_FLOAT :: u8 where "SQLITE_FLOAT \<equiv> 2"
abbreviation SQLITE_TEXT :: u8 where "SQLITE_TEXT \<equiv> 3"
abbreviation SQLITE_BLOB :: u8 where "SQLITE_BLOB \<equiv> 4"
abbreviation SQLITE_NULL :: u8 where "SQLITE_NULL \<equiv> 5"

fun sqlite3_value_type :: "sqlite3_value \<Rightarrow> u8" where
  "sqlite3_value_type (VInteger i) = SQLITE_INTEGER"
| "sqlite3_value_type (VFloat r) = SQLITE_FLOAT"
| "sqlite3_value_type (VText z) = SQLITE_TEXT"
| "sqlite3_value_type (VBlob z) = SQLITE_BLOB"
| "sqlite3_value_type VNull = SQLITE_NULL"

text \<open>Result codes; those no part of the model distinguishes are kept by their number.\<close>

datatype rc = SQLITE_OK | SQLITE_ERROR | SQLITE_BUSY | SQLITE_NOMEM | SQLITE_CORRUPT | SQLITE_SCHEMA
  | SQLITE_TOOBIG | SQLITE_CONSTRAINT | SQLITE_MISUSE | SQLITE_RANGE | SQLITE_ROW | SQLITE_DONE
  | SQLITE_CODE int

section \<open>Integers\<close>

definition sessionVarintPut :: "int \<Rightarrow> bytes" where
  "sessionVarintPut iVal = putVarint32 iVal"

definition sessionVarintLen :: "int \<Rightarrow> nat" where
  "sessionVarintLen iVal = sqlite3VarintLen (word_of_int iVal)"

definition sessionVarintGet :: "bytes \<Rightarrow> (nat \<times> int) option" where
  "sessionVarintGet aBuf = do {
     (n, v) \<leftarrow> getVarint32 aBuf;
     Some (n, sint v)
   }"

definition SESSION_UINT32 :: "bytes \<Rightarrow> u32 option" where
  "SESSION_UINT32 x = do {
     x0 \<leftarrow> rd x 0; x1 \<leftarrow> rd x 1; x2 \<leftarrow> rd x 2; x3 \<leftarrow> rd x 3;
     Some (push_bit 24 (ucast x0) OR push_bit 16 (ucast x1) OR push_bit 8 (ucast x2) OR ucast x3)
   }"

definition sessionGetI64 :: "bytes \<Rightarrow> u64 option" where
  "sessionGetI64 aRec = do {
     x \<leftarrow> SESSION_UINT32 aRec;
     y \<leftarrow> SESSION_UINT32 (drop 4 aRec);
     Some (push_bit 32 (ucast x) + ucast y)
   }"

text \<open>
  \<open>i\<close> is a signed integer in the C code, so \<open>>>\<close> fills with the sign bit; the mask \<open>0xFF\<close>
  leaves eight bits that do not depend on the fill.
\<close>

definition sessionPutI64 :: "u64 \<Rightarrow> bytes" where
  "sessionPutI64 i =
     [ucast (signed_drop_bit 56 i AND 0xFF), ucast (signed_drop_bit 48 i AND 0xFF),
      ucast (signed_drop_bit 40 i AND 0xFF), ucast (signed_drop_bit 32 i AND 0xFF),
      ucast (signed_drop_bit 24 i AND 0xFF), ucast (signed_drop_bit 16 i AND 0xFF),
      ucast (signed_drop_bit 8 i AND 0xFF), ucast (signed_drop_bit 0 i AND 0xFF)]"

section \<open>Serialising a value\<close>

text \<open>
  \<open>sqlite3_value_text\<close> and \<open>sqlite3_value_blob\<close>: the former is null when the conversion runs
  out of memory, the latter for an empty blob or when it runs out of memory.
\<close>

fun value_bytes :: "sqlite3_value \<Rightarrow> bytes" where
  "value_bytes (VText z) = z"
| "value_bytes (VBlob z) = z"
| "value_bytes _ = []"

fun value_ptr :: "bool \<Rightarrow> sqlite3_value \<Rightarrow> bytes option" where
  "value_ptr oom (VText z) = (if oom then None else Some z)"
| "value_ptr oom (VBlob z) = (if oom \<or> z = [] then None else Some z)"
| "value_ptr oom _ = None"

text \<open>
  The result is the error code or the bytes written to a non-null \<open>aBuf\<close> together with the
  count added to \<open>*pnWrite\<close>.  The bytes of a text or blob go to \<open>aBuf[nVarint+1]\<close>, where
  \<open>nVarint\<close> is computed by \<open>sessionVarintLen\<close> and not taken from \<open>sessionVarintPut\<close>; the two
  agree for every size a C \<open>int\<close> can hold (lemma \<open>sessionVarintLen_Put\<close>), so the copy starts
  right after the varint.
\<close>

fun sessionSerializeValue :: "bool \<Rightarrow> sqlite3_value option \<Rightarrow> rc + (bytes \<times> int)" where
  "sessionSerializeValue oom None = Inr ([0], 1)"
| "sessionSerializeValue oom (Some VNull) = Inr ([SQLITE_NULL], 1)"
| "sessionSerializeValue oom (Some (VInteger i)) = Inr (SQLITE_INTEGER # sessionPutI64 i, 9)"
| "sessionSerializeValue oom (Some (VFloat r)) = Inr (SQLITE_FLOAT # sessionPutI64 r, 9)"
| "sessionSerializeValue oom (Some v) =
     (let z = value_ptr oom v;
          n = int (length (value_bytes v));
          nVarint = sessionVarintLen n;
          put = sessionVarintPut n
      in if z = None \<and> (sqlite3_value_type v \<noteq> SQLITE_BLOB \<or> n > 0) then Inl SQLITE_NOMEM
         else Inr (sqlite3_value_type v # put @ value_bytes v, 1 + int nVarint + n))"

section \<open>The length of a serialised value\<close>

definition sessionSerialLen :: "bytes \<Rightarrow> int option" where
  "sessionSerialLen a = do {
     e \<leftarrow> rd a 0;
     if e = 0 \<or> e = 0xFF then Some 1
     else if e = SQLITE_NULL then Some 1
     else if e = SQLITE_INTEGER \<or> e = SQLITE_FLOAT then Some 9
     else do {
       (k, n) \<leftarrow> sessionVarintGet (drop 1 a);
       Some (int k + 1 + n)
     }
   }"

text \<open>Moving a pointer forward by a computed amount.\<close>

definition advance :: "bytes \<Rightarrow> int \<Rightarrow> bytes option" where
  "advance a n = (if 0 \<le> n \<and> nat n \<le> length a then Some (drop (nat n) a) else None)"

fun sessionSkipRecord :: "bytes \<Rightarrow> nat \<Rightarrow> bytes option" where
  "sessionSkipRecord aRec 0 = Some aRec"
| "sessionSkipRecord aRec (Suc n) = do {
     eType \<leftarrow> rd aRec 0;
     let aRec = drop 1 aRec;
     aRec \<leftarrow> (if eType = SQLITE_TEXT \<or> eType = SQLITE_BLOB then do {
                 (k, nByte) \<leftarrow> sessionVarintGet aRec;
                 aRec \<leftarrow> advance aRec (int k);
                 advance aRec nByte
               }
               else if eType = SQLITE_INTEGER \<or> eType = SQLITE_FLOAT then advance aRec 8
               else Some aRec);
     sessionSkipRecord aRec n
   }"

section \<open>Reading a record\<close>

text \<open>
  A double is its IEEE 754 bit pattern.  \<open>sqlite3VdbeMemSetDouble\<close> turns a NaN into an SQL
  null.
\<close>

definition double_is_nan :: "u64 \<Rightarrow> bool" where
  "double_is_nan d \<longleftrightarrow>
     d AND 0x7FF0000000000000 = 0x7FF0000000000000 \<and> d AND 0x000FFFFFFFFFFFFF \<noteq> 0"

definition sqlite3VdbeMemSetDouble :: "u64 \<Rightarrow> sqlite3_value" where
  "sqlite3VdbeMemSetDouble val = (if \<not> double_is_nan val then VFloat val else VNull)"

text \<open>
  The input of a changeset iterator over a buffer in memory (\<open>xInput\<close> null, so that
  \<open>sessionInputBuffer\<close> returns \<open>SQLITE_OK\<close> at once and \<open>sessionDiscardData\<close> does nothing).
\<close>

record session_input =
  aData :: bytes
  iNext :: nat

abbreviation nData :: "session_input \<Rightarrow> nat" where
  "nData pIn \<equiv> length (aData pIn)"

text \<open>
  One column of \<open>sessionReadRecord\<close>.  A type byte that is neither 0 nor one of the five
  types leaves the new value as it is created, an SQL null.
\<close>

definition sessionReadValue :: "session_input \<Rightarrow> (rc \<times> session_input \<times> sqlite3_value option) option" where
  "sessionReadValue pIn =
     (if iNext pIn \<ge> nData pIn then Some (SQLITE_CORRUPT, pIn, None)
      else do {
        eType \<leftarrow> rd (aData pIn) (iNext pIn);
        let pIn = pIn\<lparr>iNext := iNext pIn + 1\<rparr>;
        let aVal = drop (iNext pIn) (aData pIn);
        if eType = SQLITE_TEXT \<or> eType = SQLITE_BLOB then do {
          (k, nByte) \<leftarrow> sessionVarintGet aVal;
          let pIn = pIn\<lparr>iNext := iNext pIn + k\<rparr>;
          if nByte < 0 \<or> nByte > int (nData pIn) - int (iNext pIn)
          then Some (SQLITE_CORRUPT, pIn, Some VNull)
          else do {
            let z = take (nat nByte) (drop (iNext pIn) (aData pIn));
            let v = (if eType = SQLITE_TEXT then VText z else VBlob z);
            Some (SQLITE_OK, pIn\<lparr>iNext := iNext pIn + nat nByte\<rparr>, Some v)
          }
        }
        else if eType = SQLITE_INTEGER \<or> eType = SQLITE_FLOAT then
          if int (nData pIn) - int (iNext pIn) < 8 then Some (SQLITE_CORRUPT, pIn, Some VNull)
          else do {
            v \<leftarrow> sessionGetI64 aVal;
            let v = (if eType = SQLITE_INTEGER then VInteger v else sqlite3VdbeMemSetDouble v);
            Some (SQLITE_OK, pIn\<lparr>iNext := iNext pIn + 8\<rparr>, Some v)
          }
        else Some (SQLITE_OK, pIn, if eType = 0 then None else Some VNull)
      })"

text \<open>
  \<open>sessionReadRecord_cols\<close> is the loop over the columns; its list says of each column whether
  the record has it (\<open>abPK==0 || abPK[i]\<close>).  The result holds \<open>apOut\<close>, with null pointers
  for the columns not reached, and \<open>*pbEmpty\<close>.
\<close>

fun sessionReadRecord_cols :: "session_input \<Rightarrow> bool list \<Rightarrow>
    (rc \<times> session_input \<times> sqlite3_value option list \<times> bool) option" where
  "sessionReadRecord_cols pIn [] = Some (SQLITE_OK, pIn, [], True)"
| "sessionReadRecord_cols pIn (False # cols) = do {
     (rc, pIn, apOut, bEmpty) \<leftarrow> sessionReadRecord_cols pIn cols;
     Some (rc, pIn, None # apOut, bEmpty)
   }"
| "sessionReadRecord_cols pIn (True # cols) = do {
     (rc, pIn, v) \<leftarrow> sessionReadValue pIn;
     if rc \<noteq> SQLITE_OK then Some (rc, pIn, v # replicate (length cols) None, v = None)
     else do {
       (rc, pIn, apOut, bEmpty) \<leftarrow> sessionReadRecord_cols pIn cols;
       Some (rc, pIn, v # apOut, v = None \<and> bEmpty)
     }
   }"

definition sessionReadRecord :: "session_input \<Rightarrow> nat \<Rightarrow> bytes option \<Rightarrow>
    (rc \<times> session_input \<times> sqlite3_value option list \<times> bool) option" where
  "sessionReadRecord pIn nCol abPK =
     sessionReadRecord_cols pIn
       (case abPK of None \<Rightarrow> replicate nCol True | Some pk \<Rightarrow> map (\<lambda>b. b \<noteq> 0) (take nCol pk))"

section \<open>The serialised form\<close>

text \<open>What a value is serialised to when memory suffices, and the values SQLite admits: their
  size is at most \<open>SQLITE_MAX_LENGTH\<close> and none is a NaN.\<close>

definition serial :: "sqlite3_value option \<Rightarrow> bytes" where
  "serial v = (case sessionSerializeValue False v of Inl _ \<Rightarrow> [] | Inr (b, _) \<Rightarrow> b)"

abbreviation serials :: "sqlite3_value option list \<Rightarrow> bytes" where
  "serials vs \<equiv> concat (map serial vs)"

definition value_ok :: "sqlite3_value option \<Rightarrow> bool" where
  "value_ok v \<longleftrightarrow>
     (case v of
        None \<Rightarrow> True
      | Some (VFloat r) \<Rightarrow> \<not> double_is_nan r
      | Some w \<Rightarrow> length (value_bytes w) \<le> 1000000000)"

text \<open>Every read leaves the buffer as it is, ends in it, and reports success or corruption.\<close>

definition read_inside :: "session_input \<Rightarrow> rc \<Rightarrow> session_input \<Rightarrow> bool" where
  "read_inside pIn rc pIn' \<longleftrightarrow>
     aData pIn' = aData pIn \<and> rc \<in> {SQLITE_OK, SQLITE_CORRUPT} \<and>
     (iNext pIn \<le> nData pIn \<longrightarrow> iNext pIn \<le> iNext pIn' \<and> iNext pIn' \<le> nData pIn)"


section \<open>Integers are read back\<close>

lemma sessionVarintLen_Put:
  assumes "0 \<le> n" and "n < 2 ^ 31"
  shows "sessionVarintLen n = length (sessionVarintPut n)"
proof -
  have "(word_of_int n :: u64) < 2 ^ 63"
    using assms by (simp add: word_less_def uint_word_of_int)
  with assms show ?thesis
    by (simp add: sessionVarintLen_def sessionVarintPut_def putVarint32_PutVarint length_sqlite3PutVarint)
qed

lemma sint_word_of_int_u32: "0 \<le> n \<Longrightarrow> n < 2 ^ 31 \<Longrightarrow> sint (word_of_int n :: u32) = n"
  by (subst sint_sbintrunc') (simp add: signed_take_bit_int_eq_self)

lemma sessionVarintGet_Put [codec_simps]:
  assumes "0 \<le> n" and "n < 2 ^ 31"
  shows "sessionVarintGet (sessionVarintPut n @ rest) = Some (length (sessionVarintPut n), n)"
  using assms
  by (simp add: sessionVarintGet_def sessionVarintPut_def codec_simps sint_word_of_int_u32)

interpretation session_varint: codec "\<lambda>n. 0 \<le> n \<and> n < 2 ^ 31" sessionVarintPut sessionVarintGet
  by unfold_locales (simp add: codec_simps)

lemma length_sessionVarintPut [len_simps]:
  assumes "0 \<le> n" and "n < 2 ^ 32"
  shows "1 \<le> length (sessionVarintPut n) \<and> length (sessionVarintPut n) \<le> 9"
  using assms PutVarint_bounds by (simp add: sessionVarintPut_def putVarint32_PutVarint)

lemma length_sessionPutI64 [simp]: "length (sessionPutI64 i) = 8"
  by (simp add: sessionPutI64_def)

lemma sessionGetI64_Put [codec_simps]: "sessionGetI64 (sessionPutI64 i @ rest) = Some i"
proof -
  have plus: "push_bit 32 (ucast x) + ucast y = (push_bit 32 (ucast x) OR ucast y :: u64)" for x y :: u32
    by (rule disjunctive_add) (auto simp add: bit_simps dest: bit_imp_le_length)
  show ?thesis
    unfolding sessionGetI64_def SESSION_UINT32_def sessionPutI64_def
    by (simp add: plus) (simp add: bitwise_simps)
qed


section \<open>A serialised value\<close>

lemma serial_simps [simp]:
  "serial None = [0]"
  "serial (Some VNull) = [SQLITE_NULL]"
  "serial (Some (VInteger i)) = SQLITE_INTEGER # sessionPutI64 i"
  "serial (Some (VFloat r)) = SQLITE_FLOAT # sessionPutI64 r"
  "serial (Some (VText z)) = SQLITE_TEXT # sessionVarintPut (int (length z)) @ z"
  "serial (Some (VBlob z)) = SQLITE_BLOB # sessionVarintPut (int (length z)) @ z"
  by (simp_all add: serial_def Let_def)

lemma value_ok_simps [simp]:
  "value_ok None" "value_ok (Some VNull)" "value_ok (Some (VInteger i))"
  "value_ok (Some (VFloat r)) \<longleftrightarrow> \<not> double_is_nan r"
  "value_ok (Some (VText z)) \<longleftrightarrow> length z \<le> 1000000000"
  "value_ok (Some (VBlob z)) \<longleftrightarrow> length z \<le> 1000000000"
  by (simp_all add: value_ok_def)

lemma sqlite3VdbeMemSetDouble_simps [simp]:
  "\<not> double_is_nan r \<Longrightarrow> sqlite3VdbeMemSetDouble r = VFloat r"
  by (simp add: sqlite3VdbeMemSetDouble_def)

lemma serial_Cons: "\<exists>e es. serial v = e # es"
  by (cases v; simp; cases "the v"; simp)

lemma serial_nonempty [simp]: "serial v \<noteq> []"
  using serial_Cons [of v] by auto

text \<open>The count the serialiser reports is the number of bytes it writes.\<close>

lemma sessionSerializeValue_serial:
  assumes "value_ok v"
  shows "sessionSerializeValue False v = Inr (serial v, int (length (serial v)))"
  using assms
  by (cases v; simp; cases "the v"; simp add: sessionVarintLen_Put Let_def)

lemma sessionSerialLen_serial [codec_simps]:
  assumes "value_ok v"
  shows "sessionSerialLen (serial v @ rest) = Some (int (length (serial v)))"
  using assms
  by (cases v; simp add: sessionSerialLen_def; cases "the v"; simp add: codec_simps)

lemma advance_append [simp]: "advance (xs @ ys) (int (length xs)) = Some ys"
  by (simp add: advance_def)

lemma advance_serial: "advance (serial v @ rest) (int (length (serial v))) = Some rest"
  by simp

text \<open>The reader inverts the serialiser, wherever in the buffer the value stands.\<close>

lemma sessionReadValue_serial:
  assumes "value_ok v"
  shows "sessionReadValue \<lparr>aData = pre @ serial v @ rest, iNext = length pre\<rparr> =
    Some (SQLITE_OK, \<lparr>aData = pre @ serial v @ rest, iNext = length pre + length (serial v)\<rparr>, v)"
proof (cases v)
  case (Some w)
  then show ?thesis using assms
    by (cases w) (simp_all add: sessionReadValue_def codec_simps)
qed (simp add: sessionReadValue_def)

interpretation value_codec: codec value_ok serial
  "\<lambda>bs. case sessionReadValue \<lparr>aData = bs, iNext = 0\<rparr> of
          Some (SQLITE_OK, pIn, v) \<Rightarrow> Some (iNext pIn, v) | _ \<Rightarrow> None"
  using sessionReadValue_serial [of _ "[]"] by unfold_locales simp

section \<open>Records\<close>

lemma sessionSkipRecord_serials [codec_simps]:
  "list_all value_ok vs \<Longrightarrow> sessionSkipRecord (serials vs @ rest) (length vs) = Some rest"
proof (induction vs)
  case (Cons v vs)
  then have "sessionSkipRecord (serial v @ serials vs @ rest) (Suc (length vs)) =
    sessionSkipRecord (serials vs @ rest) (length vs)"
    by (cases v; simp; cases "the v"; simp add: codec_simps advance_def)
  with Cons show ?case by simp
qed simp

text \<open>The columns a record holds, in a table of which some columns may be left out.\<close>

lemma sessionReadRecord_cols_serials:
  assumes "list_all value_ok vs" and "length cols = length vs"
    and "\<And>i. i < length vs \<Longrightarrow> \<not> cols ! i \<Longrightarrow> vs ! i = None"
  shows "sessionReadRecord_cols
      \<lparr>aData = pre @ serials (map fst (filter snd (zip vs cols))) @ rest, iNext = length pre\<rparr> cols =
    Some (SQLITE_OK,
      \<lparr>aData = pre @ serials (map fst (filter snd (zip vs cols))) @ rest,
       iNext = length pre + length (serials (map fst (filter snd (zip vs cols))))\<rparr>,
      vs, list_all (\<lambda>v. v = None) vs)"
  using assms
proof (induction vs arbitrary: cols pre)
  case (Cons v vs)
  then obtain c cs where cols: "cols = c # cs" "length cs = length vs" by (cases cols) auto
  have rest: "\<not> cs ! i \<Longrightarrow> vs ! i = None" if "i < length vs" for i
    using Cons.prems(3) [of "Suc i"] that cols by simp
  show ?case
  proof (cases c)
    case True
    let ?r = "serials (map fst (filter snd (zip vs cs))) @ rest"
    have "sessionReadValue \<lparr>aData = pre @ serial v @ ?r, iNext = length pre\<rparr> =
        Some (SQLITE_OK, \<lparr>aData = (pre @ serial v) @ ?r, iNext = length (pre @ serial v)\<rparr>, v)"
      using sessionReadValue_serial [of v pre ?r] Cons.prems(1) by simp
    then show ?thesis
      using True cols rest Cons.IH [of cs "pre @ serial v"] Cons.prems by (simp add: add.assoc)
  next
    case False
    then show ?thesis using cols rest Cons.IH [of cs pre] Cons.prems(1) Cons.prems(3) [of 0] by simp
  qed
qed simp

lemma filter_snd_zip_replicate_True: "map fst (filter snd (zip vs (replicate (length vs) True))) = vs"
  by (induction vs) auto

lemma sessionReadRecord_serials [codec_simps]:
  assumes "list_all value_ok vs" and "n = length vs"
  shows "sessionReadRecord \<lparr>aData = pre @ serials vs @ rest, iNext = length pre\<rparr> n None =
    Some (SQLITE_OK, \<lparr>aData = pre @ serials vs @ rest, iNext = length pre + length (serials vs)\<rparr>,
      vs, list_all (\<lambda>v. v = None) vs)"
  using sessionReadRecord_cols_serials [of vs "replicate (length vs) True" pre rest] assms
  by (simp add: sessionReadRecord_def filter_snd_zip_replicate_True)

section \<open>Reading stays in the buffer\<close>

lemma varint_ref_consumed:
  "varint_ref i acc p = Some (n, v) \<Longrightarrow> i \<le> 8 \<Longrightarrow> i < n \<and> n \<le> i + length p \<and> n \<le> 9"
proof (induction i acc p rule: varint_ref.induct)
  case (2 i acc b bs)
  show ?case
  proof (cases "i \<noteq> 8 \<and> bit b 7")
    case True
    with 2 have "Suc i < n \<and> n \<le> Suc i + length bs \<and> n \<le> 9" by simp
    then show ?thesis by simp
  next
    case False
    with 2 show ?thesis by (auto split: if_splits)
  qed
qed simp

lemma sessionVarintGet_consumed:
  "sessionVarintGet p = Some (k, n) \<Longrightarrow> 0 < k \<and> k \<le> length p \<and> k \<le> 9"
  using varint_ref_consumed [of 0 0 p]
  by (auto simp add: sessionVarintGet_def getVarint32_GetVarint sqlite3GetVarint_ref bind_eq_Some_conv)


lemma sessionReadValue_inside:
  assumes r: "sessionReadValue pIn = Some (rc, pIn', v)"
  shows "read_inside pIn rc pIn' \<and> (rc = SQLITE_OK \<longrightarrow> iNext pIn < iNext pIn')"
proof (cases "iNext pIn < nData pIn")
  case False
  with r show ?thesis by (simp add: sessionReadValue_def read_inside_def)
next
  case True
  let ?p = "pIn\<lparr>iNext := iNext pIn + 1\<rparr>" and ?e = "aData pIn ! iNext pIn"
  let ?a = "drop (Suc (iNext pIn)) (aData pIn)"
  consider (str) "?e = SQLITE_TEXT \<or> ?e = SQLITE_BLOB"
    | (num) "\<not> (?e = SQLITE_TEXT \<or> ?e = SQLITE_BLOB)" "?e = SQLITE_INTEGER \<or> ?e = SQLITE_FLOAT"
    | (other) "\<not> (?e = SQLITE_TEXT \<or> ?e = SQLITE_BLOB)" "\<not> (?e = SQLITE_INTEGER \<or> ?e = SQLITE_FLOAT)"
    by blast
  then show ?thesis
  proof cases
    case str
    with r True obtain k n where get: "sessionVarintGet ?a = Some (k, n)"
      by (auto simp add: sessionReadValue_def rd_def bind_eq_Some_conv simp del: drop_Suc)
    show ?thesis
      using r True str get sessionVarintGet_consumed [OF get]
      by (simp add: sessionReadValue_def rd_def read_inside_def Let_def split: if_splits)
        auto
  next
    case num
    then show ?thesis
      using r True
      by (simp add: sessionReadValue_def rd_def read_inside_def Let_def bind_eq_Some_conv split: if_splits)
       (auto)
  next
    case other
    with r True show ?thesis
      by (auto simp add: sessionReadValue_def rd_def read_inside_def)
  qed
qed

lemma read_inside_trans:
  "read_inside p SQLITE_OK q \<Longrightarrow> read_inside q rc r \<Longrightarrow> read_inside p rc r"
  by (auto simp add: read_inside_def)

lemma sessionReadRecord_cols_inside:
  "sessionReadRecord_cols pIn cols = Some (rc, pIn', vs, e) \<Longrightarrow>
   read_inside pIn rc pIn' \<and> length vs = length cols \<and>
   (rc = SQLITE_OK \<longrightarrow> iNext pIn + count_list cols True \<le> iNext pIn')"
proof (induction pIn cols arbitrary: rc pIn' vs e rule: sessionReadRecord_cols.induct)
  case (1 pIn)
  then show ?case by (simp add: read_inside_def)
next
  case (2 pIn cols)
  then obtain vs' where "sessionReadRecord_cols pIn cols = Some (rc, pIn', vs', e)" "vs = None # vs'"
    by (auto simp add: bind_eq_Some_conv)
  with "2.IH" show ?case by simp
next
  case (3 pIn cols)
  from "3.prems" obtain rc1 p1 v where v: "sessionReadValue pIn = Some (rc1, p1, v)"
    by (auto simp add: bind_eq_Some_conv)
  note inside = sessionReadValue_inside [OF v]
  show ?case
  proof (cases "rc1 = SQLITE_OK")
    case True
    with "3.prems" v obtain rc2 p2 vs2 e2
      where r: "sessionReadRecord_cols p1 cols = Some (rc2, p2, vs2, e2)"
        and eq: "rc = rc2" "pIn' = p2" "vs = v # vs2"
      by (auto simp add: bind_eq_Some_conv)
    have "read_inside p1 rc2 p2 \<and> length vs2 = length cols \<and>
        (rc2 = SQLITE_OK \<longrightarrow> iNext p1 + count_list cols True \<le> iNext p2)"
      using "3.IH" [OF v refl refl] True r by simp
    moreover from inside True have "read_inside pIn SQLITE_OK p1" "iNext pIn < iNext p1" by simp_all
    ultimately show ?thesis using eq read_inside_trans [of pIn p1 rc2 p2] by auto
  next
    case False
    with "3.prems" v inside show ?thesis by auto
  qed
qed

section \<open>Properties\<close>

text \<open>C14: a record written with one serialised value per column is read back from wherever it stands
  in a changeset: the same values, with the input right behind the record.\<close>

theorem record_roundtrip:
  assumes "list_all value_ok vs"
  shows "sessionReadRecord \<lparr>aData = pre @ serials vs @ rest, iNext = length pre\<rparr> (length vs) None =
    Some (SQLITE_OK, \<lparr>aData = pre @ serials vs @ rest, iNext = length pre + length (serials vs)\<rparr>,
      vs, list_all (\<lambda>v. v = None) vs)"
  using sessionReadRecord_serials [OF assms refl] .

theorem record_roundtrip_witness:
  "sessionReadRecord \<lparr>aData = [9] @ serials [Some (VInteger 5), None, Some (VText [0x61])] @ [1], iNext = length [9::u8]\<rparr>
      (length [Some (VInteger 5), None, Some (VText [0x61])]) None =
    Some (SQLITE_OK, \<lparr>aData = [9] @ serials [Some (VInteger 5), None, Some (VText [0x61])] @ [1],
      iNext = length [9::u8] + length (serials [Some (VInteger 5), None, Some (VText [0x61])])\<rparr>,
      [Some (VInteger 5), None, Some (VText [0x61])], False)"
  using record_roundtrip [of "[Some (VInteger 5), None, Some (VText [0x61])]" "[9]" "[1]"] by simp

lemma count_list_replicate: "count_list (replicate n x) x = n"
  by (induction n) simp_all

text \<open>Reading a record from any bytes whatever, as far as it does not run over the end of the
  buffer while reading a varint, leaves the input inside the buffer and behind at least one byte
  for each column read, returns a value slot for each column, and reports success or corruption
  only.\<close>

theorem read_record_inside:
  assumes "sessionReadRecord pIn n pks = Some (rc, pIn', vs, e)" and "iNext pIn \<le> nData pIn"
    and "case pks of None \<Rightarrow> True | Some pk \<Rightarrow> n \<le> length pk"
  shows "aData pIn' = aData pIn \<and> iNext pIn \<le> iNext pIn' \<and> iNext pIn' \<le> nData pIn \<and>
    rc \<in> {SQLITE_OK, SQLITE_CORRUPT} \<and> length vs = n \<and>
    (rc = SQLITE_OK \<and> pks = None \<longrightarrow> iNext pIn + n \<le> iNext pIn')"
  using sessionReadRecord_cols_inside [OF assms(1) [unfolded sessionReadRecord_def]] assms(2,3)
  by (auto simp: read_inside_def count_list_replicate split: option.splits)

theorem read_record_inside_witness:
  "\<exists>pIn' vs e. sessionReadRecord \<lparr>aData = [1, 0, 0], iNext = 0\<rparr> 2 None = Some (SQLITE_CORRUPT, pIn', vs, e) \<and>
    iNext pIn' \<le> 3 \<and> length vs = 2"
proof -
  have "sessionReadRecord \<lparr>aData = [1, 0, 0], iNext = 0\<rparr> 2 None =
      Some (SQLITE_CORRUPT, \<lparr>aData = [1, 0, 0], iNext = 1\<rparr>, [Some VNull, None], False)"
    using replicate_Suc [of 1 True] by (simp add: sessionReadRecord_def sessionReadValue_def flip: numeral_2_eq_2)
  from read_record_inside [OF this] this show ?thesis by auto
qed

end
