(* ===== verification/SessionRecord.thy ===== *)
theory SessionRecord
  imports SessionValue "HOL-Library.Multiset"
begin

unbundle bit_operations_syntax

text \<open>
  Change records of the session extension: the hash of a primary key (from a row seen by
  the pre-update hook and from a serialised record), the comparison of two records by
  primary key, and the merge of the records of two changes to the same row.
\<close>

section \<open>Tables and changes\<close>

abbreviation SQLITE_DELETE :: u8 where "SQLITE_DELETE \<equiv> 9"
abbreviation SQLITE_INSERT :: u8 where "SQLITE_INSERT \<equiv> 18"
abbreviation SQLITE_UPDATE :: u8 where "SQLITE_UPDATE \<equiv> 23"

record session_change =
  op :: u8
  bIndirect :: bool
  nRecordField :: nat
  nMaxSize :: int
  aRecord :: bytes

text \<open>The chain of a bucket is a list, from the head of the chain.\<close>

record session_table =
  zName :: bytes
  nCol :: nat
  nTotalCol :: nat
  bStat1 :: bool
  bRowid :: bool
  aiIdx :: "nat list"
  abPK :: bytes
  nEntry :: nat
  nChange :: nat
  apChange :: "session_change list list"

text \<open>
  What the pre-update hook gives access to: the old and new values of the row by column
  index, the number of columns and the trigger depth.
\<close>

record preupdate_hook =
  xOld :: "nat \<Rightarrow> rc + sqlite3_value"
  xNew :: "nat \<Rightarrow> rc + sqlite3_value"
  xCount :: nat
  xDepth :: nat

section \<open>Hashing\<close>

definition HASH_APPEND :: "u32 \<Rightarrow> u32 \<Rightarrow> u32" where
  "HASH_APPEND hash add = push_bit 3 hash XOR hash XOR add"

definition sessionHashAppendI64 :: "u32 \<Rightarrow> u64 \<Rightarrow> u32" where
  "sessionHashAppendI64 h i =
     (let h = HASH_APPEND h (ucast (i AND 0xFFFFFFFF))
      in HASH_APPEND h (ucast (signed_drop_bit 32 i AND 0xFFFFFFFF)))"

definition sessionHashAppendBlob :: "u32 \<Rightarrow> int \<Rightarrow> bytes \<Rightarrow> u32 option" where
  "sessionHashAppendBlob h n z =
     (if nat n \<le> length z then Some (foldl (\<lambda>h b. HASH_APPEND h (ucast b)) h (take (nat n) z))
      else None)"

definition sessionHashAppendType :: "u32 \<Rightarrow> u8 \<Rightarrow> u32" where
  "sessionHashAppendType h eType = HASH_APPEND h (ucast eType)"

text \<open>The body of the loop of \<open>sessionPreupdateHash\<close> for one primary key column.\<close>

definition sessionPreupdateHash_value :: "bool \<Rightarrow> sqlite3_value \<Rightarrow> u32 \<Rightarrow> rc + (u32 \<times> bool)" where
  "sessionPreupdateHash_value oom pVal h =
     (let h = sessionHashAppendType h (sqlite3_value_type pVal)
      in case pVal of
           VInteger i \<Rightarrow> Inr (sessionHashAppendI64 h i, False)
         | VFloat r \<Rightarrow> Inr (sessionHashAppendI64 h r, False)
         | VNull \<Rightarrow> Inr (h, True)
         | _ \<Rightarrow>
             (let z = value_ptr oom pVal; n = int (length (value_bytes pVal))
              in if z = None \<and> (sqlite3_value_type pVal \<noteq> SQLITE_BLOB \<or> n > 0) then Inl SQLITE_NOMEM
                 else Inr (foldl (\<lambda>h b. HASH_APPEND h (ucast b)) h (value_bytes pVal), False)))"

fun sessionPreupdateHash_cols :: "bool \<Rightarrow> (nat \<Rightarrow> rc + sqlite3_value) \<Rightarrow> (u8 \<times> nat) list \<Rightarrow> u32 \<Rightarrow> bool \<Rightarrow>
    rc + (u32 \<times> bool)" where
  "sessionPreupdateHash_cols oom get [] h bNullPK = Inr (h, bNullPK)"
| "sessionPreupdateHash_cols oom get ((isPK, iIdx) # cols) h bNullPK =
     (if isPK = 0 then sessionPreupdateHash_cols oom get cols h bNullPK
      else case get iIdx of
             Inl rc \<Rightarrow> Inl rc
           | Inr pVal \<Rightarrow>
               (case sessionPreupdateHash_value oom pVal h of
                  Inl rc \<Rightarrow> Inl rc
                | Inr (h, null) \<Rightarrow> sessionPreupdateHash_cols oom get cols h (bNullPK \<or> null)))"

text \<open>The columns of a table with their primary key flags and their indexes for the hook.\<close>

definition table_cols :: "session_table \<Rightarrow> (u8 \<times> nat) list" where
  "table_cols pTab = zip (take (nCol pTab) (abPK pTab)) (aiIdx pTab)"

definition sessionPreupdateHash :: "bool \<Rightarrow> preupdate_hook \<Rightarrow> u64 \<Rightarrow> session_table \<Rightarrow> bool \<Rightarrow>
    rc + (nat \<times> bool)" where
  "sessionPreupdateHash oom hook iRowid pTab bNew =
     (if bRowid pTab then Inr (unat (sessionHashAppendI64 0 iRowid) mod nChange pTab, False)
      else case sessionPreupdateHash_cols oom (if bNew then xNew hook else xOld hook)
                  (table_cols pTab) 0 False of
             Inl rc \<Rightarrow> Inl rc
           | Inr (h, bNullPK) \<Rightarrow> Inr (unat h mod nChange pTab, bNullPK))"

text \<open>
  The hash of a record.  The type byte of a column is read before the column is skipped as
  one that a record of primary key fields does not have.
\<close>

fun sessionChangeHash_cols :: "bytes \<Rightarrow> bool \<Rightarrow> bytes \<Rightarrow> u32 \<Rightarrow> u32 option" where
  "sessionChangeHash_cols [] bPkOnly a h = Some h"
| "sessionChangeHash_cols (isPK # pks) bPkOnly a h = do {
     eType \<leftarrow> rd a 0;
     if bPkOnly \<and> isPK = 0 then sessionChangeHash_cols pks bPkOnly a h
     else if isPK \<noteq> 0 then do {
       let a = drop 1 a;
       let h = sessionHashAppendType h eType;
       if eType = SQLITE_INTEGER \<or> eType = SQLITE_FLOAT then do {
         i \<leftarrow> sessionGetI64 a;
         a \<leftarrow> advance a 8;
         sessionChangeHash_cols pks bPkOnly a (sessionHashAppendI64 h i)
       } else do {
         (k, n) \<leftarrow> sessionVarintGet a;
         a \<leftarrow> advance a (int k);
         h \<leftarrow> sessionHashAppendBlob h n a;
         a \<leftarrow> advance a n;
         sessionChangeHash_cols pks bPkOnly a h
       }
     } else do {
       n \<leftarrow> sessionSerialLen a;
       a \<leftarrow> advance a n;
       sessionChangeHash_cols pks bPkOnly a h
     }
   }"

definition sessionChangeHash :: "session_table \<Rightarrow> bool \<Rightarrow> bytes \<Rightarrow> nat \<Rightarrow> nat option" where
  "sessionChangeHash pTab bPkOnly aRec nBucket = do {
     h \<leftarrow> sessionChangeHash_cols (take (nCol pTab) (abPK pTab)) bPkOnly aRec 0;
     Some (unat h mod nBucket)
   }"

section \<open>Comparing\<close>

text \<open>\<open>memcpy\<close> and \<open>memcmp\<close> read the given number of bytes.\<close>

definition memread :: "bytes \<Rightarrow> int \<Rightarrow> bytes option" where
  "memread a n = (if 0 \<le> n \<and> nat n \<le> length a then Some (take (nat n) a) else None)"

fun sessionChangeEqual_cols :: "bytes \<Rightarrow> bool \<Rightarrow> bytes \<Rightarrow> bool \<Rightarrow> bytes \<Rightarrow> bool option" where
  "sessionChangeEqual_cols [] bLeftPkOnly a1 bRightPkOnly a2 = Some True"
| "sessionChangeEqual_cols (isPK # pks) bLeftPkOnly a1 bRightPkOnly a2 =
     (if isPK \<noteq> 0 then do {
        n1 \<leftarrow> sessionSerialLen a1;
        n2 \<leftarrow> sessionSerialLen a2;
        if n1 \<noteq> n2 then Some False
        else do {
          x1 \<leftarrow> memread a1 n1;
          x2 \<leftarrow> memread a2 n1;
          if x1 \<noteq> x2 then Some False
          else do {
            a1 \<leftarrow> advance a1 n1;
            a2 \<leftarrow> advance a2 n2;
            sessionChangeEqual_cols pks bLeftPkOnly a1 bRightPkOnly a2
          }
        }
      } else do {
        a1 \<leftarrow> (if bLeftPkOnly then Some a1 else sessionSerialLen a1 \<bind> advance a1);
        a2 \<leftarrow> (if bRightPkOnly then Some a2 else sessionSerialLen a2 \<bind> advance a2);
        sessionChangeEqual_cols pks bLeftPkOnly a1 bRightPkOnly a2
      })"

definition sessionChangeEqual :: "session_table \<Rightarrow> bool \<Rightarrow> bytes \<Rightarrow> bool \<Rightarrow> bytes \<Rightarrow> bool option" where
  "sessionChangeEqual pTab bLeftPkOnly aLeft bRightPkOnly aRight =
     sessionChangeEqual_cols (take (nCol pTab) (abPK pTab)) bLeftPkOnly aLeft bRightPkOnly aRight"

text \<open>
  Equality of doubles, on their bits: a NaN equals nothing, the two zeros are equal, and
  other numbers are equal when their bits are.
\<close>

definition double_eq :: "u64 \<Rightarrow> u64 \<Rightarrow> bool" where
  "double_eq d e \<longleftrightarrow> \<not> double_is_nan d \<and> \<not> double_is_nan e \<and>
     (d = e \<or> (d AND 0x7FFFFFFFFFFFFFFF = 0 \<and> e AND 0x7FFFFFFFFFFFFFFF = 0))"

text \<open>
  The comparison of the row of the pre-update hook with a recorded change.  \<open>get\<close> is \<open>xNew\<close>
  or \<open>xOld\<close>, which succeed here as they have been called for the hash before (an error would
  leave \<open>pVal\<close> unset, which the model renders as \<open>None\<close>).
\<close>

fun sessionPreupdateEqual_cols :: "(nat \<Rightarrow> rc + sqlite3_value) \<Rightarrow> (u8 \<times> nat) list \<Rightarrow> bytes \<Rightarrow> bool option" where
  "sessionPreupdateEqual_cols get [] a = Some True"
| "sessionPreupdateEqual_cols get ((isPK, iIdx) # cols) a =
     (if isPK = 0 then do {
        n \<leftarrow> sessionSerialLen a;
        a \<leftarrow> advance a n;
        sessionPreupdateEqual_cols get cols a
      } else do {
        eType \<leftarrow> rd a 0;
        let a = drop 1 a;
        pVal \<leftarrow> (case get iIdx of Inl _ \<Rightarrow> None | Inr v \<Rightarrow> Some v);
        if sqlite3_value_type pVal \<noteq> eType then Some False
        else if eType = SQLITE_INTEGER \<or> eType = SQLITE_FLOAT then do {
          iVal \<leftarrow> sessionGetI64 a;
          a \<leftarrow> advance a 8;
          if (case pVal of VInteger i \<Rightarrow> i \<noteq> iVal | VFloat r \<Rightarrow> \<not> double_eq r iVal | _ \<Rightarrow> False)
          then Some False
          else sessionPreupdateEqual_cols get cols a
        } else do {
          (k, n) \<leftarrow> sessionVarintGet a;
          a \<leftarrow> advance a (int k);
          if int (length (value_bytes pVal)) \<noteq> n then Some False
          else do {
            x \<leftarrow> memread a n;
            if n > 0 \<and> x \<noteq> value_bytes pVal then Some False
            else do {
              a \<leftarrow> advance a n;
              sessionPreupdateEqual_cols get cols a
            }
          }
        }
      })"

definition sessionPreupdateEqual :: "preupdate_hook \<Rightarrow> u64 \<Rightarrow> session_table \<Rightarrow> session_change \<Rightarrow> u8 \<Rightarrow>
    bool option" where
  "sessionPreupdateEqual hook iRowid pTab pChange opc =
     (if bRowid pTab then do {
        a0 \<leftarrow> rd (aRecord pChange) 0;
        if a0 \<noteq> SQLITE_INTEGER then Some False
        else do {
          i \<leftarrow> sessionGetI64 (drop 1 (aRecord pChange));
          Some (i = iRowid)
        }
      } else sessionPreupdateEqual_cols (if opc = SQLITE_INSERT then xNew hook else xOld hook)
               (table_cols pTab) (aRecord pChange))"

section \<open>Merging\<close>

text \<open>The output of the merge functions is the list of the bytes written at \<open>*paOut\<close>.\<close>

fun sessionMergeRecord :: "nat \<Rightarrow> bytes \<Rightarrow> bytes \<Rightarrow> bytes option" where
  "sessionMergeRecord 0 a1 a2 = Some []"
| "sessionMergeRecord (Suc n) a1 a2 = do {
     n1 \<leftarrow> sessionSerialLen a1;
     n2 \<leftarrow> sessionSerialLen a2;
     e2 \<leftarrow> rd a2 0;
     out \<leftarrow> (if e2 \<noteq> 0 then memread a2 n2 else memread a1 n1);
     a1 \<leftarrow> advance a1 n1;
     a2 \<leftarrow> advance a2 n2;
     rest \<leftarrow> sessionMergeRecord n a1 a2;
     Some (out @ rest)
   }"

text \<open>
  The result: the \<open>*pnVal\<close> bytes at the returned pointer, and the two advanced pointers.
  The second pointer may be null.
\<close>

definition sessionMergeValue :: "bytes \<Rightarrow> bytes option \<Rightarrow> (bytes \<times> bytes \<times> bytes option) option" where
  "sessionMergeValue a1 a2 = do {
     (pRet, a2) \<leftarrow>
       (case a2 of
          None \<Rightarrow> Some (None, None)
        | Some a2 \<Rightarrow> do {
            n2 \<leftarrow> sessionSerialLen a2;
            e2 \<leftarrow> rd a2 0;
            pRet \<leftarrow> (if e2 \<noteq> 0 then map_option Some (memread a2 n2) else Some None);
            a2 \<leftarrow> advance a2 n2;
            Some (pRet, Some a2)
          });
     n1 \<leftarrow> sessionSerialLen a1;
     pRet \<leftarrow> (case pRet of None \<Rightarrow> memread a1 n1 | Some v \<Rightarrow> Some v);
     a1 \<leftarrow> advance a1 n1;
     Some (pRet, a1, a2)
   }"

text \<open>The loop that writes the old.* vector, with \<open>bRequired\<close>.\<close>

fun sessionMergeUpdate_old :: "bytes \<Rightarrow> bytes \<Rightarrow> bytes option \<Rightarrow> bytes \<Rightarrow> bytes option \<Rightarrow> (bytes \<times> bool) option" where
  "sessionMergeUpdate_old [] aOld1 aOld2 aNew1 aNew2 = Some ([], False)"
| "sessionMergeUpdate_old (isPK # pks) aOld1 aOld2 aNew1 aNew2 = do {
     (aOld, aOld1, aOld2) \<leftarrow> sessionMergeValue aOld1 aOld2;
     (aNew, aNew1, aNew2) \<leftarrow> sessionMergeValue aNew1 aNew2;
     (out, bRequired) \<leftarrow> sessionMergeUpdate_old pks aOld1 aOld2 aNew1 aNew2;
     if isPK \<noteq> 0 \<or> aOld \<noteq> aNew then Some (aOld @ out, bRequired \<or> isPK = 0)
     else Some (0 # out, bRequired)
   }"

fun sessionMergeUpdate_new :: "bytes \<Rightarrow> bool \<Rightarrow> bytes \<Rightarrow> bytes option \<Rightarrow> bytes \<Rightarrow> bytes option \<Rightarrow> bytes option" where
  "sessionMergeUpdate_new [] bPatchset aOld1 aOld2 aNew1 aNew2 = Some []"
| "sessionMergeUpdate_new (isPK # pks) bPatchset aOld1 aOld2 aNew1 aNew2 = do {
     (aOld, aOld1, aOld2) \<leftarrow> sessionMergeValue aOld1 aOld2;
     (aNew, aNew1, aNew2) \<leftarrow> sessionMergeValue aNew1 aNew2;
     out \<leftarrow> sessionMergeUpdate_new pks bPatchset aOld1 aOld2 aNew1 aNew2;
     if \<not> bPatchset \<and> (isPK \<noteq> 0 \<or> aOld = aNew) then Some (0 # out)
     else Some (aNew @ out)
   }"

text \<open>The result is the returned flag and the bytes written (meaningless when it is 0).\<close>

definition sessionMergeUpdate :: "session_table \<Rightarrow> bool \<Rightarrow> bytes \<Rightarrow> bytes option \<Rightarrow> bytes \<Rightarrow> bytes option \<Rightarrow>
    (bool \<times> bytes) option" where
  "sessionMergeUpdate pTab bPatchset aOldRecord1 aOldRecord2 aNewRecord1 aNewRecord2 = do {
     let pks = take (nCol pTab) (abPK pTab);
     (old, bRequired) \<leftarrow>
       (if \<not> bPatchset then sessionMergeUpdate_old pks aOldRecord1 aOldRecord2 aNewRecord1 aNewRecord2
        else Some ([], True));
     if \<not> bRequired then Some (False, old)
     else do {
       new \<leftarrow> sessionMergeUpdate_new pks bPatchset aOldRecord1 aOldRecord2 aNewRecord1 aNewRecord2;
       Some (True, old @ new)
     }
   }"

section \<open>The hash table\<close>

definition sessionGrowHash_insert :: "session_table \<Rightarrow> bool \<Rightarrow> nat \<Rightarrow> session_change \<Rightarrow>
    session_change list list \<Rightarrow> session_change list list option" where
  "sessionGrowHash_insert pTab bPatchset nNew p apNew = do {
     let bPkOnly = (op p = SQLITE_DELETE \<and> bPatchset);
     iHash \<leftarrow> sessionChangeHash pTab bPkOnly (aRecord p) nNew;
     Some (apNew[iHash := p # (apNew ! iHash)])
   }"

fun sessionGrowHash_chain :: "session_table \<Rightarrow> bool \<Rightarrow> nat \<Rightarrow> session_change list \<Rightarrow>
    session_change list list \<Rightarrow> session_change list list option" where
  "sessionGrowHash_chain pTab bPatchset nNew [] apNew = Some apNew"
| "sessionGrowHash_chain pTab bPatchset nNew (p # ps) apNew =
     sessionGrowHash_insert pTab bPatchset nNew p apNew \<bind>
     sessionGrowHash_chain pTab bPatchset nNew ps"

text \<open>\<open>alloc\<close> says whether the allocation of the new array succeeds.\<close>

definition sessionGrowHash :: "bool \<Rightarrow> bool \<Rightarrow> session_table \<Rightarrow> (rc \<times> session_table) option" where
  "sessionGrowHash alloc bPatchset pTab =
     (if nChange pTab = 0 \<or> nEntry pTab \<ge> nChange pTab div 2 then
        let nNew = 2 * (if nChange pTab \<noteq> 0 then nChange pTab else 128)
        in if \<not> alloc then Some (if nChange pTab = 0 then SQLITE_ERROR else SQLITE_OK, pTab)
           else do {
             apNew \<leftarrow> sessionGrowHash_chain pTab bPatchset nNew
                        (concat (take (nChange pTab) (apChange pTab))) (replicate nNew []);
             Some (SQLITE_OK, pTab\<lparr>nChange := nNew, apChange := apNew\<rparr>)
           }
      else Some (SQLITE_OK, pTab))"

section \<open>What the operations compute on values\<close>

text \<open>The value of a merged column: the second one if it is present.\<close>

definition merge_value :: "sqlite3_value option \<Rightarrow> sqlite3_value option \<Rightarrow> sqlite3_value option" where
  "merge_value v1 v2 = (if v2 = None then v1 else v2)"

text \<open>The hash of one primary key value.\<close>

definition value_hash :: "u32 \<Rightarrow> sqlite3_value \<Rightarrow> u32" where
  "value_hash h v =
     (let h = sessionHashAppendType h (sqlite3_value_type v)
      in case v of
           VInteger i \<Rightarrow> sessionHashAppendI64 h i
         | VFloat r \<Rightarrow> sessionHashAppendI64 h r
         | _ \<Rightarrow> foldl (\<lambda>h b. HASH_APPEND h (ucast b)) h (value_bytes v))"

text \<open>The values of the primary key columns.\<close>

definition pk_values :: "bytes \<Rightarrow> 'a list \<Rightarrow> 'a list" where
  "pk_values pks vs = map snd (filter (\<lambda>(pk, v). pk \<noteq> 0) (zip pks vs))"

text \<open>
  The old.* and new.* vectors of an update from old values \<open>os\<close> to new values \<open>ns\<close>: a primary
  key column is in the old vector only, another column is in both when it changes.
\<close>

definition merged_old :: "bytes \<Rightarrow> sqlite3_value option list \<Rightarrow> sqlite3_value option list \<Rightarrow> sqlite3_value option list" where
  "merged_old pks os ns = map (\<lambda>(pk, ov, nv). if pk \<noteq> 0 \<or> ov \<noteq> nv then ov else None) (zip pks (zip os ns))"

definition merged_new :: "bytes \<Rightarrow> sqlite3_value option list \<Rightarrow> sqlite3_value option list \<Rightarrow> sqlite3_value option list" where
  "merged_new pks os ns = map (\<lambda>(pk, ov, nv). if pk \<noteq> 0 \<or> ov = nv then None else nv) (zip pks (zip os ns))"

definition update_required :: "bytes \<Rightarrow> sqlite3_value option list \<Rightarrow> sqlite3_value option list \<Rightarrow> bool" where
  "update_required pks os ns \<longleftrightarrow> list_ex (\<lambda>(pk, ov, nv). pk = 0 \<and> ov \<noteq> nv) (zip pks (zip os ns))"

text \<open>When the pre-update hook's value is taken for the recorded one.\<close>

fun value_same :: "sqlite3_value \<Rightarrow> sqlite3_value \<Rightarrow> bool" where
  "value_same (VFloat r) (VFloat s) = double_eq r s"
| "value_same v w = (v = w)"

section \<open>Well-formed tables\<close>

text \<open>
  A recorded change has one serialised value for each column of the table, and its primary
  key values are neither absent nor null.
\<close>

definition record_values :: "session_table \<Rightarrow> bytes \<Rightarrow> sqlite3_value option list \<Rightarrow> bool" where
  "record_values pTab a vs \<longleftrightarrow>
     a = serials vs \<and> length vs = nCol pTab \<and> list_all value_ok vs \<and>
     list_all (\<lambda>v. v \<noteq> None \<and> v \<noteq> Some VNull) (pk_values (take (nCol pTab) (abPK pTab)) vs)"

definition change_ok :: "session_table \<Rightarrow> session_change \<Rightarrow> bool" where
  "change_ok pTab p \<longleftrightarrow> (\<exists>vs. record_values pTab (aRecord p) vs)"

text \<open>Every change is in the bucket of its hash.\<close>

definition buckets_ok :: "session_table \<Rightarrow> bool" where
  "buckets_ok pTab \<longleftrightarrow>
     length (apChange pTab) = nChange pTab \<and> nCol pTab \<le> length (abPK pTab) \<and>
     (\<forall>i < nChange pTab. \<forall>p \<in> set (apChange pTab ! i).
        change_ok pTab p \<and> sessionChangeHash pTab False (aRecord p) (nChange pTab) = Some i)"

text \<open>The buckets of an array of a given size.\<close>

definition in_buckets :: "session_table \<Rightarrow> nat \<Rightarrow> session_change list list \<Rightarrow> bool" where
  "in_buckets pTab n ap \<longleftrightarrow> length ap = n \<and>
     (\<forall>i < n. \<forall>p \<in> set (ap ! i).
        change_ok pTab p \<and> sessionChangeHash pTab False (aRecord p) n = Some i)"

section \<open>Examples\<close>

definition example_table :: session_table where
  "example_table = \<lparr>zName = [0x74], nCol = 2, nTotalCol = 2, bStat1 = False, bRowid = False,
     aiIdx = [0, 1], abPK = [1, 0], nEntry = 0, nChange = 256, apChange = []\<rparr>"

definition example_hook :: preupdate_hook where
  "example_hook = \<lparr>xOld = (\<lambda>i. Inr ([VInteger 7, VText [0x61]] ! i)),
     xNew = (\<lambda>i. Inr ([VInteger 7, VText [0x62]] ! i)), xCount = 2, xDepth = 0\<rparr>"

definition example_change :: session_change where
  "example_change = \<lparr>op = SQLITE_UPDATE, bIndirect = False, nRecordField = 2, nMaxSize = 0,
     aRecord = serials [Some (VInteger 7), Some VNull]\<rparr>"

definition example_full_table :: session_table where
  "example_full_table = example_table\<lparr>nEntry := 1, nChange := 2, apChange := [[example_change], []]\<rparr>"


section \<open>Steps over a serialised value\<close>

lemma memread_append [simp]: "memread (xs @ ys) (int (length xs)) = Some xs"
  by (simp add: memread_def)

lemma memread_appendI: "n = int (length xs) \<Longrightarrow> memread (xs @ ys) n = Some xs"
  by simp

lemma advance_appendI: "n = int (length xs) \<Longrightarrow> advance (xs @ ys) n = Some ys"
  by simp

lemma hd_serial_0: "hd (serial v) = 0 \<longleftrightarrow> v = None"
  by (cases v; simp; cases "the v"; simp)

lemma rd_serial: "rd (serial v @ rest) 0 = Some (hd (serial v))"
  using serial_Cons [of v] by auto

lemma serial_eq_iff: "value_ok v \<Longrightarrow> value_ok w \<Longrightarrow> serial v = serial w \<longleftrightarrow> v = w"
  using value_codec.enc_inj by blast

lemmas serial_steps = sessionSerialLen_serial rd_serial hd_serial_0 memread_append advance_append

lemma value_ok_merge: "value_ok v \<Longrightarrow> value_ok w \<Longrightarrow> value_ok (merge_value v w)"
  by (simp add: merge_value_def)

lemma sessionMergeRecord_serials:
  assumes "list_all value_ok vs" and "list_all value_ok ws" and "length ws = length vs"
  shows "sessionMergeRecord (length vs) (serials vs @ r) (serials ws @ s) =
    Some (serials (map2 merge_value vs ws))"
  using assms
proof (induction vs arbitrary: ws)
  case (Cons v vs)
  then obtain w ws' where "ws = w # ws'" by (cases ws) auto
  with Cons show ?case by (simp add: serial_steps merge_value_def)
qed simp

lemma sessionMergeValue_serial:
  assumes "value_ok v" and "value_ok w"
  shows "sessionMergeValue (serial v @ r) (Some (serial w @ s)) =
    Some (serial (merge_value v w), r, Some s)"
  using assms by (simp add: sessionMergeValue_def serial_steps merge_value_def)

lemma sessionMergeValue_null:
  assumes "value_ok v"
  shows "sessionMergeValue (serial v @ r) None = Some (serial v, r, None)"
  using assms by (simp add: sessionMergeValue_def serial_steps)

lemma pk_values_Nil [simp]: "pk_values [] vs = []" "pk_values pks [] = []"
  by (simp_all add: pk_values_def)

lemma pk_values_Cons [simp]:
  "pk_values (pk # pks) (v # vs) = (if pk \<noteq> 0 then v # pk_values pks vs else pk_values pks vs)"
  by (simp add: pk_values_def)

lemma sessionChangeEqual_cols_serials:
  assumes "list_all value_ok vs" and "list_all value_ok ws"
    and "length vs = length pks" and "length ws = length pks"
  shows "sessionChangeEqual_cols pks False (serials vs @ r) False (serials ws @ s) =
    Some (pk_values pks vs = pk_values pks ws)"
  using assms
proof (induction pks arbitrary: vs ws)
  case (Cons pk pks)
  obtain v vs' where v: "vs = v # vs'" using Cons.prems by (cases vs) auto
  obtain w ws' where w: "ws = w # ws'" using Cons.prems by (cases ws) auto
  have eq: "serial v = serial w \<longleftrightarrow> v = w" "length (serial v) \<noteq> length (serial w) \<Longrightarrow> v \<noteq> w"
    using serial_eq_iff [of v w] Cons.prems v w by auto
  show ?case
  proof (cases "pk \<noteq> 0 \<and> length (serial v) = length (serial w)")
    case True
    then show ?thesis
      using Cons v w eq by (auto simp add: serial_steps memread_appendI advance_appendI)
  next
    case False
    then show ?thesis using Cons v w eq by (auto simp add: serial_steps)
  qed
qed simp

lemma sessionPreupdateHash_value_ok:
  "sessionPreupdateHash_value False v h = Inr (value_hash h v, v = VNull)"
  by (cases v) (auto simp add: sessionPreupdateHash_value_def value_hash_def Let_def)

lemma sessionPreupdateHash_cols_values:
  assumes "list_all2 (\<lambda>(pk, i) v. pk \<noteq> 0 \<longrightarrow> get i = Inr v) cols vs"
  shows "sessionPreupdateHash_cols False get cols h b =
    Inr (foldl value_hash h (pk_values (map fst cols) vs), b \<or> VNull \<in> set (pk_values (map fst cols) vs))"
  using assms
proof (induction cols arbitrary: vs h b)
  case (Cons c cols)
  then obtain v vs' where v: "vs = v # vs'" by (cases vs) auto
  obtain pk i where c: "c = (pk, i)" by (cases c)
  show ?case
    using Cons v c by (auto simp add: sessionPreupdateHash_value_ok)
qed simp

lemma sessionChangeHash_cols_step:
  assumes "value_ok (Some w)" and "w \<noteq> VNull" and "pk \<noteq> 0"
  shows "sessionChangeHash_cols (pk # pks) False (serial (Some w) @ r) h =
    sessionChangeHash_cols pks False r (value_hash h w)"
  using assms
  by (cases w) (simp_all add: value_hash_def codec_simps advance_def sessionHashAppendBlob_def Let_def)

lemma sessionChangeHash_cols_serials:
  assumes "list_all value_ok vs" and "length vs = length pks"
    and "pk_values pks vs = map Some ws" and "VNull \<notin> set ws"
  shows "sessionChangeHash_cols pks False (serials vs @ r) h = Some (foldl value_hash h ws)"
  using assms
proof (induction pks arbitrary: vs ws h)
  case (Cons pk pks)
  then obtain v vs' where v: "vs = v # vs'" by (cases vs) auto
  show ?case
  proof (cases "pk = 0")
    case True
    then show ?thesis using Cons v by (simp add: serial_steps)
  next
    case False
    with Cons.prems v obtain w ws' where w: "ws = w # ws'" "v = Some w" by (cases ws) auto
    then show ?thesis
      using False Cons v
      by (auto simp add: sessionChangeHash_cols_step simp del: sessionChangeHash_cols.simps)
  qed
qed simp

text \<open>The merge of two updates, column by column: \<open>o'\<close> and \<open>n'\<close> are the merged old and new value.\<close>

lemma sessionMergeUpdate_old_serials:
  assumes "list_all value_ok o1" "list_all value_ok o2" "list_all value_ok n1" "list_all value_ok n2"
    and "length o1 = length pks" "length o2 = length pks" "length n1 = length pks" "length n2 = length pks"
  shows "sessionMergeUpdate_old pks (serials o1 @ r1) (Some (serials o2 @ r2)) (serials n1 @ r3)
      (Some (serials n2 @ r4)) =
    Some (serials (merged_old pks (map2 merge_value o1 o2) (map2 merge_value n1 n2)),
      update_required pks (map2 merge_value o1 o2) (map2 merge_value n1 n2))"
  using assms
proof (induction pks arbitrary: o1 o2 n1 n2)
  case (Cons pk pks)
  obtain a as b bs c cs d ds where l: "o1 = a # as" "o2 = b # bs" "n1 = c # cs" "n2 = d # ds"
    using Cons.prems by (cases o1; cases o2; cases n1; cases n2) auto
  have "serial (merge_value a b) = serial (merge_value c d) \<longleftrightarrow> merge_value a b = merge_value c d"
    using Cons.prems l by (intro serial_eq_iff value_ok_merge) auto
  then show ?case using Cons l
    by (auto simp add: sessionMergeValue_serial merged_old_def update_required_def)
qed (simp add: merged_old_def update_required_def)

lemma sessionMergeUpdate_new_serials:
  assumes "list_all value_ok o1" "list_all value_ok o2" "list_all value_ok n1" "list_all value_ok n2"
    and "length o1 = length pks" "length o2 = length pks" "length n1 = length pks" "length n2 = length pks"
  shows "sessionMergeUpdate_new pks False (serials o1 @ r1) (Some (serials o2 @ r2)) (serials n1 @ r3)
      (Some (serials n2 @ r4)) =
    Some (serials (merged_new pks (map2 merge_value o1 o2) (map2 merge_value n1 n2)))"
  using assms
proof (induction pks arbitrary: o1 o2 n1 n2)
  case (Cons pk pks)
  obtain a as b bs c cs d ds where l: "o1 = a # as" "o2 = b # bs" "n1 = c # cs" "n2 = d # ds"
    using Cons.prems by (cases o1; cases o2; cases n1; cases n2) auto
  have "serial (merge_value a b) = serial (merge_value c d) \<longleftrightarrow> merge_value a b = merge_value c d"
    using Cons.prems l by (intro serial_eq_iff value_ok_merge) auto
  then show ?case using Cons l
    by (auto simp add: sessionMergeValue_serial merged_new_def)
qed (simp add: merged_new_def)

lemma sessionPreupdateEqual_cols_step:
  assumes "value_ok (Some w)" and "w \<noteq> VNull" and "pk \<noteq> 0" and "get i = Inr v"
  shows "sessionPreupdateEqual_cols get ((pk, i) # cols) (serial (Some w) @ r) =
    (if value_same v w then sessionPreupdateEqual_cols get cols r else Some False)"
  using assms
  by (cases w; cases v) (auto simp add: codec_simps advance_def memread_def)

lemma sessionPreupdateEqual_cols_serials:
  assumes "list_all value_ok vs" and "list_all2 (\<lambda>(pk, i) v. pk \<noteq> 0 \<longrightarrow> get i = Inr v) cols row"
    and "pk_values (map fst cols) vs = map Some ws" and "VNull \<notin> set ws" and "length vs = length cols"
  shows "sessionPreupdateEqual_cols get cols (serials vs @ r) =
    Some (list_all2 value_same (pk_values (map fst cols) row) ws)"
  using assms
proof (induction cols arbitrary: vs ws row)
  case (Cons c cols)
  obtain pk i where c: "c = (pk, i)" by (cases c)
  obtain v vs' where v: "vs = v # vs'" using Cons.prems by (cases vs) auto
  obtain x row' where x: "row = x # row'" using Cons.prems by (cases row) auto
  show ?case
  proof (cases "pk = 0")
    case True
    then show ?thesis using Cons v x c by (simp add: serial_steps)
  next
    case False
    with Cons.prems v c obtain w ws' where w: "ws = w # ws'" "v = Some w" by (cases ws) auto
    then show ?thesis
      using False Cons v c x
      by (auto simp add: sessionPreupdateEqual_cols_step simp del: sessionPreupdateEqual_cols.simps)
  qed
qed simp

lemma record_values_hash:
  assumes "record_values pTab a vs" and "nCol pTab \<le> length (abPK pTab)"
  shows "sessionChangeHash pTab False a n =
    Some (unat (foldl value_hash 0 (map the (pk_values (take (nCol pTab) (abPK pTab)) vs))) mod n)"
proof -
  let ?pk = "pk_values (take (nCol pTab) (abPK pTab)) vs"
  have "?pk = map Some (map the ?pk)" "VNull \<notin> set (map the ?pk)"
    using assms(1) by (auto simp add: record_values_def list_all_iff intro!: map_idI [symmetric])
  then show ?thesis
    using sessionChangeHash_cols_serials [of vs "take (nCol pTab) (abPK pTab)" "map the ?pk" "[]" 0] assms
    by (auto simp add: sessionChangeHash_def record_values_def)
qed

lemma change_ok_hash:
  assumes "change_ok pTab p" and "nCol pTab \<le> length (abPK pTab)" and "0 < n"
  obtains h where "sessionChangeHash pTab False (aRecord p) n = Some h" and "h < n"
  using assms record_values_hash [of pTab "aRecord p"] unfolding change_ok_def
  by (metis mod_less_divisor)

lemma mset_concat_update:
  "i < length xs \<Longrightarrow> mset (concat (xs[i := p # xs ! i])) = add_mset p (mset (concat xs))"
proof (induction xs arbitrary: i)
  case (Cons x xs)
  then show ?case by (cases i) auto
qed simp

lemma sessionGrowHash_insert_ok:
  assumes "in_buckets pTab n ap" and "change_ok pTab p" and "nCol pTab \<le> length (abPK pTab)" and "0 < n"
  shows "\<exists>ap'. sessionGrowHash_insert pTab False n p ap = Some ap' \<and> in_buckets pTab n ap' \<and>
    mset (concat ap') = add_mset p (mset (concat ap))"
proof -
  obtain h where h: "sessionChangeHash pTab False (aRecord p) n = Some h" "h < n"
    using change_ok_hash assms(2-4) by blast
  have "in_buckets pTab n (ap[h := p # ap ! h])"
    using assms(1,2) h by (auto simp add: in_buckets_def nth_list_update)
  moreover have "mset (concat (ap[h := p # ap ! h])) = add_mset p (mset (concat ap))"
    using assms(1) h by (simp add: in_buckets_def mset_concat_update)
  ultimately show ?thesis using h by (simp add: sessionGrowHash_insert_def)
qed

lemma sessionGrowHash_chain_ok:
  assumes "in_buckets pTab n ap" and "\<forall>p \<in> set ps. change_ok pTab p"
    and "nCol pTab \<le> length (abPK pTab)" and "0 < n"
  shows "\<exists>ap'. sessionGrowHash_chain pTab False n ps ap = Some ap' \<and> in_buckets pTab n ap' \<and>
    mset (concat ap') = mset ps + mset (concat ap)"
  using assms
proof (induction ps arbitrary: ap)
  case (Cons p ps)
  obtain ap1 where 1: "sessionGrowHash_insert pTab False n p ap = Some ap1" "in_buckets pTab n ap1"
      "mset (concat ap1) = add_mset p (mset (concat ap))"
    using sessionGrowHash_insert_ok Cons.prems by (metis list.set_intros(1))
  then obtain ap2 where "sessionGrowHash_chain pTab False n ps ap1 = Some ap2" "in_buckets pTab n ap2"
      "mset (concat ap2) = mset ps + mset (concat ap1)"
    using Cons.IH [of ap1] Cons.prems by auto
  with 1 show ?case by simp
qed simp

lemma buckets_ok_in_buckets:
  "buckets_ok pTab \<longleftrightarrow> in_buckets pTab (nChange pTab) (apChange pTab) \<and> nCol pTab \<le> length (abPK pTab)"
  by (auto simp add: buckets_ok_def in_buckets_def)

lemma change_ok_update:
  "change_ok (pTab\<lparr>nChange := n, apChange := ap\<rparr>) p = change_ok pTab p"
  "sessionChangeHash (pTab\<lparr>nChange := n, apChange := ap\<rparr>) b a k = sessionChangeHash pTab b a k"
  by (simp_all add: change_ok_def record_values_def sessionChangeHash_def)

lemma in_buckets_replicate: "in_buckets pTab n (replicate n [])"
  by (simp add: in_buckets_def)

lemma sessionGrowHash_ok:
  assumes "buckets_ok pTab"
  obtains pTab' where "sessionGrowHash True False pTab = Some (SQLITE_OK, pTab')" and "buckets_ok pTab'"
    and "mset (concat (apChange pTab')) = mset (concat (apChange pTab))"
    and "0 < nChange pTab'" and "nEntry pTab' = nEntry pTab"
    and "nEntry pTab \<le> nChange pTab div 2 \<Longrightarrow> nEntry pTab' < nChange pTab' div 2"
    and "pTab' = pTab\<lparr>nChange := nChange pTab', apChange := apChange pTab'\<rparr>"
proof (cases "nChange pTab = 0 \<or> nEntry pTab \<ge> nChange pTab div 2")
  case True
  define nNew where "nNew = 2 * (if nChange pTab \<noteq> 0 then nChange pTab else 128)"
  have all: "\<forall>p \<in> set (concat (apChange pTab)). change_ok pTab p" and len: "length (apChange pTab) = nChange pTab"
    using assms by (auto simp add: buckets_ok_def in_set_conv_nth) (metis nth_mem)
  have pos: "0 < nNew" by (simp add: nNew_def)
  obtain ap where ap: "sessionGrowHash_chain pTab False nNew (concat (apChange pTab)) (replicate nNew []) = Some ap"
      "in_buckets pTab nNew ap" "mset (concat ap) = mset (concat (apChange pTab))"
    using sessionGrowHash_chain_ok [OF in_buckets_replicate all _ pos] assms
    by (auto simp add: buckets_ok_def)
  let ?t = "pTab\<lparr>nChange := nNew, apChange := ap\<rparr>"
  have "sessionGrowHash True False pTab = Some (SQLITE_OK, ?t)"
    using True ap(1) len by (auto simp add: sessionGrowHash_def nNew_def Let_def)
  moreover have "buckets_ok ?t"
    using ap(2) assms by (simp add: buckets_ok_def in_buckets_def change_ok_update)
  moreover have "nEntry pTab \<le> nChange pTab div 2 \<Longrightarrow> nEntry ?t < nChange ?t div 2"
    by (cases "nChange pTab") (auto simp add: nNew_def)
  ultimately show ?thesis using ap pos by (intro that [of ?t]) simp_all
next
  case False
  then show ?thesis using assms by (intro that [of pTab]) (auto simp add: sessionGrowHash_def)
qed

section \<open>Properties\<close>

lemma pk_values_map: "pk_values pks (map f vs) = map f (pk_values pks vs)"
  by (auto simp add: pk_values_def zip_map2 filter_map comp_def split_def)

text \<open>The hash of the primary key computed from the row in the pre-update callback is the
  hash computed from the record stored for that row, so a row is looked up in the bucket its
  record was put in.\<close>

theorem hash_compatible:
  assumes "\<not> bRowid pTab" and "nCol pTab \<le> length (abPK pTab)" and "length (aiIdx pTab) = nCol pTab"
    and "record_values pTab a (map Some row)"
    and "\<And>i. i < nCol pTab \<Longrightarrow> (if bNew then xNew hook else xOld hook) (aiIdx pTab ! i) = Inr (row ! i)"
  shows "\<exists>h. sessionPreupdateHash False hook iRowid pTab bNew = Inr (h, False) \<and>
    sessionChangeHash pTab False a (nChange pTab) = Some h"
proof -
  let ?pks = "take (nCol pTab) (abPK pTab)" and ?get = "if bNew then xNew hook else xOld hook"
  have len: "length row = nCol pTab" using assms(4) by (simp add: record_values_def)
  have cols: "map fst (table_cols pTab) = ?pks" "length (table_cols pTab) = nCol pTab"
    using assms(2,3) by (simp_all add: table_cols_def)
  have "list_all2 (\<lambda>(pk, i) v. pk \<noteq> 0 \<longrightarrow> ?get i = Inr v) (table_cols pTab) row"
    using assms(2,3,5) len by (auto simp add: list_all2_conv_all_nth table_cols_def)
  moreover have "VNull \<notin> set (pk_values ?pks row)"
    using assms(4) by (auto simp add: record_values_def pk_values_map list_all_iff)
  ultimately show ?thesis
    using assms(1) cols record_values_hash [OF assms(4,2), of "nChange pTab"]
      sessionPreupdateHash_cols_values [of ?get "table_cols pTab" row 0 False]
    by (simp add: sessionPreupdateHash_def pk_values_map comp_def)
qed

theorem hash_compatible_witness:
  "\<exists>h. sessionPreupdateHash False example_hook 0 example_table False = Inr (h, False) \<and>
    sessionChangeHash example_table False (serials [Some (VInteger 7), Some (VText [0x61])]) 256 = Some h"
proof -
  have "i < 2 \<Longrightarrow> xOld example_hook (aiIdx example_table ! i) = Inr ([VInteger 7, VText [0x61]] ! i)" for i :: nat
    by (cases i) (auto simp add: example_hook_def example_table_def)
  then show ?thesis
    using hash_compatible [of example_table "serials [Some (VInteger 7), Some (VText [0x61])]"
        "[VInteger 7, VText [0x61]]" False example_hook 0]
    by (simp add: example_table_def record_values_def numeral_2_eq_2)
qed

text \<open>Two change records are taken to be about the same row exactly when the values of all
  primary key columns are equal, whatever the other columns hold.\<close>

theorem ChangeEqual_iff_same_key:
  assumes "nCol pTab \<le> length (abPK pTab)"
    and "list_all value_ok vs" and "length vs = nCol pTab"
    and "list_all value_ok ws" and "length ws = nCol pTab"
  shows "sessionChangeEqual pTab False (serials vs) False (serials ws) =
    Some (pk_values (take (nCol pTab) (abPK pTab)) vs = pk_values (take (nCol pTab) (abPK pTab)) ws)"
  using sessionChangeEqual_cols_serials [of vs ws "take (nCol pTab) (abPK pTab)" "[]" "[]"] assms
  by (simp add: sessionChangeEqual_def)

theorem ChangeEqual_iff_same_key_witness:
  "sessionChangeEqual example_table False (serials [Some (VInteger 7), Some VNull])
     False (serials [Some (VInteger 7), None]) = Some True \<and>
   sessionChangeEqual example_table False (serials [Some (VInteger 7), Some VNull])
     False (serials [Some (VInteger 8), Some VNull]) = Some False"
  using ChangeEqual_iff_same_key [of example_table "[Some (VInteger 7), Some VNull]" "[Some (VInteger 7), None]"]
    ChangeEqual_iff_same_key [of example_table "[Some (VInteger 7), Some VNull]" "[Some (VInteger 8), Some VNull]"]
  by (simp add: example_table_def numeral_2_eq_2)

text \<open>The merge of two update records of the same row: with \<open>os\<close> and \<open>ns\<close> the merged old and
  new values, the result is dropped when no column outside the primary key differs between
  them, and otherwise holds the old value of the key and of the changed columns, followed by
  the new value of the changed columns alone.\<close>

theorem MergeUpdate_net_change:
  assumes "nCol pTab \<le> length (abPK pTab)"
    and "list_all (list_all value_ok) [o1, o2, n1, n2]"
    and "list_all (\<lambda>vs. length vs = nCol pTab) [o1, o2, n1, n2]"
  defines "pks \<equiv> take (nCol pTab) (abPK pTab)"
    and "os \<equiv> map2 merge_value o1 o2" and "ns \<equiv> map2 merge_value n1 n2"
  shows "map_option (\<lambda>(b, out). if b then Some out else None)
      (sessionMergeUpdate pTab False (serials o1) (Some (serials o2)) (serials n1) (Some (serials n2))) =
    Some (if \<exists>i < nCol pTab. abPK pTab ! i = 0 \<and> os ! i \<noteq> ns ! i
          then Some (serials (merged_old pks os ns) @ serials (merged_new pks os ns)) else None)"
proof -
  have "sessionMergeUpdate pTab False (serials o1) (Some (serials o2)) (serials n1) (Some (serials n2)) =
      Some (if update_required pks os ns
            then (True, serials (merged_old pks os ns) @ serials (merged_new pks os ns))
            else (False, serials (merged_old pks os ns)))"
    using sessionMergeUpdate_old_serials [of o1 o2 n1 n2 pks "[]" "[]" "[]" "[]"]
      sessionMergeUpdate_new_serials [of o1 o2 n1 n2 pks "[]" "[]" "[]" "[]"] assms(1-3)
    by (simp add: sessionMergeUpdate_def Let_def pks_def os_def ns_def)
  moreover have "update_required pks os ns \<longleftrightarrow> (\<exists>i < nCol pTab. abPK pTab ! i = 0 \<and> os ! i \<noteq> ns ! i)"
    using assms(1,3) unfolding update_required_def list_ex_length pks_def os_def ns_def by auto
  ultimately show ?thesis by auto
qed

theorem MergeUpdate_net_change_witness:
  "map_option (\<lambda>(b, out). if b then Some out else None)
      (sessionMergeUpdate example_table False
         (serials [Some (VInteger 7), Some VNull]) (Some (serials [Some (VInteger 7), Some (VText [0x61])]))
         (serials [None, Some (VText [0x62])]) (Some (serials [None, Some VNull]))) =
    Some (Some (serials [Some (VInteger 7), Some (VText [0x61])] @ serials [None, Some VNull]))"
proof -
  let ?P = "\<lambda>i. abPK example_table ! i = 0 \<and>
      map2 merge_value [Some (VInteger 7), Some VNull] [Some (VInteger 7), Some (VText [0x61])] ! i \<noteq>
      map2 merge_value [None, Some (VText [0x62])] [None, Some VNull] ! i"
  have "?P 1" by (simp add: example_table_def merge_value_def)
  then have "\<exists>i < nCol example_table. ?P i" by (intro exI [of _ 1]) (simp add: example_table_def)
  then show ?thesis
    using MergeUpdate_net_change [of example_table "[Some (VInteger 7), Some VNull]"
      "[Some (VInteger 7), Some (VText [0x61])]" "[None, Some (VText [0x62])]" "[None, Some VNull]"]
    by (simp add: example_table_def merge_value_def merged_old_def merged_new_def numeral_2_eq_2)
qed

text \<open>Growing the hash table of a session table keeps every recorded change, puts each of
  them in the bucket of its hash for the new size, and leaves a table that is less than half
  full.\<close>

theorem GrowHash_keeps_changes:
  assumes "buckets_ok pTab" and "nEntry pTab \<le> nChange pTab div 2"
  shows "\<exists>pTab'. sessionGrowHash True False pTab = Some (SQLITE_OK, pTab') \<and> buckets_ok pTab' \<and>
    mset (concat (apChange pTab')) = mset (concat (apChange pTab)) \<and>
    0 < nChange pTab' \<and> nEntry pTab' < nChange pTab' div 2"
  using sessionGrowHash_ok [OF assms(1)] assms(2) by metis

theorem GrowHash_keeps_changes_witness:
  "\<exists>pTab'. sessionGrowHash True False example_full_table = Some (SQLITE_OK, pTab') \<and> buckets_ok pTab' \<and>
    mset (concat (apChange pTab')) = {#example_change#} \<and> 0 < nChange pTab' \<and> nEntry pTab' < nChange pTab' div 2"
proof -
  have r: "record_values example_full_table (aRecord example_change) [Some (VInteger 7), Some VNull]"
    by (simp add: record_values_def example_full_table_def example_table_def example_change_def numeral_2_eq_2)
  have "sessionChangeHash example_full_table False (aRecord example_change) 2 = Some 0"
    by code_simp
  then have "buckets_ok example_full_table"
    using r by (auto simp add: buckets_ok_def change_ok_def example_full_table_def example_table_def less_2_cases_iff)
  then show ?thesis
    using GrowHash_keeps_changes [of example_full_table]
    by (simp add: example_full_table_def example_table_def)
qed

end
