(* ===== verification/SessionBuffer.thy ===== *)
theory SessionBuffer
  imports SessionRecord
begin

text \<open>
  The growing buffers changesets are written to, and the functions that append to them.
  An appending function maps the buffer and the error code \<open>*pRc\<close> it is called with to those
  it leaves.  \<open>ra n\<close> says whether the allocator grants a buffer of \<open>n\<close> bytes.
\<close>

section \<open>Growing\<close>

text \<open>The \<open>nBuf\<close> bytes in use, and the size of the allocation.\<close>

record session_buffer =
  aBuf :: bytes
  nAlloc :: nat

abbreviation nBuf :: "session_buffer \<Rightarrow> nat" where
  "nBuf p \<equiv> length (aBuf p)"

abbreviation SESSION_MAX_BUFFER_SZ :: nat where
  "SESSION_MAX_BUFFER_SZ \<equiv> 0x7FFFFF00 - 1"

type_synonym append = "session_buffer \<times> rc \<Rightarrow> session_buffer \<times> rc"

text \<open>The loop \<open>do { nNew = nNew*2; }while( nNew<nReq )\<close>, entered with a positive \<open>nNew\<close>.\<close>

function sessionBufferGrow_size :: "nat \<Rightarrow> nat \<Rightarrow> nat" where
  "sessionBufferGrow_size nNew nReq =
     (let nNew = nNew * 2
      in if nNew < nReq \<and> 0 < nNew then sessionBufferGrow_size nNew nReq else nNew)"
  by auto
termination
  by (relation "measure (\<lambda>(nNew, nReq). nReq - nNew)") auto

declare sessionBufferGrow_size.simps [simp del]

text \<open>The returned flag is \<open>*pRc!=SQLITE_OK\<close>.\<close>

definition sessionBufferGrow :: "(nat \<Rightarrow> bool) \<Rightarrow> session_buffer \<Rightarrow> nat \<Rightarrow> rc \<Rightarrow>
    session_buffer \<times> rc \<times> bool" where
  "sessionBufferGrow ra p nByte rc =
     (let nReq = nBuf p + nByte
      in if rc = SQLITE_OK \<and> nReq > nAlloc p then
           let nNew = sessionBufferGrow_size (if nAlloc p \<noteq> 0 then nAlloc p else 128) nReq;
               over = nNew > SESSION_MAX_BUFFER_SZ;
               nNew = (if over then SESSION_MAX_BUFFER_SZ else nNew)
           in if over \<and> nNew < nReq then (p, SQLITE_NOMEM, True)
              else if \<not> ra nNew then (p, SQLITE_NOMEM, True)
              else (p\<lparr>nAlloc := nNew\<rparr>, rc, False)
         else (p, rc, rc \<noteq> SQLITE_OK))"

section \<open>Appending\<close>

definition sessionAppendByte :: "(nat \<Rightarrow> bool) \<Rightarrow> u8 \<Rightarrow> append" where
  "sessionAppendByte ra v = (\<lambda>(p, rc).
     case sessionBufferGrow ra p 1 rc of
       (p, rc, fail) \<Rightarrow> if \<not> fail then (p\<lparr>aBuf := aBuf p @ [v]\<rparr>, rc) else (p, rc))"

definition sessionAppendVarint :: "(nat \<Rightarrow> bool) \<Rightarrow> int \<Rightarrow> append" where
  "sessionAppendVarint ra v = (\<lambda>(p, rc).
     case sessionBufferGrow ra p 9 rc of
       (p, rc, fail) \<Rightarrow> if \<not> fail then (p\<lparr>aBuf := aBuf p @ sessionVarintPut v\<rparr>, rc) else (p, rc))"

definition sessionAppendBlob :: "(nat \<Rightarrow> bool) \<Rightarrow> bytes \<Rightarrow> append" where
  "sessionAppendBlob ra aBlob = (\<lambda>(p, rc).
     if aBlob = [] then (p, rc)
     else case sessionBufferGrow ra p (length aBlob) rc of
            (p, rc, fail) \<Rightarrow> if \<not> fail then (p\<lparr>aBuf := aBuf p @ aBlob\<rparr>, rc) else (p, rc))"

text \<open>
  The string functions leave a nul byte behind the \<open>nBuf\<close> bytes in use, which the next
  append overwrites.
\<close>

definition sessionAppendStr :: "(nat \<Rightarrow> bool) \<Rightarrow> bytes \<Rightarrow> append" where
  "sessionAppendStr ra zStr = (\<lambda>(p, rc).
     case sessionBufferGrow ra p (length zStr + 1) rc of
       (p, rc, fail) \<Rightarrow> if \<not> fail then (p\<lparr>aBuf := aBuf p @ zStr\<rparr>, rc) else (p, rc))"

fun ident_chars :: "bytes \<Rightarrow> bytes" where
  "ident_chars [] = []"
| "ident_chars (c # cs) = (if c = 0x22 then 0x22 # c # ident_chars cs else c # ident_chars cs)"

definition sessionAppendIdent :: "(nat \<Rightarrow> bool) \<Rightarrow> bytes \<Rightarrow> append" where
  "sessionAppendIdent ra zStr = (\<lambda>(p, rc).
     case sessionBufferGrow ra p (length zStr * 2 + 2 + 2) rc of
       (p, rc, fail) \<Rightarrow>
         if \<not> fail then (p\<lparr>aBuf := aBuf p @ 0x22 # ident_chars zStr @ [0x22]\<rparr>, rc) else (p, rc))"

definition sessionAppendValue :: "(nat \<Rightarrow> bool) \<Rightarrow> bool \<Rightarrow> sqlite3_value option \<Rightarrow> append" where
  "sessionAppendValue ra oom pVal = (\<lambda>(p, rc0).
     if rc0 = SQLITE_OK then
       case sessionSerializeValue oom pVal of
         Inl rc \<Rightarrow> (p, rc)
       | Inr (bs, nByte) \<Rightarrow>
           (case sessionBufferGrow ra p (nat nByte) rc0 of
              (p, rc, fail) \<Rightarrow> if rc = SQLITE_OK then (p\<lparr>aBuf := aBuf p @ bs\<rparr>, rc0) else (p, rc))
     else (p, rc0))"

text \<open>The column \<open>iCol\<close> of the current row of a statement is a value here.\<close>

definition sessionAppendCol :: "(nat \<Rightarrow> bool) \<Rightarrow> bool \<Rightarrow> sqlite3_value \<Rightarrow> append" where
  "sessionAppendCol ra oom col = (\<lambda>(p, rc).
     if rc = SQLITE_OK then
       let st = sessionAppendByte ra (sqlite3_value_type col) (p, rc)
       in case col of
            VInteger i \<Rightarrow> sessionAppendBlob ra (sessionPutI64 i) st
          | VFloat r \<Rightarrow> sessionAppendBlob ra (sessionPutI64 r) st
          | VNull \<Rightarrow> st
          | _ \<Rightarrow>
              (let z = value_ptr oom col; nByte = int (length (value_bytes col))
               in if z \<noteq> None \<or> (sqlite3_value_type col = SQLITE_BLOB \<and> nByte = 0)
                  then sessionAppendBlob ra (value_bytes col) (sessionAppendVarint ra nByte st)
                  else (fst st, SQLITE_NOMEM))
     else (p, rc))"

section \<open>Buffers in use\<close>

definition buffer_ok :: "session_buffer \<Rightarrow> bool" where
  "buffer_ok p \<longleftrightarrow> nBuf p \<le> nAlloc p \<and> nAlloc p \<le> SESSION_MAX_BUFFER_SZ"

text \<open>The function appends these bytes whenever they, and the room reserved for a varint, fit.\<close>

definition appends :: "append \<Rightarrow> bytes \<Rightarrow> bool" where
  "appends f bs \<longleftrightarrow>
     (\<forall>p. buffer_ok p \<and> nBuf p + length bs + 9 \<le> SESSION_MAX_BUFFER_SZ \<longrightarrow>
        (\<exists>p'. f (p, SQLITE_OK) = (p', SQLITE_OK) \<and> buffer_ok p' \<and> aBuf p' = aBuf p @ bs))"

text \<open>The function does nothing in an error state, and if it fails itself it keeps what the
  buffer held as a prefix.\<close>

definition error_safe :: "append \<Rightarrow> bool" where
  "error_safe f \<longleftrightarrow>
     (\<forall>p rc. rc \<noteq> SQLITE_OK \<longrightarrow> f (p, rc) = (p, rc)) \<and>
     (\<forall>p p' rc. f (p, SQLITE_OK) = (p', rc) \<longrightarrow> (\<exists>bs. aBuf p' = aBuf p @ bs))"


section \<open>Growing\<close>

lemma sessionBufferGrow_size_ge:
  "0 < n \<Longrightarrow> req \<le> sessionBufferGrow_size n req \<and> 2 * n \<le> sessionBufferGrow_size n req"
proof (induction n req rule: sessionBufferGrow_size.induct)
  case (1 n req)
  show ?case
  proof (cases "n * 2 < req")
    case True
    with 1 have "req \<le> sessionBufferGrow_size (n * 2) req \<and> 2 * (n * 2) \<le> sessionBufferGrow_size (n * 2) req"
      by simp
    with True 1(2) show ?thesis by (subst (1 2) sessionBufferGrow_size.simps) simp
  next
    case False
    then show ?thesis by (subst (1 2) sessionBufferGrow_size.simps) simp
  qed
qed

text \<open>
  A request is refused only when the allocator refuses it or the limit is exceeded; a granted
  one leaves room for the bytes asked for and does not touch the bytes in use.
\<close>

lemma sessionBufferGrow_error [simp]: "rc \<noteq> SQLITE_OK \<Longrightarrow> sessionBufferGrow ra p n rc = (p, rc, True)"
  by (simp add: sessionBufferGrow_def)

lemma sessionBufferGrow_cases:
  assumes "sessionBufferGrow ra p n SQLITE_OK = (p', rc, fail)"
  shows "aBuf p' = aBuf p \<and> fail = (rc \<noteq> SQLITE_OK) \<and> rc \<in> {SQLITE_OK, SQLITE_NOMEM} \<and>
    (buffer_ok p \<longrightarrow> buffer_ok p') \<and> (rc = SQLITE_OK \<longrightarrow> nBuf p' + n \<le> nAlloc p') \<and>
    (rc \<noteq> SQLITE_OK \<longrightarrow> p' = p)"
proof -
  let ?n = "sessionBufferGrow_size (if nAlloc p \<noteq> 0 then nAlloc p else 128) (nBuf p + n)"
  have "nBuf p + n \<le> ?n" "nAlloc p \<le> ?n"
    using sessionBufferGrow_size_ge [of "if nAlloc p \<noteq> 0 then nAlloc p else 128" "nBuf p + n"]
    by (auto split: if_splits)
  then show ?thesis
    using assms unfolding sessionBufferGrow_def Let_def
    by (auto simp add: buffer_ok_def split: if_splits)
qed

lemma sessionBufferGrow_grants:
  assumes "\<And>k. ra k" and "nBuf p + n \<le> SESSION_MAX_BUFFER_SZ"
  shows "\<exists>p'. sessionBufferGrow ra p n SQLITE_OK = (p', SQLITE_OK, False)"
  using assms unfolding sessionBufferGrow_def Let_def by simp

section \<open>Appending\<close>

lemma grow_append_appends:
  assumes "\<And>k. ra k" and "length bs \<le> n" and "n \<le> length bs + 9"
    and "\<And>p rc. f (p, rc) = (case sessionBufferGrow ra p n rc of
        (p, rc, fail) \<Rightarrow> if \<not> fail then (p\<lparr>aBuf := aBuf p @ bs\<rparr>, rc) else (p, rc))"
  shows "appends f bs"
  unfolding appends_def
proof (intro allI impI, elim conjE)
  fix p assume ok: "buffer_ok p" and room: "nBuf p + length bs + 9 \<le> SESSION_MAX_BUFFER_SZ"
  then obtain p' where g: "sessionBufferGrow ra p n SQLITE_OK = (p', SQLITE_OK, False)"
    using sessionBufferGrow_grants [of ra p n] assms(1,3) by auto
  from sessionBufferGrow_cases [OF g] ok assms(2)
  have "buffer_ok (p'\<lparr>aBuf := aBuf p' @ bs\<rparr>)" "aBuf p' = aBuf p" by (auto simp add: buffer_ok_def)
  then show "\<exists>p'. f (p, SQLITE_OK) = (p', SQLITE_OK) \<and> buffer_ok p' \<and> aBuf p' = aBuf p @ bs"
    using g by (simp add: assms(4))
qed

lemma grow_append_error_safe:
  assumes "\<And>p rc. f (p, rc) = (case sessionBufferGrow ra p n rc of
        (p, rc, fail) \<Rightarrow> if \<not> fail then (p\<lparr>aBuf := aBuf p @ bs\<rparr>, rc) else (p, rc))"
  shows "error_safe f"
  unfolding error_safe_def
proof (intro conjI allI impI)
  fix p p' rc assume "f (p, SQLITE_OK) = (p', rc)"
  then obtain q rc' fail where g: "sessionBufferGrow ra p n SQLITE_OK = (q, rc', fail)"
      and q: "p' = q \<or> p' = q\<lparr>aBuf := aBuf q @ bs\<rparr>"
    by (auto simp add: assms split: prod.splits if_splits)
  from sessionBufferGrow_cases [OF g] q show "\<exists>bs. aBuf p' = aBuf p @ bs" by auto
qed (simp add: assms)

lemma appends_comp: "appends f xs \<Longrightarrow> appends g ys \<Longrightarrow> appends (\<lambda>st. g (f st)) (xs @ ys)"
  unfolding appends_def
proof (intro allI impI, elim conjE)
  fix p assume f: "\<forall>p. buffer_ok p \<and> nBuf p + length xs + 9 \<le> SESSION_MAX_BUFFER_SZ \<longrightarrow>
        (\<exists>p'. f (p, SQLITE_OK) = (p', SQLITE_OK) \<and> buffer_ok p' \<and> aBuf p' = aBuf p @ xs)"
    and g: "\<forall>p. buffer_ok p \<and> nBuf p + length ys + 9 \<le> SESSION_MAX_BUFFER_SZ \<longrightarrow>
        (\<exists>p'. g (p, SQLITE_OK) = (p', SQLITE_OK) \<and> buffer_ok p' \<and> aBuf p' = aBuf p @ ys)"
    and ok: "buffer_ok p" and room: "nBuf p + length (xs @ ys) + 9 \<le> SESSION_MAX_BUFFER_SZ"
  from room have "nBuf p + length xs + 9 \<le> SESSION_MAX_BUFFER_SZ" by simp
  with f ok obtain p1 where 1: "f (p, SQLITE_OK) = (p1, SQLITE_OK)" "buffer_ok p1" "aBuf p1 = aBuf p @ xs"
    by blast
  from 1 room have "nBuf p1 + length ys + 9 \<le> SESSION_MAX_BUFFER_SZ" by simp
  with g 1 obtain p2 where "g (p1, SQLITE_OK) = (p2, SQLITE_OK)" "buffer_ok p2" "aBuf p2 = aBuf p1 @ ys"
    by blast
  with 1 show "\<exists>p'. g (f (p, SQLITE_OK)) = (p', SQLITE_OK) \<and> buffer_ok p' \<and> aBuf p' = aBuf p @ xs @ ys"
    by simp
qed

lemma error_safe_comp: "error_safe f \<Longrightarrow> error_safe g \<Longrightarrow> error_safe (\<lambda>st. g (f st))"
  unfolding error_safe_def
proof (intro conjI allI impI, simp, elim conjE)
  fix p p' rc
  assume f: "\<forall>p p' rc. f (p, SQLITE_OK) = (p', rc) \<longrightarrow> (\<exists>bs. aBuf p' = aBuf p @ bs)"
    and g1: "\<forall>p rc. rc \<noteq> SQLITE_OK \<longrightarrow> g (p, rc) = (p, rc)"
    and g2: "\<forall>p p' rc. g (p, SQLITE_OK) = (p', rc) \<longrightarrow> (\<exists>bs. aBuf p' = aBuf p @ bs)"
    and r: "g (f (p, SQLITE_OK)) = (p', rc)"
  obtain p1 rc1 where 1: "f (p, SQLITE_OK) = (p1, rc1)" by fastforce
  then obtain xs where xs: "aBuf p1 = aBuf p @ xs" using f by blast
  show "\<exists>bs. aBuf p' = aBuf p @ bs"
    by (cases "rc1 = SQLITE_OK") (use 1 g1 g2 r xs in \<open>fastforce+\<close>)
qed

lemma appends_id: "appends (\<lambda>st. st) []"
  by (simp add: appends_def)

lemma error_safe_id: "error_safe (\<lambda>st. st)"
  by (simp add: error_safe_def)

lemma sessionAppendByte_appends: "(\<And>k. ra k) \<Longrightarrow> appends (sessionAppendByte ra v) [v]"
  by (rule grow_append_appends [where ra = ra and n = 1]) (simp_all add: sessionAppendByte_def)

lemma sessionAppendVarint_appends:
  "(\<And>k. ra k) \<Longrightarrow> 0 \<le> n \<Longrightarrow> n < 2 ^ 31 \<Longrightarrow> appends (sessionAppendVarint ra n) (sessionVarintPut n)"
  using length_sessionVarintPut [of n]
  by (intro grow_append_appends [where ra = ra and n = 9]) (simp_all add: sessionAppendVarint_def)

lemma sessionAppendBlob_appends: "(\<And>k. ra k) \<Longrightarrow> appends (sessionAppendBlob ra bs) bs"
proof (cases "bs = []")
  case True
  then show ?thesis using appends_id by (simp add: sessionAppendBlob_def appends_def)
next
  case False
  then show "(\<And>k. ra k) \<Longrightarrow> appends (sessionAppendBlob ra bs) bs"
    by (intro grow_append_appends [where ra = ra and n = "length bs"]) (simp_all add: sessionAppendBlob_def)
qed

lemma sessionAppendBlob_error_safe: "error_safe (sessionAppendBlob ra bs)"
proof (cases "bs = []")
  case True
  then show ?thesis by (simp add: sessionAppendBlob_def error_safe_def)
next
  case False
  then show ?thesis
    by (intro grow_append_error_safe [where ra = ra and n = "length bs"]) (simp add: sessionAppendBlob_def)
qed

lemma sessionAppendByte_error_safe: "error_safe (sessionAppendByte ra v)"
  by (rule grow_append_error_safe) (simp add: sessionAppendByte_def)

lemma sessionAppendVarint_error_safe: "error_safe (sessionAppendVarint ra n)"
  by (rule grow_append_error_safe) (simp add: sessionAppendVarint_def)

lemma sessionAppendStr_error_safe: "error_safe (sessionAppendStr ra z)"
  by (rule grow_append_error_safe) (simp add: sessionAppendStr_def)

lemma sessionAppendIdent_error_safe: "error_safe (sessionAppendIdent ra z)"
  by (rule grow_append_error_safe) (simp add: sessionAppendIdent_def)

lemma appends_cong: "appends g bs \<Longrightarrow> (\<And>p. f (p, SQLITE_OK) = g (p, SQLITE_OK)) \<Longrightarrow> appends f bs"
  by (simp add: appends_def)

lemma error_safe_cong:
  "error_safe g \<Longrightarrow> (\<And>p. f (p, SQLITE_OK) = g (p, SQLITE_OK)) \<Longrightarrow>
   (\<And>p rc. rc \<noteq> SQLITE_OK \<Longrightarrow> f (p, rc) = (p, rc)) \<Longrightarrow> error_safe f"
  by (simp add: error_safe_def)

lemma sessionAppendValue_appends:
  assumes "\<And>k. ra k" and "value_ok v"
  shows "appends (sessionAppendValue ra False v) (serial v)"
proof (rule appends_cong)
  show "appends (\<lambda>(p, rc). case sessionBufferGrow ra p (length (serial v)) rc of
      (p, rc, fail) \<Rightarrow> if \<not> fail then (p\<lparr>aBuf := aBuf p @ serial v\<rparr>, rc) else (p, rc)) (serial v)"
    using assms(1) by (intro grow_append_appends [where ra = ra and n = "length (serial v)"]) simp_all
next
  fix p
  obtain q rc fail where g: "sessionBufferGrow ra p (length (serial v)) SQLITE_OK = (q, rc, fail)"
    by (cases "sessionBufferGrow ra p (length (serial v)) SQLITE_OK")
  then show "sessionAppendValue ra False v (p, SQLITE_OK) =
      (\<lambda>(p, rc). case sessionBufferGrow ra p (length (serial v)) rc of
        (p, rc, fail) \<Rightarrow> if \<not> fail then (p\<lparr>aBuf := aBuf p @ serial v\<rparr>, rc) else (p, rc)) (p, SQLITE_OK)"
    using sessionBufferGrow_cases [OF g]
    by (simp add: sessionAppendValue_def sessionSerializeValue_serial [OF assms(2)])
qed

lemma append_number_appends:
  "(\<And>k. ra k) \<Longrightarrow> appends (\<lambda>st. sessionAppendBlob ra (sessionPutI64 i) (sessionAppendByte ra e st)) (e # sessionPutI64 i)"
  using appends_comp [OF sessionAppendByte_appends [of ra e] sessionAppendBlob_appends [of ra "sessionPutI64 i"]]
  by simp

lemma append_string_appends:
  assumes "\<And>k. ra k" and "length z \<le> 1000000000"
  shows "appends (\<lambda>st. sessionAppendBlob ra z (sessionAppendVarint ra (int (length z)) (sessionAppendByte ra e st)))
    (e # sessionVarintPut (int (length z)) @ z)"
proof -
  have "appends (sessionAppendVarint ra (int (length z))) (sessionVarintPut (int (length z)))"
    using assms by (intro sessionAppendVarint_appends) simp_all
  from appends_comp [OF appends_comp [OF sessionAppendByte_appends [of ra e] this] sessionAppendBlob_appends [of ra z]]
  show ?thesis by (simp add: assms(1))
qed


lemma sessionAppendCol_appends:
  assumes "\<And>k. ra k" and "value_ok (Some v)"
  shows "appends (sessionAppendCol ra False v) (serial (Some v))"
proof (cases v)
  case (VInteger i)
  show ?thesis unfolding VInteger serial_simps
    by (rule appends_cong [OF append_number_appends [of ra i]]) (simp_all add: assms(1) sessionAppendCol_def)
next
  case (VFloat i)
  show ?thesis unfolding VFloat serial_simps
    by (rule appends_cong [OF append_number_appends [of ra i]]) (simp_all add: assms(1) sessionAppendCol_def)
next
  case (VText z)
  show ?thesis unfolding VText serial_simps
    using assms(2) VText
    by (intro appends_cong [OF append_string_appends [of ra z]]) (simp_all add: assms(1) sessionAppendCol_def)
next
  case (VBlob z)
  show ?thesis unfolding VBlob serial_simps
    using assms(2) VBlob
    by (intro appends_cong [OF append_string_appends [of ra z]]) (simp_all add: assms(1) sessionAppendCol_def)
next
  case VNull
  show ?thesis unfolding VNull serial_simps
    by (rule appends_cong [OF sessionAppendByte_appends]) (simp_all add: assms(1) sessionAppendCol_def)
qed

lemma append_oom_error_safe:
  assumes "error_safe f"
  shows "error_safe (\<lambda>(p, rc). if rc = SQLITE_OK then (fst (f (p, rc)), SQLITE_NOMEM) else (p, rc))"
  unfolding error_safe_def
proof (intro conjI allI impI)
  fix p p' rc
  assume "(\<lambda>(p, rc). if rc = SQLITE_OK then (fst (f (p, rc)), SQLITE_NOMEM) else (p, rc)) (p, SQLITE_OK) = (p', rc)"
  then have "f (p, SQLITE_OK) = (p', snd (f (p, SQLITE_OK)))" by auto
  with assms show "\<exists>bs. aBuf p' = aBuf p @ bs" unfolding error_safe_def by blast
qed simp

lemma append_string_error_safe:
  "error_safe (\<lambda>st. sessionAppendBlob ra z (sessionAppendVarint ra n (sessionAppendByte ra e st)))"
  by (rule error_safe_comp [OF error_safe_comp
        [OF sessionAppendByte_error_safe sessionAppendVarint_error_safe] sessionAppendBlob_error_safe])

lemma append_number_error_safe:
  "error_safe (\<lambda>st. sessionAppendBlob ra (sessionPutI64 i) (sessionAppendByte ra e st))"
  by (rule error_safe_comp [OF sessionAppendByte_error_safe sessionAppendBlob_error_safe])

lemma sessionAppendCol_error_safe: "error_safe (sessionAppendCol ra oom v)"
proof (cases v)
  case (VInteger i)
  show ?thesis unfolding VInteger
    by (rule error_safe_cong [OF append_number_error_safe]) (simp_all add: sessionAppendCol_def)
next
  case (VFloat i)
  show ?thesis unfolding VFloat
    by (rule error_safe_cong [OF append_number_error_safe]) (simp_all add: sessionAppendCol_def)
next
  case (VText z)
  show ?thesis
  proof (cases oom)
    case True
    show ?thesis unfolding VText
      by (rule error_safe_cong [OF append_oom_error_safe [OF sessionAppendByte_error_safe]])
        (simp_all add: True sessionAppendCol_def)
  next
    case False
    show ?thesis unfolding VText
      by (rule error_safe_cong [OF append_string_error_safe]) (simp_all add: False sessionAppendCol_def)
  qed
next
  case (VBlob z)
  show ?thesis
  proof (cases "oom \<and> z \<noteq> []")
    case True
    show ?thesis unfolding VBlob
      by (rule error_safe_cong [OF append_oom_error_safe [OF sessionAppendByte_error_safe]])
        (simp_all add: True sessionAppendCol_def)
  next
    case False
    then show ?thesis unfolding VBlob
      by (intro error_safe_cong [OF append_string_error_safe [of ra z "int (length z)"]])
       (auto simp add: sessionAppendCol_def)
  qed
next
  case VNull
  show ?thesis unfolding VNull
    by (rule error_safe_cong [OF sessionAppendByte_error_safe]) (simp_all add: sessionAppendCol_def)
qed

lemma sessionAppendValue_error_safe: "error_safe (sessionAppendValue ra oom v)"
proof -
  have "\<exists>bs. aBuf p' = aBuf p @ bs" if "sessionAppendValue ra oom v (p, SQLITE_OK) = (p', rc)" for p p' rc
  proof (cases "sessionSerializeValue oom v")
    case (Inr x)
    obtain bs n where x: "x = (bs, n)" by (cases x)
    obtain q r f where g: "sessionBufferGrow ra p (nat n) SQLITE_OK = (q, r, f)" by (cases "sessionBufferGrow ra p (nat n) SQLITE_OK")
    show ?thesis using that Inr x g sessionBufferGrow_cases [OF g]
      by (auto simp: sessionAppendValue_def split: if_splits)
  qed (use that in \<open>simp add: sessionAppendValue_def\<close>)
  then show ?thesis by (auto simp: error_safe_def sessionAppendValue_def)
qed

section \<open>Properties\<close>

text \<open>Growing a buffer never loses bytes and never exceeds the limit of the allocator: the bytes in
  use stay, a granted request leaves room for what was asked, and a request is refused only if
  the allocator refuses it or it cannot fit below the limit.\<close>

theorem BufferGrow_bounds:
  assumes "buffer_ok p"
  shows "case sessionBufferGrow ra p n SQLITE_OK of (p', rc, fail) \<Rightarrow>
    aBuf p' = aBuf p \<and> buffer_ok p' \<and> fail = (rc \<noteq> SQLITE_OK) \<and>
    (if rc = SQLITE_OK then nBuf p + n \<le> nAlloc p'
     else rc = SQLITE_NOMEM \<and> p' = p \<and> (nBuf p + n > SESSION_MAX_BUFFER_SZ \<or> (\<exists>k. \<not> ra k)))"
proof -
  obtain p' rc fail where g: "sessionBufferGrow ra p n SQLITE_OK = (p', rc, fail)"
    by (cases "sessionBufferGrow ra p n SQLITE_OK")
  moreover have "nBuf p + n > SESSION_MAX_BUFFER_SZ \<or> (\<exists>k. \<not> ra k)" if "rc \<noteq> SQLITE_OK"
    using sessionBufferGrow_grants [of ra p n] g that by fastforce
  ultimately show ?thesis using sessionBufferGrow_cases [OF g] assms by auto
qed

theorem BufferGrow_bounds_witness:
  "case sessionBufferGrow (\<lambda>_. True) \<lparr>aBuf = [1, 2], nAlloc = 2\<rparr> 3 SQLITE_OK of (p', rc, fail) \<Rightarrow>
    aBuf p' = [1, 2] \<and> rc = SQLITE_OK \<and> 5 \<le> nAlloc p'"
proof -
  have "buffer_ok \<lparr>aBuf = [1, 2], nAlloc = 2\<rparr>" by (simp add: buffer_ok_def)
  from BufferGrow_bounds [OF this, where ra = "\<lambda>_. True" and n = 3] show ?thesis by (auto split: if_splits)
qed

text \<open>All functions that append to a buffer share one protocol: called with an error code set they
  do nothing, and when they fail themselves the bytes written before are still a prefix of the
  buffer, so a sequence of them can be checked once at its end.\<close>

theorem append_error_protocol:
  "error_safe (sessionAppendByte ra b) \<and> error_safe (sessionAppendVarint ra n) \<and>
   error_safe (sessionAppendBlob ra bs) \<and> error_safe (sessionAppendStr ra bs) \<and>
   error_safe (sessionAppendIdent ra bs) \<and> error_safe (sessionAppendValue ra oom v) \<and>
   error_safe (sessionAppendCol ra oom w)"
  by (simp add: sessionAppendByte_error_safe sessionAppendVarint_error_safe sessionAppendBlob_error_safe
      sessionAppendStr_error_safe sessionAppendIdent_error_safe sessionAppendValue_error_safe
      sessionAppendCol_error_safe)

end
