(* ===== verification/SessionTrack.thy ===== *)
theory SessionTrack
  imports SessionRecord
begin

unbundle bit_operations_syntax

text \<open>
  Recording: how a session reacts to a row being inserted, updated or deleted.  The pre-update
  hook finds (or attaches) the table, loads its schema, and adds one change object for each row
  touched, with the row's old values.

  The schema (\<open>PRAGMA table_xinfo\<close>) and the default values of the columns are read through
  SQL, which is a parameter here.  Allocations succeed.
\<close>

section \<open>Sessions\<close>

record session =
  zDb :: bytes
  bEnableSize :: bool
  bEnable :: bool
  bIndirectAll :: bool
  bAutoAttach :: bool
  bImplicitPK :: bool
  sess_rc :: rc
  xTableFilter :: "(bytes \<Rightarrow> bool) option"
  nMaxChangesetSize :: int
  pTable :: "session_table list"

text \<open>The out-parameters of \<open>sessionTableInfo\<close>.\<close>

record table_info =
  ti_nCol :: nat
  ti_nTotalCol :: nat
  ti_aiIdx :: "nat list"
  ti_abPK :: bytes
  ti_bRowid :: bool

text \<open>
  What a session reads from the database: the layout of a table (with the flag whether a
  rowid may serve as primary key) and, for \<open>SELECT <defaults>\<close>, a row or an error.
\<close>

record schema_api =
  tableInfo :: "bytes \<Rightarrow> bool \<Rightarrow> rc + table_info"
  dfltRow :: "session_table \<Rightarrow> rc + sqlite3_value list"

definition to_lower :: "u8 \<Rightarrow> u8" where
  "to_lower c = (if 0x41 \<le> c \<and> c \<le> 0x5A then c + 0x20 else c)"

definition stricmp_eq :: "bytes \<Rightarrow> bytes \<Rightarrow> bool" where
  "stricmp_eq a b \<longleftrightarrow> map to_lower a = map to_lower b"

definition sqlite_stat1 :: bytes where
  "sqlite_stat1 = [0x73, 0x71, 0x6c, 0x69, 0x74, 0x65, 0x5f, 0x73, 0x74, 0x61, 0x74, 0x31]"

section \<open>Table schemas\<close>

text \<open>A null \<open>abPK\<close>, which marks a table without primary key, is the empty list.\<close>

definition sessionInitTable :: "schema_api \<Rightarrow> session \<Rightarrow> session_table \<Rightarrow> bool \<times> session \<times> session_table" where
  "sessionInitTable api pSession pTab =
     (if nCol pTab = 0 then
        case tableInfo api (zName pTab) (bImplicitPK pSession) of
          Inl rc \<Rightarrow> (True, pSession\<lparr>sess_rc := rc\<rparr>, pTab\<lparr>abPK := []\<rparr>)
        | Inr ti \<Rightarrow>
            (let pTab = pTab\<lparr>nCol := ti_nCol ti, nTotalCol := ti_nTotalCol ti, aiIdx := ti_aiIdx ti,
                   abPK := (if list_ex (\<lambda>b. b \<noteq> 0) (take (ti_nCol ti) (ti_abPK ti)) then ti_abPK ti else []),
                   bRowid := (if bImplicitPK pSession then ti_bRowid ti else bRowid pTab),
                   bStat1 := (bStat1 pTab \<or> stricmp_eq sqlite_stat1 (zName pTab))\<rparr>;
                 pSession = (if bEnableSize pSession
                   then pSession\<lparr>nMaxChangesetSize := nMaxChangesetSize pSession +
                          (1 + int (sessionVarintLen (int (nCol pTab))) + int (nCol pTab) +
                           int (length (zName pTab)) + 1)\<rparr>
                   else pSession)
             in (abPK pTab = [], pSession\<lparr>sess_rc := SQLITE_OK\<rparr>, pTab))
      else (abPK pTab = [], pSession\<lparr>sess_rc := SQLITE_OK\<rparr>, pTab))"

text \<open>Whether a changed schema only adds columns that are no part of the primary key.\<close>

definition pk_flags_kept :: "session_table \<Rightarrow> table_info \<Rightarrow> bool" where
  "pk_flags_kept pTab ti \<longleftrightarrow>
     list_all (\<lambda>ii. if ii < nCol pTab then abPK pTab ! ii = ti_abPK ti ! ii else ti_abPK ti ! ii = 0)
       [0..<ti_nCol ti]"

definition sessionReinitTable :: "schema_api \<Rightarrow> session \<Rightarrow> session_table \<Rightarrow> rc \<times> session \<times> session_table" where
  "sessionReinitTable api pSession pTab =
     (case tableInfo api (zName pTab) (bImplicitPK pSession) of
        Inl rc \<Rightarrow> (rc, pSession\<lparr>sess_rc := rc\<rparr>, pTab)
      | Inr ti \<Rightarrow>
          (let rowid = (bImplicitPK pSession \<and> ti_bRowid ti)
           in if nCol pTab > ti_nCol ti \<or> bRowid pTab \<noteq> rowid
              then (SQLITE_SCHEMA, pSession\<lparr>sess_rc := SQLITE_SCHEMA\<rparr>, pTab)
              else
                let nOldCol = nCol pTab;
                    keep = pk_flags_kept pTab ti;
                    rc = (if keep then SQLITE_OK else SQLITE_SCHEMA);
                    pTab' = (if keep
                      then pTab\<lparr>nCol := ti_nCol ti, nTotalCol := ti_nTotalCol ti,
                             abPK := ti_abPK ti, aiIdx := ti_aiIdx ti\<rparr>
                      else pTab);
                    pSession' = (if bEnableSize pSession
                      then pSession\<lparr>nMaxChangesetSize := nMaxChangesetSize pSession +
                             (int (ti_nCol ti) - int nOldCol) + int (sessionVarintLen (int (ti_nCol ti)))
                             - int (sessionVarintLen (int nOldCol))\<rparr>
                      else pSession)
                in (rc, pSession'\<lparr>sess_rc := rc\<rparr>, pTab')))"

section \<open>Records of a table that has gained columns\<close>

fun dflt_field :: "sqlite3_value \<Rightarrow> bytes \<times> int" where
  "dflt_field VNull = ([SQLITE_NULL], 1)"
| "dflt_field (VInteger i) = (SQLITE_INTEGER # sessionPutI64 i, 9)"
| "dflt_field (VFloat r) = (SQLITE_FLOAT # sessionPutI64 r, 9)"
| "dflt_field v =
     (let n = int (length (value_bytes v))
      in (sqlite3_value_type v # sessionVarintPut n @ value_bytes v, 1 + int (sessionVarintLen n) + n))"

text \<open>The result carries the growth of \<open>nMaxChangesetSize\<close>.\<close>

fun sessionUpdateOneChange :: "sqlite3_value list \<Rightarrow> session_change \<Rightarrow> session_change \<times> int" where
  "sessionUpdateOneChange [] pOld = (pOld, 0)"
| "sessionUpdateOneChange (v # dflts) pOld =
     (let (bs, nIncr) = dflt_field v;
          (pNew, n) = sessionUpdateOneChange dflts
            (pOld\<lparr>aRecord := aRecord pOld @ bs, nRecordField := nRecordField pOld + 1,
                  nMaxSize := nMaxSize pOld + nIncr\<rparr>)
      in (pNew, nIncr + n))"

definition sessionUpdateChange :: "session_table \<Rightarrow> sqlite3_value list \<Rightarrow> session_change \<Rightarrow> session_change \<times> int" where
  "sessionUpdateChange pTab dflt p =
     (if nRecordField p \<noteq> nCol pTab
      then sessionUpdateOneChange (drop (nRecordField p) (take (nCol pTab) dflt)) p
      else (p, 0))"

definition sessionUpdateChanges :: "schema_api \<Rightarrow> session \<Rightarrow> session_table \<Rightarrow> rc \<times> session \<times> session_table" where
  "sessionUpdateChanges api pSession pTab =
     (case dfltRow api pTab of
        Inl rc \<Rightarrow> (rc, pSession\<lparr>sess_rc := rc\<rparr>, pTab)
      | Inr dflt \<Rightarrow>
          (let upd = map (map (sessionUpdateChange pTab dflt)) (apChange pTab)
           in (SQLITE_OK,
               pSession\<lparr>sess_rc := SQLITE_OK,
                 nMaxChangesetSize := nMaxChangesetSize pSession + sum_list (map snd (concat upd))\<rparr>,
               pTab\<lparr>apChange := map (map fst) upd\<rparr>)))"

section \<open>The size of the eventual changeset\<close>

text \<open>
  Whether the value of a column differs from the recorded one, with the number of bytes of the
  recorded value after its type byte.
\<close>

definition sessionUpdateMaxSize_col :: "bytes \<Rightarrow> sqlite3_value \<Rightarrow> (bool \<times> int \<times> bytes) option" where
  "sessionUpdateMaxSize_col pCsr p = do {
     eType \<leftarrow> rd pCsr 0;
     let pCsr = drop 1 pCsr;
     if eType = SQLITE_NULL then Some (sqlite3_value_type p \<noteq> SQLITE_NULL, 0, pCsr)
     else if eType = SQLITE_FLOAT \<or> eType = SQLITE_INTEGER then do {
       iVal \<leftarrow> sessionGetI64 pCsr;
       pCsr' \<leftarrow> advance pCsr 8;
       let bChanged = (case p of
             VInteger i \<Rightarrow> eType \<noteq> SQLITE_INTEGER \<or> iVal \<noteq> i
           | VFloat r \<Rightarrow> eType \<noteq> SQLITE_FLOAT \<or> \<not> double_eq iVal r
           | _ \<Rightarrow> True);
       Some (bChanged, 8, pCsr')
     } else do {
       (nOld, nByte) \<leftarrow> sessionVarintGet pCsr;
       pCsr \<leftarrow> advance pCsr (int nOld);
       x \<leftarrow> memread pCsr nByte;
       pCsr \<leftarrow> advance pCsr nByte;
       Some (\<not> (eType = sqlite3_value_type p \<and> x = value_bytes p), int nOld + nByte, pCsr)
     }
   }"

text \<open>The loop over the columns of an update; \<open>get\<close> is \<open>xNew\<close>.\<close>

fun sessionUpdateMaxSize_cols :: "bool \<Rightarrow> (nat \<Rightarrow> rc + sqlite3_value) \<Rightarrow> int \<Rightarrow> (u8 \<times> nat) list \<Rightarrow> bytes \<Rightarrow> int \<Rightarrow>
    (rc + int) option" where
  "sessionUpdateMaxSize_cols oom get nRecord [] pCsr nNew = Some (Inr nNew)"
| "sessionUpdateMaxSize_cols oom get nRecord ((isPK, iIdx) # cols) pCsr nNew =
     (case get iIdx of
        Inl _ \<Rightarrow> Some (Inl SQLITE_NOMEM)
      | Inr p \<Rightarrow> do {
          (bChanged, nOld, pCsr) \<leftarrow> sessionUpdateMaxSize_col pCsr p;
          if bChanged \<and> isPK \<noteq> 0 then Some (Inr (nRecord + 2))
          else
            let nNew =
              (if bChanged then nNew + 1 + nOld +
                 (case sessionSerializeValue oom (Some p) of Inl _ \<Rightarrow> 0 | Inr (_, n) \<Rightarrow> n)
               else if isPK \<noteq> 0 then nNew + 2 + nOld
               else nNew + 2)
            in sessionUpdateMaxSize_cols oom get nRecord cols pCsr nNew
        })"

definition sessionUpdateMaxSize_new :: "bool \<Rightarrow> bool \<Rightarrow> preupdate_hook \<Rightarrow> session_table \<Rightarrow> session_change \<Rightarrow> u8 \<Rightarrow>
    (rc + int) option" where
  "sessionUpdateMaxSize_new oom blobwrite hook pTab pC opc =
     (if op pC = SQLITE_INSERT then
        Some (Inr (2 + (if bRowid pTab then 9 else 0) +
          (if opc \<noteq> SQLITE_DELETE
           then sum_list (map (\<lambda>(_, iIdx).
                  case sessionSerializeValue oom (case xNew hook iIdx of Inl _ \<Rightarrow> None | Inr v \<Rightarrow> Some v) of
                    Inl _ \<Rightarrow> 0 | Inr (_, n) \<Rightarrow> n) (table_cols pTab))
           else 0)))
      else if opc = SQLITE_DELETE then
        Some (Inr (2 + int (length (aRecord pC)) + (if blobwrite then int (length (aRecord pC)) else 0)))
      else if bRowid pTab then
        do { pCsr \<leftarrow> advance (aRecord pC) 9;
             sessionUpdateMaxSize_cols oom (xNew hook) (int (length (aRecord pC))) (drop 1 (table_cols pTab)) pCsr 12 }
      else sessionUpdateMaxSize_cols oom (xNew hook) (int (length (aRecord pC))) (table_cols pTab) (aRecord pC) 2)"

text \<open>The result: the code, the growth of \<open>nMaxChangesetSize\<close> and the change.\<close>

definition sessionUpdateMaxSize :: "bool \<Rightarrow> bool \<Rightarrow> preupdate_hook \<Rightarrow> session_table \<Rightarrow> session_change \<Rightarrow> u8 \<Rightarrow>
    (rc \<times> int \<times> session_change) option" where
  "sessionUpdateMaxSize oom blobwrite hook pTab pC opc = do {
     r \<leftarrow> sessionUpdateMaxSize_new oom blobwrite hook pTab pC opc;
     Some (case r of
        Inl rc \<Rightarrow> (rc, 0, pC)
      | Inr nNew \<Rightarrow>
          if nNew > nMaxSize pC then (SQLITE_OK, nNew - nMaxSize pC, pC\<lparr>nMaxSize := nNew\<rparr>)
          else (SQLITE_OK, 0, pC))
   }"

section \<open>Recording one change\<close>

text \<open>The hook as seen through the functions for sqlite_stat1: a null in column 1 becomes an
  empty blob.\<close>

definition stat1_value :: "(nat \<Rightarrow> rc + sqlite3_value) \<Rightarrow> nat \<Rightarrow> rc + sqlite3_value" where
  "stat1_value get iCol =
     (case get iCol of
        Inl rc \<Rightarrow> Inl rc
      | Inr v \<Rightarrow> if iCol = 1 \<and> v = VNull then Inr (VBlob []) else Inr v)"

definition session_hook :: "session_table \<Rightarrow> preupdate_hook \<Rightarrow> preupdate_hook" where
  "session_hook pTab hook =
     (if bStat1 pTab then hook\<lparr>xOld := stat1_value (xOld hook), xNew := stat1_value (xNew hook)\<rparr> else hook)"

text \<open>
  The value of one column of a new change: the old one, or for an insert the new one if it is
  in the primary key and none otherwise.  The first pass of the code computes the size of the
  record and may fail; the second fills it in.
\<close>

definition new_field :: "bool \<Rightarrow> preupdate_hook \<Rightarrow> u8 \<Rightarrow> u8 \<times> nat \<Rightarrow> rc + bytes" where
  "new_field oom hook opc c =
     (let v = (if opc \<noteq> SQLITE_INSERT then map_sum id Some (xOld hook (snd c))
               else if fst c \<noteq> 0 then (case xNew hook (snd c) of Inl _ \<Rightarrow> Inr None | Inr w \<Rightarrow> Inr (Some w))
               else Inr None)
      in case v of
           Inl rc \<Rightarrow> Inl rc
         | Inr p \<Rightarrow> (case sessionSerializeValue oom p of Inl rc \<Rightarrow> Inl rc | Inr (bs, _) \<Rightarrow> Inr bs))"

fun new_record :: "bool \<Rightarrow> preupdate_hook \<Rightarrow> u8 \<Rightarrow> (u8 \<times> nat) list \<Rightarrow> rc + bytes" where
  "new_record oom hook opc [] = Inr []"
| "new_record oom hook opc (c # cols) =
     (case new_field oom hook opc c of
        Inl rc \<Rightarrow> Inl rc
      | Inr bs \<Rightarrow> (case new_record oom hook opc cols of Inl rc \<Rightarrow> Inl rc | Inr rest \<Rightarrow> Inr (bs @ rest)))"

text \<open>The search of a bucket: the position of the first change about the same row.\<close>

fun find_change :: "(session_change \<Rightarrow> bool option) \<Rightarrow> session_change list \<Rightarrow> nat option option" where
  "find_change eq [] = Some None"
| "find_change eq (pC # pCs) = do {
     b \<leftarrow> eq pC;
     if b then Some (Some 0) else map_option (map_option Suc) (find_change eq pCs)
   }"

text \<open>
  The record of a new change.  With a rowid as primary key the first field is the rowid and
  the loop starts at the second column.
\<close>

definition new_change :: "bool \<Rightarrow> preupdate_hook \<Rightarrow> session \<Rightarrow> session_table \<Rightarrow> u64 \<Rightarrow> u8 \<Rightarrow> rc + session_change" where
  "new_change oom hook pSession pTab iRowid opc =
     (case new_record oom hook opc (if bRowid pTab then drop 1 (table_cols pTab) else table_cols pTab) of
        Inl rc \<Rightarrow> Inl rc
      | Inr bs \<Rightarrow> Inr
          \<lparr>op = opc, bIndirect = (bIndirectAll pSession \<or> xDepth hook \<noteq> 0), nRecordField = nCol pTab,
           nMaxSize = 0,
           aRecord = (if bRowid pTab then SQLITE_INTEGER # sessionPutI64 iRowid else []) @ bs\<rparr>)"

text \<open>
  The part of \<open>sessionPreupdateOneChange\<close> after the schema checks: find the change of the row
  in its bucket or add it, and keep the estimate of the changeset's size.  The result is the
  error code, the growth of \<open>nMaxChangesetSize\<close> and the table.
\<close>

definition sessionPreupdateRecord :: "bool \<Rightarrow> bool \<Rightarrow> preupdate_hook \<Rightarrow> session \<Rightarrow> session_table \<Rightarrow> u64 \<Rightarrow> u8 \<Rightarrow>
    (rc \<times> int \<times> session_table) option" where
  "sessionPreupdateRecord oom blobwrite hook pSession pTab iRowid opc =
     (case sessionPreupdateHash oom hook iRowid pTab (opc = SQLITE_INSERT) of
        Inl rc \<Rightarrow> Some (rc, 0, pTab)
      | Inr (iHash, bNull) \<Rightarrow>
          if bNull then Some (SQLITE_OK, 0, pTab)
          else do {
            let bucket = apChange pTab ! iHash;
            found \<leftarrow> find_change (\<lambda>pC. sessionPreupdateEqual hook iRowid pTab pC opc) bucket;
            (rc, i, bucket, pTab) \<leftarrow>
              (case found of
                 None \<Rightarrow>
                   (case new_change oom hook pSession pTab iRowid opc of
                      Inl rc \<Rightarrow> Some (rc, 0, bucket, pTab\<lparr>nEntry := nEntry pTab + 1\<rparr>)
                    | Inr pC \<Rightarrow> Some (SQLITE_OK, 0, pC # bucket, pTab\<lparr>nEntry := nEntry pTab + 1\<rparr>))
               | Some i \<Rightarrow>
                   (let pC = bucket ! i
                    in Some (SQLITE_OK, i,
                         if bIndirect pC \<and> xDepth hook = 0 \<and> \<not> bIndirectAll pSession
                         then bucket[i := pC\<lparr>bIndirect := False\<rparr>] else bucket, pTab)));
            if rc \<noteq> SQLITE_OK then Some (rc, 0, pTab)
            else if bEnableSize pSession then do {
              (rc, nIncr, pC) \<leftarrow> sessionUpdateMaxSize oom blobwrite hook pTab (bucket ! i) opc;
              Some (rc, nIncr, pTab\<lparr>apChange := (apChange pTab)[iHash := bucket[i := pC]]\<rparr>)
            }
            else Some (SQLITE_OK, 0, pTab\<lparr>apChange := (apChange pTab)[iHash := bucket]\<rparr>)
          })"

definition sessionPreupdateOneChange :: "schema_api \<Rightarrow> bool \<Rightarrow> bool \<Rightarrow> preupdate_hook \<Rightarrow> u8 \<Rightarrow> u64 \<Rightarrow>
    session \<Rightarrow> session_table \<Rightarrow> (session \<times> session_table) option" where
  "sessionPreupdateOneChange api oom blobwrite hook opc iRowid pSession pTab =
     (if sess_rc pSession \<noteq> SQLITE_OK then Some (pSession, pTab)
      else case sessionInitTable api pSession pTab of (stop, pSession, pTab) \<Rightarrow>
        if stop then Some (pSession, pTab)
        else
          let (stop, pSession, pTab) =
            (if nTotalCol pTab < xCount hook then
               case sessionReinitTable api pSession pTab of (rc, pSession, pTab) \<Rightarrow>
                 if rc \<noteq> SQLITE_OK then (True, pSession, pTab)
                 else case sessionUpdateChanges api pSession pTab of (rc, pSession, pTab) \<Rightarrow>
                        (rc \<noteq> SQLITE_OK, pSession, pTab)
             else (False, pSession, pTab))
          in if stop then Some (pSession, pTab)
             else if nTotalCol pTab \<noteq> xCount hook then Some (pSession\<lparr>sess_rc := SQLITE_SCHEMA\<rparr>, pTab)
             else do {
               (_, pTab) \<leftarrow> sessionGrowHash True False pTab;
               (rc, nIncr, pTab) \<leftarrow>
                 sessionPreupdateRecord oom blobwrite (session_hook pTab hook) pSession pTab iRowid opc;
               let pSession = pSession\<lparr>nMaxChangesetSize := nMaxChangesetSize pSession + nIncr\<rparr>;
               Some (if rc \<noteq> SQLITE_OK then pSession\<lparr>sess_rc := rc\<rparr> else pSession, pTab)
             })"

section \<open>The pre-update hook\<close>

text \<open>
  The table is looked up by name, and attached if the session records all tables and its
  filter admits it.  \<open>sqlite3session_attach\<close> with a name appends an empty table object at the
  end of the list, unless there is one of that name.
\<close>

definition new_table :: "bytes \<Rightarrow> session_table" where
  "new_table z = \<lparr>zName = z, nCol = 0, nTotalCol = 0, bStat1 = False, bRowid = False, aiIdx = [], abPK = [],
     nEntry = 0, nChange = 0, apChange = []\<rparr>"

fun find_table :: "bytes \<Rightarrow> session_table list \<Rightarrow> nat option" where
  "find_table z [] = None"
| "find_table z (t # ts) = (if stricmp_eq (zName t) z then Some 0 else map_option Suc (find_table z ts))"

definition sqlite3session_attach :: "session \<Rightarrow> bytes option \<Rightarrow> rc \<times> session" where
  "sqlite3session_attach pSession zTab =
     (case zTab of
        None \<Rightarrow> (SQLITE_OK, pSession\<lparr>bAutoAttach := True\<rparr>)
      | Some z \<Rightarrow>
          if find_table z (pTable pSession) = None
          then (SQLITE_OK, pSession\<lparr>pTable := pTable pSession @ [new_table z]\<rparr>)
          else (SQLITE_OK, pSession))"

definition sessionFindTable :: "session \<Rightarrow> bytes \<Rightarrow> session \<times> nat option" where
  "sessionFindTable pSession z =
     (case find_table z (pTable pSession) of
        Some i \<Rightarrow> (pSession, Some i)
      | None \<Rightarrow>
          if bAutoAttach pSession \<and>
             (case xTableFilter pSession of None \<Rightarrow> True | Some f \<Rightarrow> f z)
          then (case sqlite3session_attach pSession (Some z) of
                  (_, pSession) \<Rightarrow> (pSession, Some (length (pTable pSession) - 1)))
          else (pSession, None))"

text \<open>One session of the list that \<open>xPreUpdate\<close> walks; \<open>iKey1\<close> and \<open>iKey2\<close> are the rowids
  before and after.\<close>

definition xPreUpdate_session :: "schema_api \<Rightarrow> bool \<Rightarrow> bool \<Rightarrow> preupdate_hook \<Rightarrow> u8 \<Rightarrow> bytes \<Rightarrow> bytes \<Rightarrow> u64 \<Rightarrow> u64 \<Rightarrow>
    session \<Rightarrow> session option" where
  "xPreUpdate_session api oom blobwrite hook opc db z iKey1 iKey2 pSession =
     (if \<not> bEnable pSession \<or> sess_rc pSession \<noteq> SQLITE_OK \<or> \<not> stricmp_eq db (zDb pSession)
      then Some pSession
      else case sessionFindTable pSession z of
             (pSession, None) \<Rightarrow> Some (pSession\<lparr>sess_rc := SQLITE_OK\<rparr>)
           | (pSession, Some k) \<Rightarrow> do {
               let pSession = pSession\<lparr>sess_rc := SQLITE_OK\<rparr>;
               (pSession, pTab) \<leftarrow>
                 sessionPreupdateOneChange api oom blobwrite hook opc iKey1 pSession (pTable pSession ! k);
               (pSession, pTab) \<leftarrow>
                 (if opc = SQLITE_UPDATE
                  then sessionPreupdateOneChange api oom blobwrite hook SQLITE_INSERT iKey2 pSession pTab
                  else Some (pSession, pTab));
               Some (pSession\<lparr>pTable := (pTable pSession)[k := pTab]\<rparr>)
             })"

fun xPreUpdate :: "schema_api \<Rightarrow> bool \<Rightarrow> bool \<Rightarrow> preupdate_hook \<Rightarrow> u8 \<Rightarrow> bytes \<Rightarrow> bytes \<Rightarrow> u64 \<Rightarrow> u64 \<Rightarrow>
    session list \<Rightarrow> session list option" where
  "xPreUpdate api oom blobwrite hook opc db z iKey1 iKey2 [] = Some []"
| "xPreUpdate api oom blobwrite hook opc db z iKey1 iKey2 (s # ss) = do {
     s \<leftarrow> xPreUpdate_session api oom blobwrite hook opc db z iKey1 iKey2 s;
     ss \<leftarrow> xPreUpdate api oom blobwrite hook opc db z iKey1 iKey2 ss;
     Some (s # ss)
   }"

end
