(* ===== verification/ChangesetWrite.thy ===== *)
theory ChangesetWrite
  imports SessionBuffer SessionTrack
begin

unbundle bit_operations_syntax

text \<open>
  Writing a changeset: for each recorded change the current row is looked up by primary key
  and compared with the recorded one, and an insert, update or delete is appended under the
  header of its table.
\<close>

section \<open>Updates and deletes\<close>

text \<open>The current row of the statement is the list of its column values.\<close>

definition sessionAppendUpdate_changed :: "bytes \<Rightarrow> sqlite3_value \<Rightarrow> (bool \<times> int) option" where
  "sessionAppendUpdate_changed pCsr col = do {
     eType \<leftarrow> rd pCsr 0;
     if eType = SQLITE_NULL then Some (sqlite3_value_type col \<noteq> SQLITE_NULL, 1)
     else if eType = SQLITE_FLOAT \<or> eType = SQLITE_INTEGER then
       if eType = sqlite3_value_type col then do {
         iVal \<leftarrow> sessionGetI64 (drop 1 pCsr);
         Some (case col of
             VInteger i \<Rightarrow> iVal \<noteq> i
           | VFloat r \<Rightarrow> \<not> double_eq iVal r
           | _ \<Rightarrow> True, 9)
       } else Some (True, 9)
     else do {
       (k, n) \<leftarrow> sessionVarintGet (drop 1 pCsr);
       let nHdr = 1 + int k;
       let nAdvance = nHdr + n;
       if eType = sqlite3_value_type col \<and> n = int (length (value_bytes col)) then
         if n = 0 then Some (False, nAdvance)
         else do {
           a \<leftarrow> advance pCsr nHdr;
           x \<leftarrow> memread a n;
           Some (x \<noteq> value_bytes col, nAdvance)
         }
       else Some (True, nAdvance)
     }
   }"

text \<open>
  The loop over the columns: the output buffer, the buffer of the new.* record, the common
  error code and \<open>bNoop\<close>.
\<close>

fun sessionAppendUpdate_cols :: "(nat \<Rightarrow> bool) \<Rightarrow> bool \<Rightarrow> bool \<Rightarrow> (sqlite3_value \<times> u8) list \<Rightarrow> bytes \<Rightarrow>
    session_buffer \<Rightarrow> session_buffer \<Rightarrow> rc \<Rightarrow> bool \<Rightarrow> (session_buffer \<times> session_buffer \<times> rc \<times> bool) option" where
  "sessionAppendUpdate_cols ra oom bPatchset [] pCsr pBuf buf2 rc bNoop = Some (pBuf, buf2, rc, bNoop)"
| "sessionAppendUpdate_cols ra oom bPatchset ((col, isPK) # cols) pCsr pBuf buf2 rc bNoop = do {
     (bChanged, nAdvance) \<leftarrow> sessionAppendUpdate_changed pCsr col;
     let bNoop = (bNoop \<and> \<not> bChanged);
     fld \<leftarrow> memread pCsr nAdvance;
     let (pBuf, rc) =
       (if bPatchset then (pBuf, rc)
        else if bChanged \<or> isPK \<noteq> 0 then sessionAppendBlob ra fld (pBuf, rc)
        else sessionAppendByte ra 0 (pBuf, rc));
     let (buf2, rc) =
       (if bChanged \<or> (bPatchset \<and> isPK \<noteq> 0) then sessionAppendCol ra oom col (buf2, rc)
        else sessionAppendByte ra 0 (buf2, rc));
     pCsr \<leftarrow> advance pCsr nAdvance;
     sessionAppendUpdate_cols ra oom bPatchset cols pCsr pBuf buf2 rc bNoop
   }"

definition sessionAppendUpdate :: "(nat \<Rightarrow> bool) \<Rightarrow> bool \<Rightarrow> session_buffer \<Rightarrow> bool \<Rightarrow> sqlite3_value list \<Rightarrow>
    session_change \<Rightarrow> bytes \<Rightarrow> (session_buffer \<times> rc) option" where
  "sessionAppendUpdate ra oom pBuf bPatchset row p pks = do {
     let nRewind = nBuf pBuf;
     let (pBuf, rc) = sessionAppendByte ra SQLITE_UPDATE (pBuf, SQLITE_OK);
     let (pBuf, rc) = sessionAppendByte ra (of_bool (bIndirect p)) (pBuf, rc);
     (pBuf, buf2, rc, bNoop) \<leftarrow>
       sessionAppendUpdate_cols ra oom bPatchset (zip row pks) (aRecord p) pBuf
         \<lparr>aBuf = [], nAlloc = 0\<rparr> rc True;
     if bNoop then Some (pBuf\<lparr>aBuf := take nRewind (aBuf pBuf)\<rparr>, rc)
     else Some (sessionAppendBlob ra (aBuf buf2) (pBuf, rc))
   }"

text \<open>The primary key fields of a record, for a delete in a patchset.\<close>

fun sessionAppendDelete_pk :: "(nat \<Rightarrow> bool) \<Rightarrow> bytes \<Rightarrow> bytes \<Rightarrow> session_buffer \<times> rc \<Rightarrow> (session_buffer \<times> rc) option" where
  "sessionAppendDelete_pk ra [] a st = Some st"
| "sessionAppendDelete_pk ra (isPK # pks) a st = do {
     eType \<leftarrow> rd a 0;
     n \<leftarrow> (if eType = 0 \<or> eType = SQLITE_NULL then Some 1
           else if eType = SQLITE_FLOAT \<or> eType = SQLITE_INTEGER then Some 9
           else do { (k, n) \<leftarrow> sessionVarintGet (drop 1 a); Some (1 + int k + n) });
     fld \<leftarrow> memread a n;
     a \<leftarrow> advance a n;
     sessionAppendDelete_pk ra pks a (if isPK \<noteq> 0 then sessionAppendBlob ra fld st else st)
   }"

definition sessionAppendDelete :: "(nat \<Rightarrow> bool) \<Rightarrow> session_buffer \<Rightarrow> bool \<Rightarrow> session_change \<Rightarrow> nat \<Rightarrow> bytes \<Rightarrow>
    (session_buffer \<times> rc) option" where
  "sessionAppendDelete ra pBuf bPatchset p n pks =
     (let st = sessionAppendByte ra (of_bool (bIndirect p)) (sessionAppendByte ra SQLITE_DELETE (pBuf, SQLITE_OK))
      in if \<not> bPatchset then Some (sessionAppendBlob ra (aRecord p) st)
         else sessionAppendDelete_pk ra (take n pks) (aRecord p) st)"

section \<open>Looking up the current row\<close>

text \<open>The parameters bound for the primary key columns, by their index from 1.\<close>

fun sessionSelectBind :: "nat \<Rightarrow> bytes \<Rightarrow> bytes \<Rightarrow> (nat \<times> sqlite3_value) list option" where
  "sessionSelectBind i [] a = Some []"
| "sessionSelectBind i (isPK # pks) a = do {
     eType \<leftarrow> rd a 0;
     let a = drop 1 a;
     if eType = 0 \<or> eType = SQLITE_NULL then sessionSelectBind (i + 1) pks a
     else if eType = SQLITE_INTEGER \<or> eType = SQLITE_FLOAT then do {
       v \<leftarrow> (if isPK \<noteq> 0 then do { x \<leftarrow> sessionGetI64 a;
              Some [(i + 1, if eType = SQLITE_INTEGER then VInteger x else sqlite3VdbeMemSetDouble x)] } else Some []);
       a \<leftarrow> advance a 8;
       rest \<leftarrow> sessionSelectBind (i + 1) pks a;
       Some (v @ rest)
     } else do {
       (k, n) \<leftarrow> sessionVarintGet a;
       a \<leftarrow> advance a (int k);
       v \<leftarrow> (if isPK \<noteq> 0 then do { x \<leftarrow> memread a n;
              Some [(i + 1, if eType = SQLITE_TEXT then VText x else VBlob x)] } else Some []);
       a \<leftarrow> advance a n;
       rest \<leftarrow> sessionSelectBind (i + 1) pks a;
       Some (v @ rest)
     }
   }"

section \<open>Changesets\<close>

definition sessionAppendTableHdr :: "(nat \<Rightarrow> bool) \<Rightarrow> bool \<Rightarrow> session_table \<Rightarrow> append" where
  "sessionAppendTableHdr ra bPatchset pTab st =
     sessionAppendBlob ra (zName pTab @ [0])
       (sessionAppendBlob ra (take (nCol pTab) (abPK pTab))
         (sessionAppendVarint ra (int (nCol pTab))
           (sessionAppendByte ra (if bPatchset then 0x50 else 0x54) st)))"

text \<open>
  The database as the generator sees it: the code of \<open>SAVEPOINT\<close>, the schema, the code of
  preparing the SELECT of a table, and the answer of that SELECT to the bound primary key.
\<close>

datatype step_result = StepRow "sqlite3_value list" | StepDone | StepError rc

record session_db =
  savepointRc :: rc
  schema :: schema_api
  selectRc :: "session_table \<Rightarrow> rc"
  selectRow :: "session_table \<Rightarrow> (nat \<times> sqlite3_value) list \<Rightarrow> step_result"

definition append_row :: "(nat \<Rightarrow> bool) \<Rightarrow> bool \<Rightarrow> sqlite3_value list \<Rightarrow> append" where
  "append_row ra oom row st = fold (sessionAppendCol ra oom) row st"

text \<open>One change: the body of the loop over the chain of a bucket.\<close>

definition generate_change :: "(nat \<Rightarrow> bool) \<Rightarrow> bool \<Rightarrow> session_db \<Rightarrow> bool \<Rightarrow> session_table \<Rightarrow> session_change \<Rightarrow>
    session_buffer \<Rightarrow> (session_buffer \<times> rc) option" where
  "generate_change ra oom db bPatchset pTab p buf = do {
     binds \<leftarrow> sessionSelectBind 0 (take (nCol pTab) (abPK pTab)) (aRecord p);
     let row = selectRow db pTab binds;
     (buf, rc) \<leftarrow>
       (case row of
          StepRow cols \<Rightarrow>
            if op p = SQLITE_INSERT
            then Some (append_row ra oom (take (nCol pTab) cols)
                   (sessionAppendByte ra (of_bool (bIndirect p))
                     (sessionAppendByte ra SQLITE_INSERT (buf, SQLITE_OK))))
            else sessionAppendUpdate ra oom buf bPatchset cols p (abPK pTab)
        | _ \<Rightarrow>
            if op p \<noteq> SQLITE_INSERT
            then sessionAppendDelete ra buf bPatchset p (nCol pTab) (abPK pTab)
            else Some (buf, SQLITE_OK));
     Some (buf, if rc = SQLITE_OK then (case row of StepError e \<Rightarrow> e | _ \<Rightarrow> SQLITE_OK) else rc)
   }"

fun generate_changes :: "(nat \<Rightarrow> bool) \<Rightarrow> bool \<Rightarrow> session_db \<Rightarrow> bool \<Rightarrow> session_table \<Rightarrow> session_change list \<Rightarrow>
    session_buffer \<times> rc \<Rightarrow> (session_buffer \<times> rc) option" where
  "generate_changes ra oom db bPatchset pTab [] st = Some st"
| "generate_changes ra oom db bPatchset pTab (p # ps) (buf, rc) =
     (if rc \<noteq> SQLITE_OK then Some (buf, rc)
      else generate_change ra oom db bPatchset pTab p buf \<bind> generate_changes ra oom db bPatchset pTab ps)"

text \<open>One table that has changes.\<close>

definition generate_table :: "(nat \<Rightarrow> bool) \<Rightarrow> bool \<Rightarrow> session_db \<Rightarrow> bool \<Rightarrow> session \<Rightarrow> session_table \<Rightarrow>
    session_buffer \<Rightarrow> (session_buffer \<times> rc \<times> session \<times> session_table) option" where
  "generate_table ra oom db bPatchset pSession pTab buf = do {
     let nRewind = nBuf buf;
     let nOldCol = nCol pTab;
     let (rc, pSession, pTab) = sessionReinitTable (schema db) pSession pTab;
     let (rc, pSession, pTab) =
       (if rc = SQLITE_OK \<and> nCol pTab \<noteq> nOldCol then sessionUpdateChanges (schema db) pSession pTab
        else (rc, pSession, pTab));
     let (buf, rc) = sessionAppendTableHdr ra bPatchset pTab (buf, rc);
     let rc = (if rc = SQLITE_OK then selectRc db pTab else rc);
     let nNoop = nBuf buf;
     (buf, rc) \<leftarrow> generate_changes ra oom db bPatchset pTab (concat (take (nChange pTab) (apChange pTab))) (buf, rc);
     let buf = (if nBuf buf = nNoop then buf\<lparr>aBuf := take nRewind (aBuf buf)\<rparr> else buf);
     Some (buf, rc, pSession, pTab)
   }"

fun generate_tables :: "(nat \<Rightarrow> bool) \<Rightarrow> bool \<Rightarrow> session_db \<Rightarrow> bool \<Rightarrow> session \<Rightarrow> session_table list \<Rightarrow>
    session_buffer \<times> rc \<Rightarrow> (session_buffer \<times> rc \<times> session \<times> session_table list) option" where
  "generate_tables ra oom db bPatchset pSession [] (buf, rc) = Some (buf, rc, pSession, [])"
| "generate_tables ra oom db bPatchset pSession (pTab # tabs) (buf, rc) =
     (if rc \<noteq> SQLITE_OK then Some (buf, rc, pSession, pTab # tabs)
      else do {
        (buf, rc, pSession, pTab) \<leftarrow>
          (if nEntry pTab \<noteq> 0 then generate_table ra oom db bPatchset pSession pTab buf
           else Some (buf, rc, pSession, pTab));
        (buf, rc, pSession, tabs) \<leftarrow> generate_tables ra oom db bPatchset pSession tabs (buf, rc);
        Some (buf, rc, pSession, pTab # tabs)
      })"

text \<open>The result: the code, the changeset, and the session, whose changes are all kept.\<close>

definition sessionGenerateChangeset :: "(nat \<Rightarrow> bool) \<Rightarrow> bool \<Rightarrow> session_db \<Rightarrow> session \<Rightarrow> bool \<Rightarrow>
    (rc \<times> bytes \<times> session) option" where
  "sessionGenerateChangeset ra oom db pSession bPatchset =
     (if sess_rc pSession \<noteq> SQLITE_OK then Some (sess_rc pSession, [], pSession)
      else if savepointRc db \<noteq> SQLITE_OK then Some (savepointRc db, [], pSession)
      else do {
        (buf, rc, pSession', tabs) \<leftarrow>
          generate_tables ra oom db bPatchset pSession (pTable pSession) (\<lparr>aBuf = [], nAlloc = 0\<rparr>, SQLITE_OK);
        Some (rc, if rc = SQLITE_OK then aBuf buf else [], pSession'\<lparr>pTable := tabs\<rparr>)
      })"

definition sqlite3session_changeset :: "(nat \<Rightarrow> bool) \<Rightarrow> bool \<Rightarrow> session_db \<Rightarrow> session \<Rightarrow> (rc \<times> bytes \<times> session) option" where
  "sqlite3session_changeset ra oom db pSession = sessionGenerateChangeset ra oom db pSession False"

end
