(* ===== verification/ChangesetIter.thy ===== *)
theory ChangesetIter
  imports SessionRecord
begin

text \<open>
  The changeset iterator: table headers, the next change, and access to its values.  The
  changeset is a buffer in memory.  \<open>None\<close> means that the code does not return a result: it
  reads past the end of the changeset, or it does not end.
\<close>

section \<open>Iterators\<close>

text \<open>
  The array \<open>apValue\<close> of \<open>2*nCol\<close> pointers is split into its halves, the old.* and the new.*
  values; a null \<open>zTab\<close> is \<open>None\<close>.
\<close>

record changeset_iter =
  it_in :: session_input
  it_bPatchset :: bool
  it_bInvert :: bool
  it_bSkipEmpty :: bool
  it_rc :: rc
  it_zTab :: "bytes option"
  it_nCol :: nat
  it_op :: u8
  it_bIndirect :: u8
  it_abPK :: bytes
  it_old :: "sqlite3_value option list"
  it_new :: "sqlite3_value option list"

definition sessionChangesetStart :: "bytes \<Rightarrow> bool \<Rightarrow> bool \<Rightarrow> changeset_iter" where
  "sessionChangesetStart pChangeset bInvert bSkipEmpty =
     \<lparr>it_in = \<lparr>aData = pChangeset, iNext = 0\<rparr>, it_bPatchset = False, it_bInvert = bInvert,
      it_bSkipEmpty = bSkipEmpty, it_rc = SQLITE_OK, it_zTab = None, it_nCol = 0, it_op = 0,
      it_bIndirect = 0, it_abPK = [], it_old = [], it_new = []\<rparr>"

definition sqlite3changeset_start :: "bytes \<Rightarrow> changeset_iter" where
  "sqlite3changeset_start pChangeset = sessionChangesetStart pChangeset False False"

section \<open>Table headers\<close>

text \<open>
  The search for the nul byte that ends the table name.  The inner loop stops at a nul byte or
  at the end of the data; in the latter case the outer loop asks for more input and tries again,
  which for a changeset in memory changes nothing.
\<close>

definition tblhdr_scan :: "bytes \<Rightarrow> nat \<Rightarrow> nat \<Rightarrow> nat" where
  "tblhdr_scan a i nRead = nRead + length (takeWhile (\<lambda>b. b \<noteq> 0) (drop (i + nRead) a))"

partial_function (option) tblhdr_loop :: "bytes \<Rightarrow> nat \<Rightarrow> nat \<Rightarrow> nat option" where
  "tblhdr_loop a i nRead =
     (if i + tblhdr_scan a i nRead < length a then Some (tblhdr_scan a i nRead)
      else tblhdr_loop a i (tblhdr_scan a i nRead))"

text \<open>The result is the code and \<open>*pnByte\<close>, the size of the header after its first byte.\<close>

definition sessionChangesetBufferTblhdr :: "session_input \<Rightarrow> (rc \<times> nat) option" where
  "sessionChangesetBufferTblhdr pIn = do {
     (k, n) \<leftarrow> sessionVarintGet (drop (iNext pIn) (aData pIn));
     if n < 0 \<or> n > 65536 then Some (SQLITE_CORRUPT, k + 1)
     else do {
       nRead \<leftarrow> tblhdr_loop (aData pIn) (iNext pIn) (k + nat n);
       Some (SQLITE_OK, nRead + 1)
     }
   }"

definition sessionChangesetReadTblhdr :: "changeset_iter \<Rightarrow> changeset_iter option" where
  "sessionChangesetReadTblhdr p = do {
     (rc, nCopy) \<leftarrow> sessionChangesetBufferTblhdr (it_in p);
     if rc \<noteq> SQLITE_OK then Some (p\<lparr>it_rc := rc\<rparr>)
     else do {
       (nVarint, n) \<leftarrow> sessionVarintGet (drop (iNext (it_in p)) (aData (it_in p)));
       if n \<le> 0 then Some (p\<lparr>it_nCol := nat n, it_rc := SQLITE_CORRUPT\<rparr>)
       else
         let nCopy = nCopy - nVarint;
             i = iNext (it_in p) + nVarint;
             hdr = take nCopy (drop i (aData (it_in p)))
         in Some (p\<lparr>it_nCol := nat n, it_in := (it_in p)\<lparr>iNext := i + nCopy\<rparr>,
              it_abPK := take (nat n) hdr,
              it_zTab := Some (takeWhile (\<lambda>b. b \<noteq> 0) (drop (nat n) hdr)),
              it_old := replicate (nat n) None, it_new := replicate (nat n) None, it_rc := SQLITE_OK\<rparr>)
     }
   }"

section \<open>The next change\<close>

text \<open>The operation byte, with the table headers before it.\<close>

partial_function (option) next_op :: "changeset_iter \<Rightarrow> (rc \<times> changeset_iter \<times> u8) option" where
  "next_op p =
     (case rd (aData (it_in p)) (iNext (it_in p)) of
        None \<Rightarrow> None
      | Some opc \<Rightarrow>
          if opc = 0x54 \<or> opc = 0x50 then
            (case sessionChangesetReadTblhdr
                    (p\<lparr>it_in := (it_in p)\<lparr>iNext := iNext (it_in p) + 1\<rparr>, it_bPatchset := (opc = 0x50)\<rparr>) of
               None \<Rightarrow> None
             | Some p \<Rightarrow>
                 if it_rc p \<noteq> SQLITE_OK then Some (it_rc p, p, opc)
                 else if iNext (it_in p) \<ge> nData (it_in p) then Some (SQLITE_DONE, p, opc)
                 else next_op p)
          else Some (SQLITE_OK, p\<lparr>it_in := (it_in p)\<lparr>iNext := iNext (it_in p) + 1\<rparr>\<rparr>, opc))"

text \<open>Reading the old.* and new.* records of a change.\<close>

definition read_old :: "changeset_iter \<Rightarrow> (rc \<times> changeset_iter) option" where
  "read_old p =
     (if it_op p \<noteq> SQLITE_INSERT \<and> (\<not> it_bPatchset p \<or> it_op p = SQLITE_DELETE) then do {
        (rc, pIn, vs, _) \<leftarrow> sessionReadRecord (it_in p) (it_nCol p)
                             (if it_bPatchset p then Some (it_abPK p) else None);
        let p = p\<lparr>it_in := pIn, it_rc := rc\<rparr>;
        Some (rc, if it_bInvert p then p\<lparr>it_new := vs\<rparr> else p\<lparr>it_old := vs\<rparr>)
      } else Some (SQLITE_OK, p))"

definition read_new :: "changeset_iter \<Rightarrow> (rc \<times> changeset_iter \<times> bool) option" where
  "read_new p =
     (if it_op p \<noteq> SQLITE_DELETE then do {
        (rc, pIn, vs, bEmpty) \<leftarrow> sessionReadRecord (it_in p) (it_nCol p) None;
        let p = p\<lparr>it_in := pIn, it_rc := rc\<rparr>;
        Some (rc, if it_bInvert p then p\<lparr>it_old := vs\<rparr> else p\<lparr>it_new := vs\<rparr>, bEmpty)
      } else Some (SQLITE_OK, p, False))"

text \<open>
  The primary key fields of an update in a patchset or in inverted reading are moved from new.*
  to old.*; one that is missing is an error.
\<close>

definition pk_moved :: "changeset_iter \<Rightarrow> changeset_iter option" where
  "pk_moved p =
     (if list_ex (\<lambda>(pk, v). pk \<noteq> 0 \<and> v = None) (zip (it_abPK p) (it_new p)) then None
      else Some (p\<lparr>it_old := map (\<lambda>(pk, ov, nv). if pk \<noteq> 0 then nv else ov) (zip (it_abPK p) (zip (it_old p) (it_new p))),
             it_new := map (\<lambda>(pk, nv). if pk \<noteq> 0 then None else nv) (zip (it_abPK p) (it_new p))\<rparr>))"

text \<open>Fields of old.* that are neither in the primary key nor in new.* are dropped.\<close>

definition drop_unchanged :: "changeset_iter \<Rightarrow> changeset_iter" where
  "drop_unchanged p =
     (if \<not> it_bPatchset p \<and> it_op p = SQLITE_UPDATE
      then p\<lparr>it_old := map (\<lambda>(pk, ov, nv). if pk = 0 \<and> nv = None then None else ov)
               (zip (it_abPK p) (zip (it_old p) (it_new p)))\<rparr>
      else p)"

text \<open>
  \<open>sessionChangesetNextOne\<close> with \<open>paRec\<close> null.  The result has the code, the iterator and
  \<open>*pbEmpty\<close>.
\<close>

definition sessionChangesetNextOne :: "changeset_iter \<Rightarrow> (rc \<times> changeset_iter \<times> bool) option" where
  "sessionChangesetNextOne p =
     (if it_rc p \<noteq> SQLITE_OK then Some (it_rc p, p, False)
      else
        let p = p\<lparr>it_old := replicate (length (it_old p)) None, it_new := replicate (length (it_new p)) None\<rparr>
        in if iNext (it_in p) \<ge> nData (it_in p) then Some (SQLITE_DONE, p, False)
        else do {
          (rc, p, opc) \<leftarrow> next_op p;
          if rc \<noteq> SQLITE_OK then Some (rc, p, False)
          else if it_zTab p = None \<or> (it_bPatchset p \<and> it_bInvert p)
          then Some (SQLITE_CORRUPT, p\<lparr>it_rc := SQLITE_CORRUPT\<rparr>, False)
          else do {
            ind \<leftarrow> rd (aData (it_in p)) (iNext (it_in p));
            let p = p\<lparr>it_op := opc, it_bIndirect := ind,
                      it_in := (it_in p)\<lparr>iNext := iNext (it_in p) + 1\<rparr>\<rparr>;
            if opc \<noteq> SQLITE_UPDATE \<and> opc \<noteq> SQLITE_DELETE \<and> opc \<noteq> SQLITE_INSERT
            then Some (SQLITE_CORRUPT, p\<lparr>it_rc := SQLITE_CORRUPT\<rparr>, False)
            else do {
              (rc, p) \<leftarrow> read_old p;
              if rc \<noteq> SQLITE_OK then Some (rc, p, False)
              else do {
                (rc, p, bEmpty) \<leftarrow> read_new p;
                if rc \<noteq> SQLITE_OK then Some (rc, p, bEmpty)
                else
                  if (it_bPatchset p \<or> it_bInvert p) \<and> it_op p = SQLITE_UPDATE then
                    (case pk_moved p of
                       None \<Rightarrow> Some (SQLITE_CORRUPT, p\<lparr>it_rc := SQLITE_CORRUPT\<rparr>, bEmpty)
                     | Some p \<Rightarrow> Some (SQLITE_ROW, drop_unchanged p, bEmpty))
                  else
                    let p = (if it_bInvert p \<and> it_op p = SQLITE_INSERT then p\<lparr>it_op := SQLITE_DELETE\<rparr>
                             else if it_bInvert p \<and> it_op p = SQLITE_DELETE then p\<lparr>it_op := SQLITE_INSERT\<rparr>
                             else p)
                    in Some (SQLITE_ROW, drop_unchanged p, bEmpty)
              }
            }
          }
        })"

partial_function (option) sessionChangesetNext :: "changeset_iter \<Rightarrow> (rc \<times> changeset_iter) option" where
  "sessionChangesetNext p =
     (case sessionChangesetNextOne p of
        None \<Rightarrow> None
      | Some (rc, p, bEmpty) \<Rightarrow>
          if rc = SQLITE_ROW \<and> it_bSkipEmpty p \<and> bEmpty then sessionChangesetNext p else Some (rc, p))"

definition sqlite3changeset_next :: "changeset_iter \<Rightarrow> (rc \<times> changeset_iter) option" where
  "sqlite3changeset_next p = sessionChangesetNext p"

section \<open>Access to the current change\<close>

definition sqlite3changeset_op :: "changeset_iter \<Rightarrow> bytes option \<times> nat \<times> u8 \<times> u8" where
  "sqlite3changeset_op pIter = (it_zTab pIter, it_nCol pIter, it_op pIter, it_bIndirect pIter)"

definition sqlite3changeset_pk :: "changeset_iter \<Rightarrow> bytes \<times> nat" where
  "sqlite3changeset_pk pIter = (it_abPK pIter, it_nCol pIter)"

definition sqlite3changeset_old :: "changeset_iter \<Rightarrow> int \<Rightarrow> rc + sqlite3_value option" where
  "sqlite3changeset_old pIter iVal =
     (if it_op pIter \<noteq> SQLITE_UPDATE \<and> it_op pIter \<noteq> SQLITE_DELETE then Inl SQLITE_MISUSE
      else if iVal < 0 \<or> iVal \<ge> int (it_nCol pIter) then Inl SQLITE_RANGE
      else Inr (it_old pIter ! nat iVal))"

definition sqlite3changeset_new :: "changeset_iter \<Rightarrow> int \<Rightarrow> rc + sqlite3_value option" where
  "sqlite3changeset_new pIter iVal =
     (if it_op pIter \<noteq> SQLITE_UPDATE \<and> it_op pIter \<noteq> SQLITE_INSERT then Inl SQLITE_MISUSE
      else if iVal < 0 \<or> iVal \<ge> int (it_nCol pIter) then Inl SQLITE_RANGE
      else Inr (it_new pIter ! nat iVal))"

definition sqlite3changeset_finalize :: "changeset_iter option \<Rightarrow> rc" where
  "sqlite3changeset_finalize p = (case p of None \<Rightarrow> SQLITE_OK | Some p \<Rightarrow> it_rc p)"

text \<open>
  The loop \<open>while( sqlite3changeset_next(iter)==SQLITE_ROW )\<close> with a body that acts on a state.
\<close>

partial_function (option) changeset_foreach :: "(changeset_iter \<Rightarrow> 's \<Rightarrow> 's) \<Rightarrow> changeset_iter \<Rightarrow> 's \<Rightarrow>
    (rc \<times> changeset_iter \<times> 's) option" where
  "changeset_foreach f p s =
     (case sqlite3changeset_next p of
        None \<Rightarrow> None
      | Some (rc, p) \<Rightarrow> if rc = SQLITE_ROW then changeset_foreach f p (f p s) else Some (rc, p, s))"

section \<open>Changesets as data\<close>

text \<open>
  The content of a changeset: for each table its name, its primary key flags and its changes.
  What the iterator shows of a change is its \<open>change_view\<close>.
\<close>

record change =
  ch_op :: u8
  ch_indirect :: u8
  ch_old :: "sqlite3_value option list"
  ch_new :: "sqlite3_value option list"

record table_changes =
  tc_name :: bytes
  tc_pk :: bytes
  tc_changes :: "change list"

type_synonym change_view = "bytes \<times> bytes \<times> change"

definition view :: "changeset_iter \<Rightarrow> change_view" where
  "view p = (the (it_zTab p), it_abPK p,
     \<lparr>ch_op = it_op p, ch_indirect = it_bIndirect p, ch_old = it_old p, ch_new = it_new p\<rparr>)"

definition views :: "table_changes list \<Rightarrow> change_view list" where
  "views ts = concat (map (\<lambda>t. map (\<lambda>c. (tc_name t, tc_pk t, c)) (tc_changes t)) ts)"

text \<open>The bytes of a change and of a table with its changes.\<close>

definition enc_change :: "change \<Rightarrow> bytes" where
  "enc_change c = ch_op c # ch_indirect c #
     (if ch_op c = SQLITE_INSERT then serials (ch_new c)
      else if ch_op c = SQLITE_DELETE then serials (ch_old c)
      else serials (ch_old c) @ serials (ch_new c))"

abbreviation enc_changes :: "change list \<Rightarrow> bytes" where
  "enc_changes cs \<equiv> concat (map enc_change cs)"

definition enc_header :: "bytes \<Rightarrow> bytes \<Rightarrow> bytes" where
  "enc_header name pk = sessionVarintPut (int (length pk)) @ pk @ name @ [0]"

definition enc_table :: "table_changes \<Rightarrow> bytes" where
  "enc_table t = 0x54 # enc_header (tc_name t) (tc_pk t) @ enc_changes (tc_changes t)"

abbreviation enc_changeset :: "table_changes list \<Rightarrow> bytes" where
  "enc_changeset ts \<equiv> concat (map enc_table ts)"

text \<open>
  Well-formed content.  An insert has no old and a delete no new values, and an update has no
  old value for a column outside the primary key that it does not change.
\<close>

definition change_wf :: "bytes \<Rightarrow> change \<Rightarrow> bool" where
  "change_wf pk c \<longleftrightarrow>
     length (ch_old c) = length pk \<and> length (ch_new c) = length pk \<and>
     list_all value_ok (ch_old c) \<and> list_all value_ok (ch_new c) \<and>
     (ch_op c = SQLITE_INSERT \<and> ch_old c = replicate (length pk) None \<or>
      ch_op c = SQLITE_DELETE \<and> ch_new c = replicate (length pk) None \<or>
      ch_op c = SQLITE_UPDATE \<and>
        (\<forall>i < length pk. pk ! i = 0 \<and> ch_new c ! i = None \<longrightarrow> ch_old c ! i = None))"

definition table_wf :: "table_changes \<Rightarrow> bool" where
  "table_wf t \<longleftrightarrow> 0 < length (tc_pk t) \<and> length (tc_pk t) \<le> 65536 \<and> 0 \<notin> set (tc_name t) \<and>
     list_all (change_wf (tc_pk t)) (tc_changes t)"

text \<open>An iterator over a changeset, at a given position, with a current table.\<close>

definition at_table :: "changeset_iter \<Rightarrow> bytes \<Rightarrow> bytes \<Rightarrow> bytes \<Rightarrow> bytes \<Rightarrow> bool" where
  "at_table p pre rest name pk \<longleftrightarrow>
     it_in p = \<lparr>aData = pre @ rest, iNext = length pre\<rparr> \<and> \<not> it_bPatchset p \<and> \<not> it_bInvert p \<and>
     \<not> it_bSkipEmpty p \<and> it_rc p = SQLITE_OK \<and> it_zTab p = Some name \<and> it_nCol p = length pk \<and>
     it_abPK p = pk \<and> length (it_old p) = length pk \<and> length (it_new p) = length pk"


text \<open>The iterator after the two header bytes of a change, its values cleared.\<close>

definition at_values :: "changeset_iter \<Rightarrow> u8 \<Rightarrow> u8 \<Rightarrow> changeset_iter" where
  "at_values p opc ind = p\<lparr>it_old := replicate (length (it_old p)) None, it_new := replicate (length (it_new p)) None,
     it_op := opc, it_bIndirect := ind, it_in := (it_in p)\<lparr>iNext := iNext (it_in p) + 2\<rparr>\<rparr>"


definition at_start :: "changeset_iter \<Rightarrow> bytes \<Rightarrow> bytes \<Rightarrow> bool" where
  "at_start p pre rest \<longleftrightarrow>
     it_in p = \<lparr>aData = pre @ rest, iNext = length pre\<rparr> \<and> \<not> it_bPatchset p \<and> \<not> it_bInvert p \<and>
     \<not> it_bSkipEmpty p \<and> it_rc p = SQLITE_OK"


text \<open>An iterator that shows a change.\<close>

definition iter_shape :: "changeset_iter \<Rightarrow> bool" where
  "iter_shape p \<longleftrightarrow> length (it_old p) = it_nCol p \<and> length (it_new p) = it_nCol p \<and>
     length (it_abPK p) = it_nCol p \<and> it_zTab p \<noteq> None"


section \<open>Examples\<close>

definition example_changes :: "table_changes list" where
  "example_changes = [\<lparr>tc_name = [0x74], tc_pk = [1, 0], tc_changes =
     [\<lparr>ch_op = SQLITE_INSERT, ch_indirect = 0, ch_old = [None, None],
       ch_new = [Some (VInteger 1), Some (VText [0x61])]\<rparr>,
      \<lparr>ch_op = SQLITE_UPDATE, ch_indirect = 0, ch_old = [Some (VInteger 2), Some VNull],
       ch_new = [None, Some (VText [0x62])]\<rparr>]\<rparr>]"


section \<open>Table headers\<close>

lemma tblhdr_loop_nul:
  assumes "0 \<notin> set name" and "i \<le> length pre"
  shows "tblhdr_loop (pre @ name @ 0 # rest) i (length pre - i) = Some (length pre - i + length name)"
proof -
  have "tblhdr_scan (pre @ name @ 0 # rest) i (length pre - i) = length pre - i + length name"
    using assms by (auto simp add: tblhdr_scan_def takeWhile_append)
  then show ?thesis using assms by (subst tblhdr_loop.simps) simp
qed

text \<open>The loop ends at a nul byte; without one in the rest of the changeset it does not end.\<close>

lemma tblhdr_scan_stop:
  assumes "i + tblhdr_scan a i nRead < length a"
  shows "a ! (i + tblhdr_scan a i nRead) = 0 \<and> nRead \<le> tblhdr_scan a i nRead"
proof -
  let ?xs = "drop (i + nRead) a" and ?k = "length (takeWhile (\<lambda>b. b \<noteq> 0) (drop (i + nRead) a))"
  have "?k < length ?xs" using assms by (simp add: tblhdr_scan_def)
  then have "?xs ! ?k = 0" using nth_length_takeWhile by fastforce
  with assms show ?thesis by (simp add: tblhdr_scan_def add.assoc)
qed

lemma tblhdr_loop_some:
  assumes "tblhdr_loop a i nRead = Some n"
  shows "i + n < length a \<and> a ! (i + n) = 0 \<and> nRead \<le> n"
proof (rule tblhdr_loop.raw_induct
    [where P = "\<lambda>a i nRead n. i + n < length a \<and> a ! (i + n) = 0 \<and> nRead \<le> n", OF _ assms])
  fix loop a i nRead n
  assume IH: "\<And>a i nRead n. loop a i nRead = Some n \<Longrightarrow> i + n < length a \<and> a ! (i + n) = 0 \<and> nRead \<le> n"
    and r: "(if i + tblhdr_scan a i nRead < length a then Some (tblhdr_scan a i nRead)
             else loop a i (tblhdr_scan a i nRead)) = Some n"
  show "i + n < length a \<and> a ! (i + n) = 0 \<and> nRead \<le> n"
  proof (cases "i + tblhdr_scan a i nRead < length a")
    case True
    with r tblhdr_scan_stop [OF True] show ?thesis by auto
  next
    case False
    with r IH [of a i "tblhdr_scan a i nRead" n] show ?thesis by (simp add: tblhdr_scan_def)
  qed
qed

lemma tblhdr_loop_diverges:
  assumes "0 \<notin> set (drop (i + nRead) a)"
  shows "tblhdr_loop a i nRead = None"
proof (cases "tblhdr_loop a i nRead")
  case (Some n)
  then have n: "i + n < length a" "a ! (i + n) = 0" "nRead \<le> n" using tblhdr_loop_some by auto
  then have "drop (i + nRead) a ! (n - nRead) = 0" "n - nRead < length (drop (i + nRead) a)"
    by (simp_all add: less_diff_conv)
  with assms show ?thesis by (metis nth_mem)
qed

lemma sessionChangesetBufferTblhdr_header:
  assumes "0 < length pk" and "length pk \<le> 65536" and "0 \<notin> set name"
  shows "sessionChangesetBufferTblhdr \<lparr>aData = pre @ enc_header name pk @ rest, iNext = length pre\<rparr> =
    Some (SQLITE_OK, length (enc_header name pk))"
proof -
  let ?v = "sessionVarintPut (int (length pk))"
  have get: "sessionVarintGet (?v @ pk @ name @ 0 # rest) = Some (length ?v, int (length pk))"
    using assms(2) by (intro sessionVarintGet_Put) simp_all
  have "tblhdr_loop ((pre @ ?v @ pk) @ name @ 0 # rest) (length pre) (length (pre @ ?v @ pk) - length pre) =
      Some (length (pre @ ?v @ pk) - length pre + length name)"
    using assms(3) by (intro tblhdr_loop_nul) simp_all
  with get assms(2) show ?thesis
    by (simp add: sessionChangesetBufferTblhdr_def enc_header_def)
qed

lemma sessionChangesetReadTblhdr_header:
  assumes "0 < length pk" and "length pk \<le> 65536" and "0 \<notin> set name"
    and "it_in p = \<lparr>aData = pre @ enc_header name pk @ rest, iNext = length pre\<rparr>"
  shows "sessionChangesetReadTblhdr p =
    Some (p\<lparr>it_nCol := length pk, it_in := \<lparr>aData = pre @ enc_header name pk @ rest,
              iNext = length pre + length (enc_header name pk)\<rparr>, it_abPK := pk, it_zTab := Some name,
            it_old := replicate (length pk) None, it_new := replicate (length pk) None, it_rc := SQLITE_OK\<rparr>)"
proof -
  let ?v = "sessionVarintPut (int (length pk))"
  have get: "sessionVarintGet (?v @ pk @ name @ 0 # rest) = Some (length ?v, int (length pk))"
    using assms(2) by (intro sessionVarintGet_Put) simp_all
  define a where "a = pre @ enc_header name pk @ rest"
  have in_p: "aData (it_in p) = a" "iNext (it_in p) = length pre" by (simp_all add: assms(4) a_def)
  have buf: "sessionChangesetBufferTblhdr (it_in p) = Some (SQLITE_OK, length ?v + length pk + length name + 1)"
    unfolding assms(4) sessionChangesetBufferTblhdr_header [OF assms(1-3)] by (simp add: enc_header_def)
  have d1: "drop (length pre) a = ?v @ pk @ name @ 0 # rest" by (simp add: a_def enc_header_def)
  have d2: "drop (length pre + length ?v) a = pk @ name @ 0 # rest" by (simp add: a_def enc_header_def)
  have d3: "take (length pk + length name + 1) (pk @ name @ 0 # rest) = pk @ name @ [0]" by simp
  have d4: "takeWhile (\<lambda>b. b \<noteq> 0) (name @ [0]) = name"
    using assms(3) by (auto simp add: takeWhile_append)
  have n: "length ?v + length pk + length name + 1 - length ?v = length pk + length name + 1" by simp
  have pos: "\<not> int (length pk) \<le> 0" using assms(1) by simp
  show ?thesis
    unfolding sessionChangesetReadTblhdr_def buf in_p d1 get
    by (simp add: pos d2 d3 [simplified] d4 n Let_def assms(4) a_def [symmetric]) (use assms(1) in \<open>simp add: enc_header_def\<close>)
qed

section \<open>One change\<close>

lemma next_op_change:
  assumes "opc \<noteq> 0x54" and "opc \<noteq> 0x50" and "it_in p = \<lparr>aData = pre @ opc # rest, iNext = length pre\<rparr>"
  shows "next_op p = Some (SQLITE_OK, p\<lparr>it_in := \<lparr>aData = pre @ opc # rest, iNext = Suc (length pre)\<rparr>\<rparr>, opc)"
  using assms by (subst next_op.simps) simp

lemma sessionChangesetNext_eq:
  assumes "\<not> it_bSkipEmpty p" and "sessionChangesetNextOne p = Some (rc, p', e)" and "\<not> it_bSkipEmpty p'"
  shows "sqlite3changeset_next p = Some (rc, p')"
  using assms by (simp add: sqlite3changeset_next_def) (subst sessionChangesetNext.simps, simp)

lemma drop_unchanged_wf:
  assumes "length (ch_old c) = length pk" and "length (ch_new c) = length pk"
    and "\<forall>i < length pk. pk ! i = 0 \<and> ch_new c ! i = None \<longrightarrow> ch_old c ! i = None"
  shows "map (\<lambda>(k, ov, nv). if k = 0 \<and> nv = None then None else ov) (zip pk (zip (ch_old c) (ch_new c))) = ch_old c"
  using assms by (intro nth_equalityI) auto

lemma read_old_step:
  assumes "it_in p = \<lparr>aData = b @ serials vs @ r, iNext = length b\<rparr>" and "it_op p \<noteq> SQLITE_INSERT"
    and "\<not> it_bPatchset p" and "\<not> it_bInvert p" and "list_all value_ok vs" and "it_nCol p = length vs"
  shows "read_old p = Some (SQLITE_OK, p\<lparr>it_in := \<lparr>aData = b @ serials vs @ r, iNext = length (b @ serials vs)\<rparr>,
    it_rc := SQLITE_OK, it_old := vs\<rparr>)"
  using assms sessionReadRecord_serials [of vs "it_nCol p" b r] by (simp add: read_old_def)

lemma read_new_step:
  assumes "it_in p = \<lparr>aData = b @ serials vs @ r, iNext = length b\<rparr>" and "it_op p \<noteq> SQLITE_DELETE"
    and "\<not> it_bInvert p" and "list_all value_ok vs" and "it_nCol p = length vs"
  shows "read_new p = Some (SQLITE_OK, p\<lparr>it_in := \<lparr>aData = b @ serials vs @ r, iNext = length (b @ serials vs)\<rparr>,
    it_rc := SQLITE_OK, it_new := vs\<rparr>, list_all (\<lambda>v. v = None) vs)"
  using assms sessionReadRecord_serials [of vs "it_nCol p" b r] by (simp add: read_new_def)

lemma NextOne_reads:
  assumes p: "at_table p pre (opc # ind # rest) name pk"
    and opc: "opc \<in> {SQLITE_INSERT, SQLITE_DELETE, SQLITE_UPDATE}"
    and old: "read_old (at_values p opc ind) = Some (SQLITE_OK, p3)"
    and new: "read_new p3 = Some (SQLITE_OK, p4, e)"
    and p4: "\<not> it_bPatchset p4" "\<not> it_bInvert p4"
  shows "sessionChangesetNextOne p = Some (SQLITE_ROW, drop_unchanged p4, e)"
proof -
  note pd = p [unfolded at_table_def]
  let ?p0 = "p\<lparr>it_old := replicate (length pk) None, it_new := replicate (length pk) None\<rparr>"
  let ?p1 = "?p0\<lparr>it_in := \<lparr>aData = pre @ opc # ind # rest, iNext = Suc (length pre)\<rparr>\<rparr>"
  have nop: "next_op ?p0 = Some (SQLITE_OK, ?p1, opc)"
    using next_op_change [of opc ?p0 pre "ind # rest"] opc pd by auto
  have "?p1\<lparr>it_op := opc, it_bIndirect := ind, it_in := \<lparr>aData = pre @ opc # ind # rest, iNext = Suc (Suc (length pre))\<rparr>\<rparr>
      = at_values p opc ind"
    using pd by (simp add: at_values_def)
  with nop opc old new p4 pd show ?thesis
    by (auto simp add: sessionChangesetNextOne_def Let_def)
qed

lemma NextOne_change:
  assumes p: "at_table p pre (enc_change c @ rest) name pk" and c: "change_wf pk c"
  shows "\<exists>p' e. sessionChangesetNextOne p = Some (SQLITE_ROW, p', e) \<and>
    at_table p' (pre @ enc_change c) rest name pk \<and> view p' = (name, pk, c)"
proof -
  note pd = p [unfolded at_table_def] and cd = c [unfolded change_wf_def]
  let ?b = "pre @ [ch_op c, ch_indirect c]"
  define q where "q = at_values p (ch_op c) (ch_indirect c)"
  define tl where "tl = drop 2 (enc_change c)"
  have enc: "enc_change c = ch_op c # ch_indirect c # tl" by (simp add: enc_change_def tl_def)
  have q: "it_op q = ch_op c" "\<not> it_bPatchset q" "\<not> it_bInvert q" "it_nCol q = length pk" "it_rc q = SQLITE_OK"
      "it_in q = \<lparr>aData = ?b @ tl @ rest, iNext = length ?b\<rparr>" "it_abPK q = pk"
      "it_old q = replicate (length pk) None" "it_new q = replicate (length pk) None" "it_zTab q = Some name"
      "\<not> it_bSkipEmpty q" "it_bIndirect q = ch_indirect c"
    using pd by (simp_all add: q_def at_values_def enc)
  have step: "sessionChangesetNextOne p = Some (SQLITE_ROW, drop_unchanged p4, e)"
    if "read_old q = Some (SQLITE_OK, p3)" "read_new p3 = Some (SQLITE_OK, p4, e)"
      "\<not> it_bPatchset p4" "\<not> it_bInvert p4" for p3 p4 e
    using NextOne_reads [of p pre "ch_op c" "ch_indirect c" "tl @ rest" name pk p3 p4 e] p cd that
    by (auto simp add: enc q_def)
  consider (ins) "ch_op c = SQLITE_INSERT" "ch_old c = replicate (length pk) None"
    | (del) "ch_op c = SQLITE_DELETE" "ch_new c = replicate (length pk) None"
    | (upd) "ch_op c = SQLITE_UPDATE" "\<forall>i < length pk. pk ! i = 0 \<and> ch_new c ! i = None \<longrightarrow> ch_old c ! i = None"
    using cd by blast
  then show ?thesis
  proof cases
    case ins
    then have tl: "tl = serials (ch_new c)" by (simp add: tl_def enc_change_def)
    let ?p4 = "q\<lparr>it_in := \<lparr>aData = ?b @ serials (ch_new c) @ rest, iNext = length (?b @ serials (ch_new c))\<rparr>,
      it_rc := SQLITE_OK, it_new := ch_new c\<rparr>"
    have "read_old q = Some (SQLITE_OK, q)" using q ins by (simp add: read_old_def)
    moreover have "read_new q = Some (SQLITE_OK, ?p4, list_all (\<lambda>v. v = None) (ch_new c))"
      using q ins tl cd by (intro read_new_step) simp_all
    ultimately have "sessionChangesetNextOne p = Some (SQLITE_ROW, drop_unchanged ?p4, list_all (\<lambda>v. v = None) (ch_new c))"
      using step q by simp
    then show ?thesis using q ins tl cd
      by (auto simp add: at_table_def view_def drop_unchanged_def enc)
  next
    case del
    then have tl: "tl = serials (ch_old c)" by (simp add: tl_def enc_change_def)
    let ?p3 = "q\<lparr>it_in := \<lparr>aData = ?b @ serials (ch_old c) @ rest, iNext = length (?b @ serials (ch_old c))\<rparr>,
      it_rc := SQLITE_OK, it_old := ch_old c\<rparr>"
    have "read_old q = Some (SQLITE_OK, ?p3)"
      using q del tl cd by (intro read_old_step) simp_all
    moreover have "read_new ?p3 = Some (SQLITE_OK, ?p3, False)"
      using q del by (simp add: read_new_def)
    ultimately have "sessionChangesetNextOne p = Some (SQLITE_ROW, drop_unchanged ?p3, False)"
      using step q by simp
    then show ?thesis using q del tl cd
      by (auto simp add: at_table_def view_def drop_unchanged_def enc)
  next
    case upd
    then have tl: "tl = serials (ch_old c) @ serials (ch_new c)" by (simp add: tl_def enc_change_def)
    let ?b2 = "?b @ serials (ch_old c)"
    let ?p3 = "q\<lparr>it_in := \<lparr>aData = ?b @ serials (ch_old c) @ serials (ch_new c) @ rest, iNext = length ?b2\<rparr>,
      it_rc := SQLITE_OK, it_old := ch_old c\<rparr>"
    let ?p4 = "?p3\<lparr>it_in := \<lparr>aData = ?b2 @ serials (ch_new c) @ rest, iNext = length (?b2 @ serials (ch_new c))\<rparr>,
      it_rc := SQLITE_OK, it_new := ch_new c\<rparr>"
    have "read_old q = Some (SQLITE_OK, ?p3)"
      using q upd tl cd by (intro read_old_step) simp_all
    moreover have "read_new ?p3 = Some (SQLITE_OK, ?p4, list_all (\<lambda>v. v = None) (ch_new c))"
      using q upd cd by (intro read_new_step) simp_all
    ultimately have "sessionChangesetNextOne p = Some (SQLITE_ROW, drop_unchanged ?p4, list_all (\<lambda>v. v = None) (ch_new c))"
      using step q by simp
    moreover have "drop_unchanged ?p4 = ?p4"
      using drop_unchanged_wf [of c pk] upd cd q by (simp add: drop_unchanged_def)
    ultimately show ?thesis using q upd tl cd
      by (auto simp add: at_table_def view_def enc)
  qed
qed

section \<open>Whole changesets\<close>

lemma at_table_shape: "at_table p pre rest name pk \<Longrightarrow> iter_shape p"
  by (auto simp add: at_table_def iter_shape_def)

lemma at_table_at_start: "at_table p pre rest name pk \<Longrightarrow> at_start p pre rest"
  by (simp add: at_table_def at_start_def)

lemma NextOne_end:
  assumes "at_start p pre []"
  shows "\<exists>p'. sessionChangesetNextOne p = Some (SQLITE_DONE, p', False) \<and> it_rc p' = SQLITE_OK \<and> \<not> it_bSkipEmpty p'"
  using assms by (simp add: sessionChangesetNextOne_def at_start_def)

lemma NextOne_header:
  assumes p: "at_start p pre (0x54 # enc_header name pk @ rest)"
    and wf: "0 < length pk" "length pk \<le> 65536" "0 \<notin> set name"
  shows "\<exists>p'. sessionChangesetNextOne p = sessionChangesetNextOne p' \<and>
    at_table p' (pre @ 0x54 # enc_header name pk) rest name pk"
proof -
  note pd = p [unfolded at_start_def]
  let ?pre = "pre @ [0x54]" and ?n = "length pk"
  let ?p0 = "p\<lparr>it_old := replicate (length (it_old p)) None, it_new := replicate (length (it_new p)) None\<rparr>"
  let ?p1 = "?p0\<lparr>it_in := \<lparr>aData = ?pre @ enc_header name pk @ rest, iNext = length ?pre\<rparr>, it_bPatchset := False\<rparr>"
  define p2 where "p2 = ?p1\<lparr>it_nCol := ?n, it_in := \<lparr>aData = ?pre @ enc_header name pk @ rest,
      iNext = length ?pre + length (enc_header name pk)\<rparr>, it_abPK := pk, it_zTab := Some name,
      it_old := replicate ?n None, it_new := replicate ?n None, it_rc := SQLITE_OK\<rparr>"
  have hdr: "sessionChangesetReadTblhdr ?p1 = Some p2"
    unfolding p2_def by (rule sessionChangesetReadTblhdr_header [OF wf]) simp
  have at: "at_table p2 (pre @ 0x54 # enc_header name pk) rest name pk"
    using pd by (simp add: at_table_def p2_def)
  have nop: "next_op ?p0 = (if nData (it_in p2) \<le> iNext (it_in p2) then Some (SQLITE_DONE, p2, 0x54) else next_op p2)"
    using pd hdr by (subst next_op.simps) (simp add: p2_def)
  have "p2\<lparr>it_old := replicate (length (it_old p2)) None, it_new := replicate (length (it_new p2)) None\<rparr> = p2"
    by (simp add: p2_def)
  then have "sessionChangesetNextOne p2 =
      (if nData (it_in p2) \<le> iNext (it_in p2) then Some (SQLITE_DONE, p2, False) else sessionChangesetNextOne p2)"
    using at by (simp add: sessionChangesetNextOne_def at_table_def)
  then have "sessionChangesetNextOne p = sessionChangesetNextOne p2"
    using pd nop \<open>p2\<lparr>it_old := _, it_new := _\<rparr> = p2\<close> at
    by (simp add: sessionChangesetNextOne_def at_table_def)
  with at show ?thesis by blast
qed

lemma foreach_cong:
  assumes "sessionChangesetNextOne p = sessionChangesetNextOne p'"
  shows "changeset_foreach f p s = changeset_foreach f p' s"
proof -
  have "sqlite3changeset_next p = sqlite3changeset_next p'"
    unfolding sqlite3changeset_next_def
    by (subst (1 2) sessionChangesetNext.simps) (simp add: assms)
  then show ?thesis by (subst (1 2) changeset_foreach.simps) simp
qed

lemma foreach_row:
  assumes "sessionChangesetNextOne p = Some (SQLITE_ROW, p', e)" and "\<not> it_bSkipEmpty p'"
  shows "changeset_foreach f p s = changeset_foreach f p' (f p' s)"
proof -
  have "sqlite3changeset_next p = Some (SQLITE_ROW, p')"
    unfolding sqlite3changeset_next_def
    by (subst sessionChangesetNext.simps) (simp add: assms)
  then show ?thesis by (subst changeset_foreach.simps) simp
qed

lemma foreach_changes:
  assumes "at_table p pre (enc_changes cs @ rest) name pk" and "list_all (change_wf pk) cs"
  shows "\<exists>ps p'. at_table p' (pre @ enc_changes cs) rest name pk \<and> map view ps = map (\<lambda>c. (name, pk, c)) cs \<and>
    list_all iter_shape ps \<and> (\<forall>f s. changeset_foreach f p s = changeset_foreach f p' (fold f ps (s :: 's)))"
  using assms
proof (induction cs arbitrary: p pre)
  case Nil
  then show ?case by (intro exI [of _ "[]"] exI [of _ p]) simp
next
  case (Cons c cs)
  then have "at_table p pre (enc_change c @ enc_changes cs @ rest) name pk" "change_wf pk c" by simp_all
  from NextOne_change [OF this] obtain p1 e
    where 1: "sessionChangesetNextOne p = Some (SQLITE_ROW, p1, e)"
        "at_table p1 (pre @ enc_change c) (enc_changes cs @ rest) name pk" "view p1 = (name, pk, c)"
    by blast
  from Cons.IH [OF 1(2)] Cons.prems obtain ps p'
    where 2: "at_table p' ((pre @ enc_change c) @ enc_changes cs) rest name pk"
        "map view ps = map (\<lambda>c. (name, pk, c)) cs" "list_all iter_shape ps"
        "\<forall>f s. changeset_foreach f p1 s = changeset_foreach f p' (fold f ps (s :: 's))"
    by auto
  have "\<not> it_bSkipEmpty p1" using 1(2) by (simp add: at_table_def)
  then have "changeset_foreach f p s = changeset_foreach f p1 (f p1 s)" for f and s :: 's
    by (rule foreach_row [OF 1(1)])
  with 1 2 at_table_shape [OF 1(2)] show ?case by (intro exI [of _ "p1 # ps"] exI [of _ p']) simp
qed

lemma foreach_changeset:
  assumes "at_start p pre (enc_changeset ts)" and "list_all table_wf ts"
  shows "\<exists>ps p'. map view ps = views ts \<and> list_all iter_shape ps \<and> it_rc p' = SQLITE_OK \<and>
    (\<forall>f s. changeset_foreach f p s = Some (SQLITE_DONE, p', fold f ps (s :: 's)))"
  using assms
proof (induction ts arbitrary: p pre)
  case Nil
  then obtain p' where p': "sessionChangesetNextOne p = Some (SQLITE_DONE, p', False)" "it_rc p' = SQLITE_OK" "\<not> it_bSkipEmpty p'"
    using NextOne_end by auto
  then have "sqlite3changeset_next p = Some (SQLITE_DONE, p')"
    unfolding sqlite3changeset_next_def by (subst sessionChangesetNext.simps) simp
  then have "changeset_foreach f p s = Some (SQLITE_DONE, p', s)" for f and s :: 's
    by (subst changeset_foreach.simps) simp
  with p' show ?case by (intro exI [of _ "[]"] exI [of _ p']) (simp add: views_def)
next
  case (Cons t ts)
  let ?h = "0x54 # enc_header (tc_name t) (tc_pk t)"
  have wf: "0 < length (tc_pk t)" "length (tc_pk t) \<le> 65536" "0 \<notin> set (tc_name t)" "list_all (change_wf (tc_pk t)) (tc_changes t)"
    using Cons.prems(2) by (simp_all add: table_wf_def)
  have "at_start p pre (?h @ enc_changes (tc_changes t) @ enc_changeset ts)"
    using Cons.prems(1) by (simp add: enc_table_def [of t])
  then obtain p1 where p1: "sessionChangesetNextOne p = sessionChangesetNextOne p1"
      "at_table p1 (pre @ ?h) (enc_changes (tc_changes t) @ enc_changeset ts) (tc_name t) (tc_pk t)"
    using NextOne_header [of p pre "tc_name t" "tc_pk t"] wf by auto
  obtain qs p2 where 2: "at_table p2 ((pre @ ?h) @ enc_changes (tc_changes t)) (enc_changeset ts) (tc_name t) (tc_pk t)"
      "map view qs = map (\<lambda>c. (tc_name t, tc_pk t, c)) (tc_changes t)" "list_all iter_shape qs"
      "\<And>f s. changeset_foreach f p1 s = changeset_foreach f p2 (fold f qs (s :: 's))"
    using foreach_changes [OF p1(2) wf(4), where 's = 's] by blast
  obtain ps p' where 3: "map view ps = views ts" "list_all iter_shape ps" "it_rc p' = SQLITE_OK"
      "\<And>f s. changeset_foreach f p2 s = Some (SQLITE_DONE, p', fold f ps (s :: 's))"
    using Cons.IH [OF at_table_at_start [OF 2(1)]] Cons.prems(2) by auto
  have "changeset_foreach f p s = changeset_foreach f p1 s" for f and s :: 's
    by (rule foreach_cong [OF p1(1)])
  with 2 3 show ?case by (intro exI [of _ "qs @ ps"] exI [of _ p']) (simp add: views_def)
qed

section \<open>Handlers\<close>

text \<open>
  A loop body that looks at the iterator only through the table, the primary key and the change
  it shows.  For such a body the loop over a changeset is a fold over its content.
\<close>

locale change_handler =
  fixes body :: "changeset_iter \<Rightarrow> 's \<Rightarrow> 's" and handle :: "change_view \<Rightarrow> 's \<Rightarrow> 's"
  assumes body_view: "iter_shape p \<Longrightarrow> body p s = handle (view p) s"
begin

lemma fold_views: "list_all iter_shape ps \<Longrightarrow> fold body ps s = fold handle (map view ps) s"
  by (induction ps arbitrary: s) (simp_all add: body_view)

lemma foreach_content:
  assumes "list_all table_wf ts"
  shows "\<exists>p'. changeset_foreach body (sqlite3changeset_start (enc_changeset ts)) s =
      Some (SQLITE_DONE, p', fold handle (views ts) s) \<and> it_rc p' = SQLITE_OK"
proof -
  have "at_start (sqlite3changeset_start (enc_changeset ts)) [] (enc_changeset ts)"
    by (simp add: at_start_def sqlite3changeset_start_def sessionChangesetStart_def)
  from foreach_changeset [OF this assms, where 's = 's] obtain ps p'
    where "map view ps = views ts" "list_all iter_shape ps" "it_rc p' = SQLITE_OK"
      "changeset_foreach body (sqlite3changeset_start (enc_changeset ts)) s = Some (SQLITE_DONE, p', fold body ps s)"
    by blast
  then show ?thesis using fold_views [of ps s] by auto
qed

end

text \<open>Collecting what the iterator shows.\<close>

interpretation collect: change_handler "\<lambda>p acc. acc @ [view p]" "\<lambda>v acc. acc @ [v]"
  by unfold_locales simp

lemma fold_snoc: "fold (\<lambda>v acc. acc @ [v]) vs acc = acc @ vs"
  by (induction vs arbitrary: acc) simp_all

section \<open>Properties\<close>

text \<open>C7: a changeset whose bytes encode some content (tables, each with its primary key and
  its inserts, updates and deletes) is iterated completely: the iterator shows exactly these
  changes in this order, with their tables and their old and new values, and then reports the
  end, without error.\<close>

theorem changeset_roundtrip:
  assumes "list_all table_wf ts"
  shows "\<exists>p'. changeset_foreach (\<lambda>p acc. acc @ [view p]) (sqlite3changeset_start (enc_changeset ts)) [] =
      Some (SQLITE_DONE, p', views ts) \<and> sqlite3changeset_finalize (Some p') = SQLITE_OK"
  using collect.foreach_content [OF assms, of "[]"]
  by (simp add: fold_snoc sqlite3changeset_finalize_def)

lemma example_changes_wf: "list_all table_wf example_changes"
  by (simp add: example_changes_def table_wf_def change_wf_def All_less_Suc)

theorem changeset_roundtrip_witness:
  "\<exists>p'. changeset_foreach (\<lambda>p acc. acc @ [view p]) (sqlite3changeset_start (enc_changeset example_changes)) [] =
      Some (SQLITE_DONE, p', views example_changes) \<and> sqlite3changeset_finalize (Some p') = SQLITE_OK"
  using changeset_roundtrip [OF example_changes_wf] .

end
