(* ===== verification/ChangesetGenerate.thy ===== *)
theory ChangesetGenerate
  imports ChangesetWrite ChangesetIter
begin

text \<open>
  What a generated changeset says: it is the encoding of the difference between the rows
  recorded by the session and the rows now in the database.
\<close>

section \<open>Specification\<close>

text \<open>The values of a record, and the parameters of the query for its row.\<close>

definition recorded :: "nat \<Rightarrow> session_change \<Rightarrow> sqlite3_value option list" where
  "recorded n p =
     (case sessionReadRecord \<lparr>aData = aRecord p, iNext = 0\<rparr> n None of
        Some (_, _, vs, _) \<Rightarrow> vs | None \<Rightarrow> [])"

fun key_binds :: "nat \<Rightarrow> bytes \<Rightarrow> sqlite3_value option list \<Rightarrow> (nat \<times> sqlite3_value) list" where
  "key_binds i (pk # pks) (v # vs) = (if pk \<noteq> 0 then [(i + 1, the v)] else []) @ key_binds (i + 1) pks vs"
| "key_binds i pks vs = []"

text \<open>The vectors of an update from the recorded values \<open>vs\<close> to the current \<open>row\<close>.\<close>

definition update_old :: "bytes \<Rightarrow> sqlite3_value list \<Rightarrow> sqlite3_value list \<Rightarrow> sqlite3_value option list" where
  "update_old pks vs row = map (\<lambda>(pk, v, w). if pk \<noteq> 0 \<or> \<not> value_same v w then Some v else None) (zip pks (zip vs row))"

definition update_new :: "sqlite3_value list \<Rightarrow> sqlite3_value list \<Rightarrow> sqlite3_value option list" where
  "update_new vs row = map2 (\<lambda>v w. if value_same v w then None else Some w) vs row"

text \<open>
  The difference for one recorded row: nothing, or one insert, update or delete.  A row that
  was inserted while recording and is gone is no change, and neither is a row that has its
  recorded values again.
\<close>

definition diff_change :: "bytes \<Rightarrow> session_change \<Rightarrow> step_result \<Rightarrow> change list" where
  "diff_change pks p r =
     (let n = length pks; vs = map the (recorded n p); ind = of_bool (bIndirect p)
      in case r of
           StepRow row \<Rightarrow>
             if op p = SQLITE_INSERT
             then [\<lparr>ch_op = SQLITE_INSERT, ch_indirect = ind, ch_old = replicate n None, ch_new = map Some row\<rparr>]
             else if list_all2 value_same vs row then []
             else [\<lparr>ch_op = SQLITE_UPDATE, ch_indirect = ind, ch_old = update_old pks vs row, ch_new = update_new vs row\<rparr>]
         | _ \<Rightarrow>
             if op p = SQLITE_INSERT then []
             else [\<lparr>ch_op = SQLITE_DELETE, ch_indirect = ind, ch_old = map Some vs, ch_new = replicate n None\<rparr>])"

definition current_row :: "session_db \<Rightarrow> session_table \<Rightarrow> session_change \<Rightarrow> step_result" where
  "current_row db pTab p = selectRow db pTab (key_binds 0 (abPK pTab) (recorded (nCol pTab) p))"

definition diff_table :: "session_db \<Rightarrow> session_table \<Rightarrow> change list" where
  "diff_table db pTab = concat (map (\<lambda>p. diff_change (abPK pTab) p (current_row db pTab p)) (concat (apChange pTab)))"

definition table_content :: "session_db \<Rightarrow> session_table \<Rightarrow> table_changes list" where
  "table_content db pTab =
     (if diff_table db pTab = [] then []
      else [\<lparr>tc_name = zName pTab, tc_pk = abPK pTab, tc_changes = diff_table db pTab\<rparr>])"

definition session_content :: "session_db \<Rightarrow> session \<Rightarrow> table_changes list" where
  "session_content db s = concat (map (\<lambda>t. if nEntry t \<noteq> 0 then table_content db t else []) (pTable s))"

text \<open>
  A recorded change: its record has the values of the whole row, or for an insert those of the
  primary key; the current row, if there is one, has one admissible value for each column, and
  the query for it does not fail.
\<close>

definition change_recorded :: "session_db \<Rightarrow> session_table \<Rightarrow> session_change \<Rightarrow> bool" where
  "change_recorded db pTab p \<longleftrightarrow>
     record_values pTab (aRecord p) (recorded (nCol pTab) p) \<and>
     op p \<in> {SQLITE_INSERT, SQLITE_UPDATE, SQLITE_DELETE} \<and>
     (op p = SQLITE_INSERT \<or> None \<notin> set (recorded (nCol pTab) p)) \<and>
     (case current_row db pTab p of
        StepRow row \<Rightarrow> length row = nCol pTab \<and> list_all (\<lambda>v. value_ok (Some v)) row
      | StepDone \<Rightarrow> True
      | StepError _ \<Rightarrow> False)"

text \<open>The bytes written for a change, even if it turns out to be none.\<close>

definition change_work :: "session_db \<Rightarrow> session_table \<Rightarrow> session_change \<Rightarrow> nat" where
  "change_work db pTab p = 2 + length (aRecord p) +
     (case current_row db pTab p of StepRow row \<Rightarrow> length (serials (map Some row)) | _ \<Rightarrow> 0)"

definition table_work :: "session_db \<Rightarrow> session_table \<Rightarrow> nat" where
  "table_work db pTab = length (enc_table \<lparr>tc_name = zName pTab, tc_pk = abPK pTab, tc_changes = []\<rparr>) +
     sum_list (map (change_work db pTab) (concat (apChange pTab)))"

text \<open>A table that has not changed its layout since it was recorded.\<close>

definition table_recorded :: "session_db \<Rightarrow> session \<Rightarrow> session_table \<Rightarrow> bool" where
  "table_recorded db s pTab \<longleftrightarrow>
     0 < nCol pTab \<and> nCol pTab \<le> 65536 \<and> length (abPK pTab) = nCol pTab \<and> 0 \<notin> set (zName pTab) \<and>
     length (apChange pTab) = nChange pTab \<and> selectRc db pTab = SQLITE_OK \<and>
     list_all (change_recorded db pTab) (concat (apChange pTab)) \<and>
     (case tableInfo (schema db) (zName pTab) (bImplicitPK s) of
        Inl _ \<Rightarrow> False
      | Inr ti \<Rightarrow> ti_nCol ti = nCol pTab \<and> ti_nTotalCol ti = nTotalCol pTab \<and> ti_abPK ti = abPK pTab \<and>
          ti_aiIdx ti = aiIdx pTab \<and> bRowid pTab = (bImplicitPK s \<and> ti_bRowid ti))"

definition session_recorded :: "session_db \<Rightarrow> session \<Rightarrow> bool" where
  "session_recorded db s \<longleftrightarrow>
     sess_rc s = SQLITE_OK \<and> savepointRc db = SQLITE_OK \<and>
     list_all (\<lambda>t. nEntry t = 0 \<or> table_recorded db s t) (pTable s) \<and>
     sum_list (map (\<lambda>t. if nEntry t \<noteq> 0 then table_work db t else 0) (pTable s)) + 9 \<le> SESSION_MAX_BUFFER_SZ"

text \<open>A function writes these bytes to the buffer if there is room for what it may need.\<close>

definition writes :: "nat \<Rightarrow> bytes \<Rightarrow> (session_buffer \<Rightarrow> (session_buffer \<times> rc) option) \<Rightarrow> bool" where
  "writes w bs g \<longleftrightarrow>
     (\<forall>p. buffer_ok p \<and> nBuf p + w + 9 \<le> SESSION_MAX_BUFFER_SZ \<longrightarrow>
        (\<exists>p'. g p = Some (p', SQLITE_OK) \<and> buffer_ok p' \<and> aBuf p' = aBuf p @ bs))"

text \<open>An allocator that grants every request.\<close>

abbreviation granted :: "nat \<Rightarrow> bool" where
  "granted \<equiv> (\<lambda>_. True)"

section \<open>Lemmas\<close>

lemma recorded_serials:
  assumes "list_all value_ok vs" "aRecord p = serials vs" "n = length vs"
  shows "recorded n p = vs"
  using sessionReadRecord_serials [OF assms(1,3), of "[]" "[]"] assms(2) by (simp add: recorded_def)

lemma sessionSelectBind_serials:
  assumes "list_all value_ok vs" "length vs = length pks" "list_all (\<lambda>v. v \<noteq> None \<and> v \<noteq> Some VNull) (pk_values pks vs)"
  shows "sessionSelectBind i pks (serials vs @ r) = Some (key_binds i pks vs)"
  using assms
proof (induction pks arbitrary: vs i)
  case (Cons pk pks)
  then obtain v vs' where vs: "vs = v # vs'" by (cases vs) auto
  have IH: "sessionSelectBind (i + 1) pks (serials vs' @ r) = Some (key_binds (i + 1) pks vs')"
    using Cons.prems by (intro Cons.IH) (auto simp: vs split: if_splits)
  show ?case
  proof (cases v)
    case None
    then show ?thesis using Cons.prems IH by (auto simp: vs split: if_splits)
  next
    case (Some w)
    then show ?thesis using Cons.prems IH
      by (cases w) (auto simp: vs codec_simps advance_def memread_def split: if_splits)
  qed
qed simp

lemma advance_header: "advance (e # xs @ ys) (1 + int (length xs)) = Some ys"
  by (simp add: advance_def nat_add_distrib)

lemma sessionAppendUpdate_changed_serial:
  assumes "value_ok (Some v)"
  shows "sessionAppendUpdate_changed (serial (Some v) @ r) w = Some (\<not> value_same v w, int (length (serial (Some v))))"
  using assms
  by (cases v; cases w)
    (auto simp: sessionAppendUpdate_changed_def codec_simps advance_header memread_def Let_def)

lemma length_serial_Some: "0 < length (serial v)"
  by simp

lemma appendsD:
  assumes "appends f bs" "buffer_ok p" "nBuf p + w + 9 \<le> SESSION_MAX_BUFFER_SZ" "length bs \<le> w"
  obtains p' where "f (p, SQLITE_OK) = (p', SQLITE_OK)" "buffer_ok p'" "aBuf p' = aBuf p @ bs"
  using assms unfolding appends_def by (meson add_le_mono le_trans order_refl)

lemma update_old_simps [simp]:
  "update_old [] vs row = []"
  "update_old (pk # pks) (v # vs) (w # row) =
     (if pk \<noteq> 0 \<or> \<not> value_same v w then Some v else None) # update_old pks vs row"
  by (simp_all add: update_old_def)

lemma update_new_simps [simp]:
  "update_new [] [] = []"
  "update_new (v # vs) (w # row) = (if value_same v w then None else Some w) # update_new vs row"
  by (simp_all add: update_new_def)

lemma append_field:
  assumes "value_ok (Some v)" "buffer_ok b" "nBuf b + length (serial (Some v)) + n + 9 \<le> SESSION_MAX_BUFFER_SZ"
  obtains b' where "(if c then sessionAppendBlob granted (serial (Some v)) (b, SQLITE_OK)
      else sessionAppendByte granted 0 (b, SQLITE_OK)) = (b', SQLITE_OK)"
    "buffer_ok b'" "aBuf b' = aBuf b @ serial (if c then Some v else None)"
    "nBuf b' + n + 9 \<le> SESSION_MAX_BUFFER_SZ"
proof (cases c)
  case True
  from appendsD [OF sessionAppendBlob_appends [of granted "serial (Some v)", OF TrueI] assms(2), of "length (serial (Some v))"]
    assms(3) obtain b' where "sessionAppendBlob granted (serial (Some v)) (b, SQLITE_OK) = (b', SQLITE_OK)"
      "buffer_ok b'" "aBuf b' = aBuf b @ serial (Some v)" by auto
  then show thesis using True that assms(3) by simp
next
  case False
  have "1 \<le> length (serial (Some v))" using length_serial_Some [of "Some v"] by linarith
  with appendsD [OF sessionAppendByte_appends [of granted 0, OF TrueI] assms(2), of 1]
    assms(3) obtain b' where "sessionAppendByte granted 0 (b, SQLITE_OK) = (b', SQLITE_OK)"
      "buffer_ok b'" "aBuf b' = aBuf b @ [0]" by auto
  then show thesis using False that \<open>1 \<le> length (serial (Some v))\<close> assms(3) by simp
qed

lemma append_col:
  assumes "value_ok (Some v)" "buffer_ok b" "nBuf b + length (serial (Some v)) + n + 9 \<le> SESSION_MAX_BUFFER_SZ"
  obtains b' where "(if c then sessionAppendCol granted False v (b, SQLITE_OK)
      else sessionAppendByte granted 0 (b, SQLITE_OK)) = (b', SQLITE_OK)"
    "buffer_ok b'" "aBuf b' = aBuf b @ serial (if c then Some v else None)"
    "nBuf b' + n + 9 \<le> SESSION_MAX_BUFFER_SZ"
proof (cases c)
  case True
  from appendsD [OF sessionAppendCol_appends [of granted v, OF TrueI assms(1)] assms(2), of "length (serial (Some v))"]
    assms(3) obtain b' where "sessionAppendCol granted False v (b, SQLITE_OK) = (b', SQLITE_OK)"
      "buffer_ok b'" "aBuf b' = aBuf b @ serial (Some v)" by auto
  then show thesis using True that assms(3) by simp
next
  case False
  from append_field [OF assms, of False] show thesis using False that by auto
qed

lemma sessionAppendUpdate_cols_serials:
  assumes "length row = length vs" "length pks = length vs"
    "list_all (\<lambda>v. value_ok (Some v)) vs" "list_all (\<lambda>v. value_ok (Some v)) row"
    "buffer_ok b1" "buffer_ok b2"
    "nBuf b1 + length (serials (map Some vs)) + n1 + 9 \<le> SESSION_MAX_BUFFER_SZ"
    "nBuf b2 + length (serials (map Some row)) + n2 + 9 \<le> SESSION_MAX_BUFFER_SZ"
  shows "\<exists>b1' b2'. sessionAppendUpdate_cols granted False False (zip row pks) (serials (map Some vs) @ r) b1 b2 SQLITE_OK noop =
      Some (b1', b2', SQLITE_OK, noop \<and> list_all2 value_same vs row) \<and> buffer_ok b1' \<and> buffer_ok b2' \<and>
    aBuf b1' = aBuf b1 @ serials (update_old pks vs row) \<and> aBuf b2' = aBuf b2 @ serials (update_new vs row) \<and>
    nBuf b1' + n1 + 9 \<le> SESSION_MAX_BUFFER_SZ"
  using assms
proof (induction vs arbitrary: row pks b1 b2 noop)
  case (Cons v vs)
  obtain w row' where row: "row = w # row'" using Cons.prems(1) by (cases row) auto
  obtain pk pks' where pks: "pks = pk # pks'" using Cons.prems(2) by (cases pks) auto
  have "value_ok (Some v)" "value_ok (Some w)" using Cons.prems(3,4) row by auto
  obtain b1' where b1: "(if \<not> value_same v w \<or> pk \<noteq> 0 then sessionAppendBlob granted (serial (Some v)) (b1, SQLITE_OK)
      else sessionAppendByte granted 0 (b1, SQLITE_OK)) = (b1', SQLITE_OK)" "buffer_ok b1'"
      "aBuf b1' = aBuf b1 @ serial (if \<not> value_same v w \<or> pk \<noteq> 0 then Some v else None)"
      "nBuf b1' + (length (serials (map Some vs)) + n1) + 9 \<le> SESSION_MAX_BUFFER_SZ"
    using append_field [OF \<open>value_ok (Some v)\<close> Cons.prems(5), of "length (serials (map Some vs)) + n1" "\<not> value_same v w \<or> pk \<noteq> 0"] Cons.prems(7) by auto
  obtain b2' where b2: "(if \<not> value_same v w then sessionAppendCol granted False w (b2, SQLITE_OK)
      else sessionAppendByte granted 0 (b2, SQLITE_OK)) = (b2', SQLITE_OK)" "buffer_ok b2'"
      "aBuf b2' = aBuf b2 @ serial (if \<not> value_same v w then Some w else None)"
      "nBuf b2' + (length (serials (map Some row')) + n2) + 9 \<le> SESSION_MAX_BUFFER_SZ"
    using append_col [OF \<open>value_ok (Some w)\<close> Cons.prems(6), of "length (serials (map Some row')) + n2" "\<not> value_same v w"] Cons.prems(8) row by auto
  from Cons.IH [of row' pks' b1' b2' "noop \<and> value_same v w"] Cons.prems b1 b2 row pks
  obtain c1 c2 where c: "sessionAppendUpdate_cols granted False False (zip row' pks') (serials (map Some vs) @ r) b1' b2' SQLITE_OK (noop \<and> value_same v w) =
      Some (c1, c2, SQLITE_OK, (noop \<and> value_same v w) \<and> list_all2 value_same vs row')" "buffer_ok c1" "buffer_ok c2"
    "aBuf c1 = aBuf b1' @ serials (update_old pks' vs row')" "aBuf c2 = aBuf b2' @ serials (update_new vs row')"
    "nBuf c1 + n1 + 9 \<le> SESSION_MAX_BUFFER_SZ"
    by auto
  have "sessionAppendUpdate_cols granted False False (zip row pks) (serials (map Some (v # vs)) @ r) b1 b2 SQLITE_OK noop =
      Some (c1, c2, SQLITE_OK, noop \<and> list_all2 value_same (v # vs) row)"
    using b1(1) b2(1) c(1)
    by (simp add: row pks sessionAppendUpdate_changed_serial [OF \<open>value_ok (Some v)\<close>] memread_appendI)
  moreover have "aBuf c1 = aBuf b1 @ serials (update_old pks (v # vs) row)"
    "aBuf c2 = aBuf b2 @ serials (update_new (v # vs) row)"
    using b1(3) b2(3) c(4,5) by (auto simp: row pks)
  ultimately show ?case using c by blast
qed (auto)

lemma buffer_ok_empty: "buffer_ok \<lparr>aBuf = [], nAlloc = 0\<rparr>"
  by (simp add: buffer_ok_def)

lemma buffer_ok_take: "buffer_ok p \<Longrightarrow> buffer_ok (p\<lparr>aBuf := take n (aBuf p)\<rparr>)"
  by (auto simp: buffer_ok_def)

lemma append_op_bytes:
  assumes "buffer_ok b" "nBuf b + 2 + n + 9 \<le> SESSION_MAX_BUFFER_SZ"
  obtains b' where "sessionAppendByte granted y (sessionAppendByte granted x (b, SQLITE_OK)) = (b', SQLITE_OK)"
    "buffer_ok b'" "aBuf b' = aBuf b @ [x, y]" "nBuf b' + n + 9 \<le> SESSION_MAX_BUFFER_SZ"
proof -
  have "appends (\<lambda>st. sessionAppendByte granted y (sessionAppendByte granted x st)) [x, y]"
    using appends_comp [OF sessionAppendByte_appends [of granted x, OF TrueI] sessionAppendByte_appends [of granted y, OF TrueI]]
    by simp
  from appendsD [OF this assms(1), of "2 + n"] assms(2) that show thesis by auto
qed

lemma update_bytes_length:
  "length vs = length row \<Longrightarrow> length pks = length vs \<Longrightarrow>
   length (serials (update_old pks vs row)) \<le> length (serials (map Some vs))"
  "length vs = length row \<Longrightarrow> length (serials (update_new vs row)) \<le> length (serials (map Some row))"
proof -
  have 1: "1 \<le> length (serial v)" for v using length_serial_Some [of v] by linarith
  show "length vs = length row \<Longrightarrow> length pks = length vs \<Longrightarrow>
      length (serials (update_old pks vs row)) \<le> length (serials (map Some vs))"
  proof (induction vs row arbitrary: pks rule: list_induct2)
    case (Cons v vs w row)
    then obtain pk pks' where pks: "pks = pk # pks'" by (cases pks) auto
    then show ?case using 1 [of "Some v"] Cons.IH [of pks'] Cons.prems by auto
  qed (simp add: update_old_def)
  show "length vs = length row \<Longrightarrow> length (serials (update_new vs row)) \<le> length (serials (map Some row))"
  proof (induction vs row rule: list_induct2)
    case (Cons v vs w row)
    then show ?case using 1 [of "Some w"] by (auto intro: add_mono)
  qed simp
qed

lemma sessionAppendUpdate_writes:
  assumes "aRecord p = serials (map Some vs)" "length row = length vs" "length pks = length vs"
    "list_all (\<lambda>v. value_ok (Some v)) vs" "list_all (\<lambda>v. value_ok (Some v)) row"
  shows "writes (2 + length (aRecord p) + length (serials (map Some row)))
     (if list_all2 value_same vs row then []
      else [SQLITE_UPDATE, of_bool (bIndirect p)] @ serials (update_old pks vs row) @ serials (update_new vs row))
     (\<lambda>b. sessionAppendUpdate granted False b False row p pks)"
  unfolding writes_def
proof (intro allI impI, elim conjE)
  fix b let ?new = "length (serials (map Some row))"
  assume b: "buffer_ok b" and room: "nBuf b + (2 + length (aRecord p) + ?new) + 9 \<le> SESSION_MAX_BUFFER_SZ"
  obtain b0 where b0: "sessionAppendByte granted (of_bool (bIndirect p)) (sessionAppendByte granted SQLITE_UPDATE (b, SQLITE_OK)) =
      (b0, SQLITE_OK)" "buffer_ok b0" "aBuf b0 = aBuf b @ [SQLITE_UPDATE, of_bool (bIndirect p)]"
      "nBuf b0 + (length (aRecord p) + ?new) + 9 \<le> SESSION_MAX_BUFFER_SZ"
    using append_op_bytes [OF b, of "length (aRecord p) + ?new"] room by (auto simp: add.assoc)
  have "nBuf b0 + length (serials (map Some vs)) + ?new + 9 \<le> SESSION_MAX_BUFFER_SZ"
      "nBuf \<lparr>aBuf = [], nAlloc = 0\<rparr> + ?new + 0 + 9 \<le> SESSION_MAX_BUFFER_SZ"
    using b0(4) assms(1) by simp_all
  from sessionAppendUpdate_cols_serials [OF assms(2-5) b0(2) buffer_ok_empty this, of "[]" True] assms(1)
  obtain b1 b2 where c: "sessionAppendUpdate_cols granted False False (zip row pks) (aRecord p) b0 \<lparr>aBuf = [], nAlloc = 0\<rparr> SQLITE_OK True =
      Some (b1, b2, SQLITE_OK, list_all2 value_same vs row)" "buffer_ok b1"
      "aBuf b1 = aBuf b0 @ serials (update_old pks vs row)" "aBuf b2 = serials (update_new vs row)"
      "nBuf b1 + ?new + 9 \<le> SESSION_MAX_BUFFER_SZ"
    by auto
  show "\<exists>p'. sessionAppendUpdate granted False b False row p pks = Some (p', SQLITE_OK) \<and> buffer_ok p' \<and>
      aBuf p' = aBuf b @ (if list_all2 value_same vs row then []
        else [SQLITE_UPDATE, of_bool (bIndirect p)] @ serials (update_old pks vs row) @ serials (update_new vs row))"
  proof (cases "list_all2 value_same vs row")
    case True
    then show ?thesis
      using b0 c buffer_ok_take [OF c(2), of "nBuf b"]
      by (auto simp: sessionAppendUpdate_def split: prod.splits)
  next
    case False
    obtain b3 where "sessionAppendBlob granted (aBuf b2) (b1, SQLITE_OK) = (b3, SQLITE_OK)" "buffer_ok b3"
        "aBuf b3 = aBuf b1 @ aBuf b2"
      using appendsD [OF sessionAppendBlob_appends [of granted "aBuf b2", OF TrueI] c(2,5)]
        update_bytes_length(2) [of vs row] assms(2) c(4) by auto
    then show ?thesis using False b0 c by (auto simp: sessionAppendUpdate_def split: prod.splits)
  qed
qed

lemma append_row_appends:
  "list_all (\<lambda>v. value_ok (Some v)) row \<Longrightarrow> appends (append_row granted False row) (serials (map Some row))"
proof (induction row)
  case (Cons v row)
  have "appends (sessionAppendCol granted False v) (serial (Some v))"
    using Cons.prems sessionAppendCol_appends [of granted v] by simp
  from appends_comp [OF this Cons.IH] Cons.prems
  have "appends (\<lambda>st. append_row granted False row (sessionAppendCol granted False v st)) (serials (map Some (v # row)))"
    by simp
  then show ?case by (rule appends_cong) (simp add: append_row_def)
next
  case Nil
  show ?case by (rule appends_cong [of "\<lambda>st. st"]) (simp_all add: append_row_def appends_id)
qed

lemma sessionAppendTableHdr_appends:
  assumes "nCol pTab = length (abPK pTab)" "nCol pTab \<le> 65536"
  shows "appends (sessionAppendTableHdr granted False pTab) (0x54 # enc_header (zName pTab) (abPK pTab))"
proof -
  have "appends (sessionAppendVarint granted (int (nCol pTab))) (sessionVarintPut (int (nCol pTab)))"
    using assms(2) by (intro sessionAppendVarint_appends) simp_all
  from appends_comp [OF appends_comp [OF appends_comp [OF sessionAppendByte_appends [of granted "0x54", OF TrueI] this]
        sessionAppendBlob_appends [of granted "abPK pTab", OF TrueI]]
      sessionAppendBlob_appends [of granted "zName pTab @ [0]", OF TrueI]]
  have "appends (\<lambda>st. sessionAppendTableHdr granted False pTab st) (0x54 # enc_header (zName pTab) (abPK pTab))"
    unfolding sessionAppendTableHdr_def using assms(1) by (simp add: enc_header_def)
  then show ?thesis by simp
qed

lemma writesD:
  assumes "writes w bs g" "buffer_ok p" "nBuf p + w + 9 \<le> SESSION_MAX_BUFFER_SZ"
  obtains p' where "g p = Some (p', SQLITE_OK)" "buffer_ok p'" "aBuf p' = aBuf p @ bs"
  using assms unfolding writes_def by blast

lemma appends_writes: "appends f bs \<Longrightarrow> length bs \<le> w \<Longrightarrow> writes w bs (\<lambda>b. Some (f (b, SQLITE_OK)))"
  unfolding writes_def using appendsD by (metis (no_types, lifting))

lemma writes_cong: "writes w bs g \<Longrightarrow> (\<And>b. h b = g b) \<Longrightarrow> writes w bs h"
  by (simp add: writes_def)

lemma recorded_Some:
  assumes "change_recorded db pTab p" "op p \<noteq> SQLITE_INSERT"
  shows "recorded (nCol pTab) p = map Some (map the (recorded (nCol pTab) p))"
proof -
  have "None \<notin> set (recorded (nCol pTab) p)" using assms by (simp add: change_recorded_def)
  then show ?thesis by (intro nth_equalityI) (simp_all, metis nth_mem option.collapse)
qed

text \<open>The body of the loop, with the code that \<open>sqlite3_reset\<close> returns taken out.\<close>

lemma generate_change_row:
  assumes "length (abPK pTab) = nCol pTab" "change_recorded db pTab p"
  shows "generate_change granted False db False pTab p b =
      (case current_row db pTab p of
          StepRow cols \<Rightarrow>
            if op p = SQLITE_INSERT
            then Some (append_row granted False (take (nCol pTab) cols)
                   (sessionAppendByte granted (of_bool (bIndirect p)) (sessionAppendByte granted SQLITE_INSERT (b, SQLITE_OK))))
            else sessionAppendUpdate granted False b False cols p (abPK pTab)
        | _ \<Rightarrow>
            if op p \<noteq> SQLITE_INSERT then sessionAppendDelete granted b False p (nCol pTab) (abPK pTab)
            else Some (b, SQLITE_OK))"
proof -
  have r: "aRecord p = serials (recorded (nCol pTab) p)" "length (recorded (nCol pTab) p) = nCol pTab"
      "list_all value_ok (recorded (nCol pTab) p)"
      "list_all (\<lambda>v. v \<noteq> None \<and> v \<noteq> Some VNull) (pk_values (abPK pTab) (recorded (nCol pTab) p))"
    using assms by (auto simp: change_recorded_def record_values_def)
  have "sessionSelectBind 0 (take (nCol pTab) (abPK pTab)) (aRecord p) =
      Some (key_binds 0 (abPK pTab) (recorded (nCol pTab) p))"
    using sessionSelectBind_serials [of _ "abPK pTab" 0 "[]"] r assms(1) by simp
  moreover have "(case current_row db pTab p of StepError e \<Rightarrow> e | _ \<Rightarrow> SQLITE_OK) = SQLITE_OK"
    using assms(2) by (auto simp: change_recorded_def split: step_result.splits)
  moreover have "x \<bind> (\<lambda>(b, rc). Some (b, if rc = SQLITE_OK then SQLITE_OK else rc)) = x"
    for x :: "(session_buffer \<times> rc) option" by (cases x) auto
  ultimately show ?thesis
    unfolding generate_change_def Let_def current_row_def [symmetric] by (simp only: Option.bind.simps current_row_def [symmetric])
qed

lemma insert_writes:
  assumes "list_all (\<lambda>v. value_ok (Some v)) row" "2 + length (serials (map Some row)) \<le> w"
  shows "writes w (SQLITE_INSERT # ind # serials (map Some row))
    (\<lambda>b. Some (append_row granted False row (sessionAppendByte granted ind (sessionAppendByte granted SQLITE_INSERT (b, SQLITE_OK)))))"
  using appends_writes [OF appends_comp [OF sessionAppendByte_appends [of granted SQLITE_INSERT, OF TrueI]
      appends_comp [OF sessionAppendByte_appends [of granted ind, OF TrueI] append_row_appends [OF assms(1)]]], of w] assms(2)
  by simp

lemma sessionAppendDelete_writes:
  assumes "2 + length (aRecord p) \<le> w"
  shows "writes w (SQLITE_DELETE # of_bool (bIndirect p) # aRecord p)
    (\<lambda>b. sessionAppendDelete granted b False p n pks)"
  using appends_writes [OF appends_comp [OF sessionAppendByte_appends [of granted SQLITE_DELETE, OF TrueI]
      appends_comp [OF sessionAppendByte_appends [of granted "of_bool (bIndirect p)", OF TrueI]
        sessionAppendBlob_appends [of granted "aRecord p", OF TrueI]]], of w] assms
  by (simp add: sessionAppendDelete_def Let_def)

lemma generate_change_writes:
  assumes t: "length (abPK pTab) = nCol pTab" and p: "change_recorded db pTab p"
  shows "writes (change_work db pTab p) (enc_changes (diff_change (abPK pTab) p (current_row db pTab p)))
    (generate_change granted False db False pTab p)"
proof -
  let ?r = "recorded (nCol pTab) p" and ?g = "generate_change granted False db False pTab p"
  have r: "aRecord p = serials ?r" "length ?r = nCol pTab" "list_all value_ok ?r"
    using p by (auto simp: change_recorded_def record_values_def)
  note gen = generate_change_row [OF t p]
  consider (ins) row where "current_row db pTab p = StepRow row" "op p = SQLITE_INSERT"
    | (upd) row where "current_row db pTab p = StepRow row" "op p \<noteq> SQLITE_INSERT"
    | (none) "current_row db pTab p = StepDone" "op p = SQLITE_INSERT"
    | (del) "current_row db pTab p = StepDone" "op p \<noteq> SQLITE_INSERT"
    using p by (cases "current_row db pTab p") (auto simp: change_recorded_def)
  then show ?thesis
  proof cases
    case ins
    then have row: "length row = nCol pTab" "list_all (\<lambda>v. value_ok (Some v)) row"
      using p by (auto simp: change_recorded_def)
    then have "?g b = Some (append_row granted False row
        (sessionAppendByte granted (of_bool (bIndirect p)) (sessionAppendByte granted SQLITE_INSERT (b, SQLITE_OK))))" for b
      using gen ins by simp
    then show ?thesis
      using writes_cong [OF insert_writes [OF row(2)]] ins
      by (simp add: change_work_def diff_change_def Let_def enc_change_def)
  next
    case upd
    then have row: "length row = nCol pTab" "list_all (\<lambda>v. value_ok (Some v)) row"
      using p by (auto simp: change_recorded_def)
    obtain vs where vs: "?r = map Some vs" using recorded_Some [OF p upd(2)] by blast
    then have ok: "list_all (\<lambda>v. value_ok (Some v)) vs" "map the ?r = vs" "length vs = nCol pTab"
      "aRecord p = serials (map Some vs)"
      using r by (simp_all add: list_all_iff)
    have "?g b = sessionAppendUpdate granted False b False row p (abPK pTab)" for b
      using gen upd by simp
    moreover have "length row = length vs" "length (abPK pTab) = length vs" using row ok(3) t by simp_all
    ultimately have w: "writes (2 + length (aRecord p) + length (serials (map Some row)))
        (if list_all2 value_same vs row then []
         else [SQLITE_UPDATE, of_bool (bIndirect p)] @ serials (update_old (abPK pTab) vs row) @ serials (update_new vs row)) ?g"
      using writes_cong [OF sessionAppendUpdate_writes [OF ok(4) _ _ ok(1) row(2)]] by metis
    have "enc_changes (diff_change (abPK pTab) p (StepRow row)) =
        (if list_all2 value_same vs row then []
         else [SQLITE_UPDATE, of_bool (bIndirect p)] @ serials (update_old (abPK pTab) vs row) @ serials (update_new vs row))"
      using upd(2) ok(2) t by (simp add: diff_change_def Let_def enc_change_def)
    then show ?thesis using w upd(1) by (simp add: change_work_def)
  next
    case none
    then have "?g b = Some (b, SQLITE_OK)" for b using gen by simp
    then show ?thesis using none by (simp add: writes_def diff_change_def Let_def)
  next
    case del
    obtain vs where vs: "?r = map Some vs" using recorded_Some [OF p del(2)] by blast
    have "?g b = sessionAppendDelete granted b False p (nCol pTab) (abPK pTab)" for b
      using gen del by simp
    from writes_cong [OF sessionAppendDelete_writes this, of "change_work db pTab p"] show ?thesis
      using del vs r(1) t by (simp add: change_work_def diff_change_def Let_def enc_change_def comp_def)
  qed
qed

lemma diff_change_work:
  assumes "length (abPK pTab) = nCol pTab" "change_recorded db pTab p"
  shows "length (enc_changes (diff_change (abPK pTab) p (current_row db pTab p))) \<le> change_work db pTab p"
proof -
  let ?r = "recorded (nCol pTab) p"
  have r: "aRecord p = serials ?r" "length ?r = nCol pTab"
    using assms(2) by (auto simp: change_recorded_def record_values_def)
  have vs: "map Some (map the ?r) = ?r" if "op p \<noteq> SQLITE_INSERT"
    using recorded_Some [OF assms(2) that] by simp
  show ?thesis
  proof (cases "current_row db pTab p")
    case (StepRow row)
    then have row: "length row = nCol pTab" using assms(2) by (auto simp: change_recorded_def)
    have "length (serials (update_new (map the ?r) row)) \<le> length (serials (map Some row))"
      using row r(2) by (intro update_bytes_length) simp
    moreover have "length (serials (update_old (abPK pTab) (map the ?r) row)) \<le> length (aRecord p)"
      if "op p \<noteq> SQLITE_INSERT"
      using update_bytes_length(1) [of "map the ?r" row "abPK pTab"] row r(2) assms(1)
      unfolding vs [OF that] r(1) by simp
    ultimately show ?thesis
      using StepRow assms(1) by (auto simp: change_work_def diff_change_def Let_def enc_change_def)
  qed (use assms r vs in \<open>auto simp: change_work_def diff_change_def Let_def enc_change_def\<close>)
qed

lemma generate_changes_writes:
  assumes "length (abPK pTab) = nCol pTab" "list_all (change_recorded db pTab) ps"
  shows "writes (sum_list (map (change_work db pTab) ps))
    (enc_changes (concat (map (\<lambda>p. diff_change (abPK pTab) p (current_row db pTab p)) ps)))
    (\<lambda>b. generate_changes granted False db False pTab ps (b, SQLITE_OK))"
  using assms(2)
proof (induction ps)
  case (Cons p ps)
  let ?d = "\<lambda>p. diff_change (abPK pTab) p (current_row db pTab p)"
  have p: "writes (change_work db pTab p) (enc_changes (?d p)) (generate_change granted False db False pTab p)"
    using generate_change_writes [OF assms(1)] Cons.prems by simp
  have le: "length (enc_changes (?d p)) \<le> change_work db pTab p"
    using Cons.prems diff_change_work [OF assms(1), of db p] by simp
  show ?case unfolding writes_def
  proof (intro allI impI, elim conjE)
    fix b assume b: "buffer_ok b" "nBuf b + sum_list (map (change_work db pTab) (p # ps)) + 9 \<le> SESSION_MAX_BUFFER_SZ"
    then obtain b1 where b1: "generate_change granted False db False pTab p b = Some (b1, SQLITE_OK)"
        "buffer_ok b1" "aBuf b1 = aBuf b @ enc_changes (?d p)"
      using writesD [OF p b(1)] by auto
    moreover obtain b2 where "generate_changes granted False db False pTab ps (b1, SQLITE_OK) = Some (b2, SQLITE_OK)"
        "buffer_ok b2" "aBuf b2 = aBuf b1 @ enc_changes (concat (map ?d ps))"
      using writesD [OF Cons.IH b1(2)] Cons.prems b(2) b1(3) le by auto
    ultimately show "\<exists>p'. generate_changes granted False db False pTab (p # ps) (b, SQLITE_OK) = Some (p', SQLITE_OK) \<and>
        buffer_ok p' \<and> aBuf p' = aBuf b @ enc_changes (concat (map ?d (p # ps)))"
      by simp
  qed
qed (simp add: writes_def)

lemma sessionReinitTable_recorded:
  assumes "table_recorded db s pTab" "sess_rc s = SQLITE_OK"
  shows "sessionReinitTable (schema db) s pTab = (SQLITE_OK, s, pTab)"
proof -
  obtain ti where ti: "tableInfo (schema db) (zName pTab) (bImplicitPK s) = Inr ti" "ti_nCol ti = nCol pTab"
      "ti_nTotalCol ti = nTotalCol pTab" "ti_abPK ti = abPK pTab" "ti_aiIdx ti = aiIdx pTab"
      "bRowid pTab = (bImplicitPK s \<and> ti_bRowid ti)"
    using assms(1) by (auto simp: table_recorded_def split: sum.splits)
  have "pk_flags_kept pTab ti" using ti by (simp add: pk_flags_kept_def list_all_iff)
  then show ?thesis using ti assms(2) by (simp add: sessionReinitTable_def Let_def)
qed

lemma diff_table_work:
  assumes "table_recorded db s pTab"
  shows "length (enc_changeset (table_content db pTab)) \<le> table_work db pTab"
proof -
  have "length (enc_changes (concat (map (\<lambda>p. diff_change (abPK pTab) p (current_row db pTab p)) ps))) \<le>
      sum_list (map (change_work db pTab) ps)" if "list_all (change_recorded db pTab) ps" for ps
    using that
  proof (induction ps)
    case (Cons p ps)
    then show ?case using diff_change_work [of pTab db p] assms by (simp add: table_recorded_def add_mono)
  qed simp
  then show ?thesis using assms
    by (simp add: table_content_def table_work_def table_recorded_def enc_table_def diff_table_def)
qed

lemma generate_table_writes:
  assumes t: "table_recorded db s pTab" and s: "sess_rc s = SQLITE_OK"
    and b: "buffer_ok b" "nBuf b + table_work db pTab + 9 \<le> SESSION_MAX_BUFFER_SZ"
  shows "\<exists>b'. generate_table granted False db False s pTab b = Some (b', SQLITE_OK, s, pTab) \<and> buffer_ok b' \<and>
    aBuf b' = aBuf b @ enc_changeset (table_content db pTab)"
proof -
  let ?hdr = "0x54 # enc_header (zName pTab) (abPK pTab)" and ?ps = "concat (apChange pTab)"
  have t': "length (abPK pTab) = nCol pTab" "nCol pTab \<le> 65536" "length (apChange pTab) = nChange pTab"
      "selectRc db pTab = SQLITE_OK" "list_all (change_recorded db pTab) ?ps"
    using t by (auto simp: table_recorded_def)
  have work: "table_work db pTab = length ?hdr + sum_list (map (change_work db pTab) ?ps)"
    by (simp add: table_work_def enc_table_def)
  obtain b1 where b1: "sessionAppendTableHdr granted False pTab (b, SQLITE_OK) = (b1, SQLITE_OK)" "buffer_ok b1"
      "aBuf b1 = aBuf b @ ?hdr"
    using appendsD [OF sessionAppendTableHdr_appends [OF t'(1) [symmetric] t'(2)] b] work by auto
  have "nBuf b1 + sum_list (map (change_work db pTab) ?ps) + 9 \<le> SESSION_MAX_BUFFER_SZ"
    using b(2) b1(3) work by simp
  then obtain b2 where b2: "generate_changes granted False db False pTab ?ps (b1, SQLITE_OK) = Some (b2, SQLITE_OK)"
      "buffer_ok b2" "aBuf b2 = aBuf b1 @ enc_changes (diff_table db pTab)"
    using writesD [OF generate_changes_writes [OF t'(1,5)] b1(2)] unfolding diff_table_def by blast
  have "enc_changes (diff_table db pTab) = [] \<longleftrightarrow> diff_table db pTab = []"
    by (cases "diff_table db pTab") (simp_all add: enc_change_def)
  then have "nBuf b2 = nBuf b1 \<longleftrightarrow> diff_table db pTab = []" using b2(3) by simp
  then show ?thesis
    using b1 b2 t' sessionReinitTable_recorded [OF t s] buffer_ok_take [OF b2(2), of "nBuf b"]
    by (auto simp: generate_table_def Let_def table_content_def enc_table_def)
qed

lemma generate_tables_writes:
  assumes "list_all (\<lambda>t. nEntry t = 0 \<or> table_recorded db s t) ts" "sess_rc s = SQLITE_OK"
    "buffer_ok b" "nBuf b + sum_list (map (\<lambda>t. if nEntry t \<noteq> 0 then table_work db t else 0) ts) + 9 \<le> SESSION_MAX_BUFFER_SZ"
  shows "\<exists>b'. generate_tables granted False db False s ts (b, SQLITE_OK) = Some (b', SQLITE_OK, s, ts) \<and> buffer_ok b' \<and>
    aBuf b' = aBuf b @ enc_changeset (concat (map (\<lambda>t. if nEntry t \<noteq> 0 then table_content db t else []) ts))"
  using assms(1,3,4)
proof (induction ts arbitrary: b)
  case (Cons t ts)
  let ?c = "if nEntry t \<noteq> 0 then table_content db t else []"
  let ?w = "sum_list (map (\<lambda>t. if nEntry t \<noteq> 0 then table_work db t else 0) ts)"
  obtain b1 where b1: "(if nEntry t \<noteq> 0 then generate_table granted False db False s t b
      else Some (b, SQLITE_OK, s, t)) = Some (b1, SQLITE_OK, s, t)" "buffer_ok b1" "aBuf b1 = aBuf b @ enc_changeset ?c"
    using generate_table_writes [of db s t b] Cons.prems assms(2) by (cases "nEntry t = 0") auto
  have "length (enc_changeset ?c) \<le> (if nEntry t \<noteq> 0 then table_work db t else 0)"
    using diff_table_work [of db s t] Cons.prems(1) by auto
  then have "nBuf b1 + ?w + 9 \<le> SESSION_MAX_BUFFER_SZ" using Cons.prems(3) b1(3) by simp
  then obtain b2 where "generate_tables granted False db False s ts (b1, SQLITE_OK) = Some (b2, SQLITE_OK, s, ts)"
      "buffer_ok b2" "aBuf b2 = aBuf b1 @ enc_changeset (concat (map (\<lambda>t. if nEntry t \<noteq> 0 then table_content db t else []) ts))"
    using Cons.IH [OF _ b1(2)] Cons.prems(1) by auto
  then show ?case using b1 by auto
qed simp

lemma sqlite3session_changeset_content:
  assumes "session_recorded db s"
  shows "sqlite3session_changeset granted False db s = Some (SQLITE_OK, enc_changeset (session_content db s), s)"
proof -
  obtain b where "generate_tables granted False db False s (pTable s) (\<lparr>aBuf = [], nAlloc = 0\<rparr>, SQLITE_OK) =
      Some (b, SQLITE_OK, s, pTable s)" "aBuf b = enc_changeset (session_content db s)"
    using generate_tables_writes [of db s "pTable s", OF _ _ buffer_ok_empty] assms
    unfolding session_recorded_def session_content_def by auto
  then show ?thesis using assms
    by (simp add: sqlite3session_changeset_def sessionGenerateChangeset_def session_recorded_def)
qed

lemma update_vectors:
  assumes "length row = length vs" "length pks = length vs"
    "list_all (\<lambda>v. value_ok (Some v)) vs" "list_all (\<lambda>v. value_ok (Some v)) row"
  shows "length (update_old pks vs row) = length pks" "length (update_new vs row) = length pks"
    "list_all value_ok (update_old pks vs row)" "list_all value_ok (update_new vs row)"
    "i < length pks \<Longrightarrow> pks ! i = 0 \<Longrightarrow> update_new vs row ! i = None \<Longrightarrow> update_old pks vs row ! i = None"
  using assms unfolding update_old_def update_new_def
  by (auto simp: list_all_length split: if_splits)

lemma diff_change_wf:
  assumes "length (abPK pTab) = nCol pTab" "change_recorded db pTab p"
  shows "list_all (change_wf (abPK pTab)) (diff_change (abPK pTab) p (current_row db pTab p))"
proof -
  let ?r = "recorded (nCol pTab) p"
  have r: "length ?r = nCol pTab" "list_all value_ok ?r"
    using assms(2) by (auto simp: change_recorded_def record_values_def)
  have vs: "list_all (\<lambda>v. value_ok (Some v)) (map the ?r)" if "op p \<noteq> SQLITE_INSERT"
    using r(2) recorded_Some [OF assms(2) that] by (metis (mono_tags, lifting) list.pred_map list.pred_mono_strong comp_apply)
  show ?thesis
  proof (cases "current_row db pTab p")
    case (StepRow row)
    then have row: "length row = nCol pTab" "list_all (\<lambda>v. value_ok (Some v)) row"
      using assms(2) by (auto simp: change_recorded_def)
    show ?thesis
    proof (cases "op p = SQLITE_INSERT")
      case True
      then show ?thesis using StepRow row assms(1)
        by (simp add: diff_change_def Let_def change_wf_def list_all_iff)
    next
      case False
      note u = update_vectors [of row "map the ?r" "abPK pTab", OF _ _ vs [OF False] row(2)]
      have "length row = length (map the ?r)" "length (abPK pTab) = length (map the ?r)" using row r assms(1) by simp_all
      from u [OF this] show ?thesis using StepRow False assms(1)
        by (auto simp: diff_change_def Let_def change_wf_def)
    qed
  next
    case StepDone
    then show ?thesis using assms(1) r vs
      by (auto simp: diff_change_def Let_def change_wf_def list_all_iff)
  next
    case (StepError e)
    then show ?thesis using assms(2) by (simp add: change_recorded_def)
  qed
qed

lemma session_content_wf:
  assumes "session_recorded db s"
  shows "list_all table_wf (session_content db s)"
proof -
  have "list_all table_wf (table_content db t)" if "table_recorded db s t" for t
    using that diff_change_wf [of t db]
    by (auto simp: table_recorded_def table_content_def table_wf_def diff_table_def list_all_iff)
  then show ?thesis using assms
    by (auto simp: session_recorded_def session_content_def list_all_iff)
qed

section \<open>Example\<close>

text \<open>A table with the rows 7 and 8 recorded; row 7 has a new value and row 8 is gone.\<close>

definition example_update :: session_change where
  "example_update = \<lparr>op = SQLITE_UPDATE, bIndirect = False, nRecordField = 2, nMaxSize = 0,
     aRecord = serials [Some (VInteger 7), Some (VText [0x61])]\<rparr>"

definition example_delete :: session_change where
  "example_delete = \<lparr>op = SQLITE_DELETE, bIndirect = False, nRecordField = 2, nMaxSize = 0,
     aRecord = serials [Some (VInteger 8), Some VNull]\<rparr>"

definition example_session :: session where
  "example_session = \<lparr>zDb = [0x6d], bEnableSize = False, bEnable = True, bIndirectAll = False,
     bAutoAttach = True, bImplicitPK = False, sess_rc = SQLITE_OK, xTableFilter = None, nMaxChangesetSize = 0,
     pTable = [example_table\<lparr>nEntry := 2, nChange := 1, apChange :=
       [[example_update, example_delete]]\<rparr>]\<rparr>"

definition example_db :: session_db where
  "example_db = \<lparr>savepointRc = SQLITE_OK,
     schema = \<lparr>tableInfo = (\<lambda>_ _. Inr \<lparr>ti_nCol = 2, ti_nTotalCol = 2, ti_aiIdx = [0, 1], ti_abPK = [1, 0], ti_bRowid = False\<rparr>),
       dfltRow = (\<lambda>_. Inr [VNull, VNull])\<rparr>,
     selectRc = (\<lambda>_. SQLITE_OK),
     selectRow = (\<lambda>_ binds. if binds = [(1, VInteger 7)] then StepRow [VInteger 7, VText [0x62]] else StepDone)\<rparr>"

definition example_content :: "table_changes list" where
  "example_content = [\<lparr>tc_name = [0x74], tc_pk = [1, 0], tc_changes =
     [\<lparr>ch_op = SQLITE_UPDATE, ch_indirect = 0, ch_old = [Some (VInteger 7), Some (VText [0x61])], ch_new = [None, Some (VText [0x62])]\<rparr>,
      \<lparr>ch_op = SQLITE_DELETE, ch_indirect = 0, ch_old = [Some (VInteger 8), Some VNull], ch_new = [None, None]\<rparr>]\<rparr>]"

lemma example_change_simps:
  "op example_update = SQLITE_UPDATE" "\<not> bIndirect example_update"
  "op example_delete = SQLITE_DELETE" "\<not> bIndirect example_delete"
  "aRecord example_update = serials [Some (VInteger 7), Some (VText [0x61])]"
  "aRecord example_delete = serials [Some (VInteger 8), Some VNull]"
  by (simp_all add: example_update_def example_delete_def)

lemma example_recorded:
  "recorded 2 example_update = [Some (VInteger 7), Some (VText [0x61])]"
  "recorded (Suc (Suc 0)) example_update = [Some (VInteger 7), Some (VText [0x61])]"
  "recorded 2 example_delete = [Some (VInteger 8), Some VNull]"
  "recorded (Suc (Suc 0)) example_delete = [Some (VInteger 8), Some VNull]"
  by (rule recorded_serials; simp add: example_update_def example_delete_def)+

lemmas example_simps = example_change_simps example_recorded example_session_def example_table_def example_db_def current_row_def

lemma example_session_content: "session_content example_db example_session = example_content"
  by (simp add: example_simps session_content_def table_content_def diff_table_def diff_change_def Let_def
      update_old_def update_new_def example_content_def)

lemma example_session_recorded: "session_recorded example_db example_session"
  by (simp add: example_simps session_recorded_def table_recorded_def change_recorded_def record_values_def
      table_work_def change_work_def enc_table_def enc_header_def sessionVarintPut_def putVarint32_def)

section \<open>Properties\<close>

text \<open>C5: the changeset of a session is the encoding of the difference between the recorded rows and
  the rows now in the database: an insert for each row that is new, an update with the changed
  values for each row that differs, a delete with the old values for each row that is gone, in
  the order of the tables and buckets, and nothing for a row that is as it was.\<close>

theorem changeset_is_difference:
  assumes "session_recorded db s"
  shows "sqlite3session_changeset granted False db s = Some (SQLITE_OK, enc_changeset (session_content db s), s) \<and>
    list_all table_wf (session_content db s)"
  using sqlite3session_changeset_content [OF assms] session_content_wf [OF assms] by simp

theorem changeset_is_difference_witness:
  "sqlite3session_changeset granted False example_db example_session =
    Some (SQLITE_OK, enc_changeset example_content, example_session)"
  using changeset_is_difference [OF example_session_recorded] by (simp add: example_session_content)

end
