(* ===== verification/SessionTracking.thy ===== *)
theory SessionTracking
  imports ChangesetGenerate
begin

unbundle bit_operations_syntax

text \<open>
  What recording achieves: a table of a session holds one change for each row that was touched,
  made when the row was first touched and keeping the values the row had then.
\<close>

section \<open>Specification\<close>

abbreviation changes :: "session_table \<Rightarrow> session_change list" where
  "changes pTab \<equiv> concat (apChange pTab)"

abbreviation pk_flags :: "session_table \<Rightarrow> bytes" where
  "pk_flags pTab \<equiv> take (nCol pTab) (abPK pTab)"

text \<open>The primary key of a recorded row.\<close>

definition key_of :: "session_table \<Rightarrow> session_change \<Rightarrow> sqlite3_value option list" where
  "key_of pTab p = pk_values (pk_flags pTab) (recorded (nCol pTab) p)"

text \<open>Values as SQLite stores them: no NaN (value_ok) and no negative zero.\<close>

definition stored :: "sqlite3_value \<Rightarrow> bool" where
  "stored v \<longleftrightarrow> value_ok (Some v) \<and> v \<noteq> VFloat 0x8000000000000000"

text \<open>A change as it is recorded: with all values, or for an insert those of the key only.\<close>

definition record_complete :: "session_table \<Rightarrow> session_change \<Rightarrow> bool" where
  "record_complete pTab p \<longleftrightarrow>
     record_values pTab (aRecord p) (recorded (nCol pTab) p) \<and>
     list_all (\<lambda>v. v = None \<or> stored (the v)) (recorded (nCol pTab) p) \<and>
     op p \<in> {SQLITE_INSERT, SQLITE_UPDATE, SQLITE_DELETE} \<and>
     (op p = SQLITE_INSERT \<or> None \<notin> set (recorded (nCol pTab) p))"

text \<open>The invariant: every change in the bucket of its key, no key twice.\<close>

definition track_inv :: "session_table \<Rightarrow> bool" where
  "track_inv pTab \<longleftrightarrow>
     buckets_ok pTab \<and> length (aiIdx pTab) = nCol pTab \<and>
     nEntry pTab = length (changes pTab) \<and> list_all (record_complete pTab) (changes pTab) \<and>
     distinct (map (key_of pTab) (changes pTab))"

text \<open>The row that a callback is about: the new one of an insert, the old one otherwise.\<close>

definition hook_row :: "preupdate_hook \<Rightarrow> session_table \<Rightarrow> u8 \<Rightarrow> sqlite3_value list \<Rightarrow> bool" where
  "hook_row hook pTab opc row \<longleftrightarrow>
     length row = nCol pTab \<and> list_all stored row \<and> VNull \<notin> set (pk_values (pk_flags pTab) row) \<and>
     (\<forall>i < nCol pTab. (if opc = SQLITE_INSERT then xNew hook else xOld hook) (aiIdx pTab ! i) = Inr (row ! i))"

text \<open>What is recorded of a row: all of it, or of an inserted row the key.\<close>

definition first_touch :: "session_table \<Rightarrow> u8 \<Rightarrow> sqlite3_value list \<Rightarrow> sqlite3_value option list" where
  "first_touch pTab opc row =
     (if opc = SQLITE_INSERT then map2 (\<lambda>pk v. if pk \<noteq> 0 then Some v else None) (pk_flags pTab) row else map Some row)"

section \<open>Lemmas\<close>

lemma and_positive_zero:
  assumes "d AND 0x7FFFFFFFFFFFFFFF = (0 :: u64)"
  shows "d = 0 \<or> d = 0x8000000000000000"
proof -
  have "(0x7FFFFFFFFFFFFFFF :: u64) = mask 63" by (simp add: mask_eq_exp_minus_1)
  then have "take_bit 63 d = 0" using assms by (simp add: take_bit_eq_mask)
  then have "unat d mod 2 ^ 63 = 0" by (metis take_bit_eq_mod unat_0 unsigned_take_bit_eq)
  then obtain q where q: "unat d = 2 ^ 63 * q" by (auto simp: mod_eq_0_iff_dvd dvd_def)
  have "unat d < 2 ^ 64" using unsigned_less [of d] by simp
  then have "q = 0 \<or> q = 1" using q by auto
  then show ?thesis
    using q by (auto simp: unat_eq_zero word_unat_eq_iff)
qed

lemma value_same_stored: "stored v \<Longrightarrow> stored w \<Longrightarrow> value_same v w \<longleftrightarrow> v = w"
proof (cases v; cases w)
  fix r s assume v: "v = VFloat r" "w = VFloat s" and st: "stored v" "stored w"
  show "value_same v w \<longleftrightarrow> v = w"
    using v st and_positive_zero [of r] and_positive_zero [of s] by (auto simp: stored_def double_eq_def)
qed auto

lemma table_cols_flags:
  "nCol pTab \<le> length (abPK pTab) \<Longrightarrow> length (aiIdx pTab) = nCol pTab \<Longrightarrow> map fst (table_cols pTab) = pk_flags pTab"
  "nCol pTab \<le> length (abPK pTab) \<Longrightarrow> length (aiIdx pTab) = nCol pTab \<Longrightarrow> length (table_cols pTab) = nCol pTab"
  by (simp_all add: table_cols_def)

lemma hook_row_cols:
  assumes "hook_row hook pTab opc row" "nCol pTab \<le> length (abPK pTab)" "length (aiIdx pTab) = nCol pTab"
  shows "list_all2 (\<lambda>(pk, i) v. pk \<noteq> 0 \<longrightarrow> (if opc = SQLITE_INSERT then xNew hook else xOld hook) i = Inr v) (table_cols pTab) row"
  using assms by (auto simp: hook_row_def list_all2_conv_all_nth table_cols_def)

text \<open>The bucket of a row is that of its key.\<close>

definition key_bucket :: "session_table \<Rightarrow> sqlite3_value list \<Rightarrow> nat" where
  "key_bucket pTab k = unat (foldl value_hash 0 k) mod nChange pTab"

lemma sessionPreupdateHash_row:
  assumes "hook_row hook pTab opc row" "nCol pTab \<le> length (abPK pTab)" "length (aiIdx pTab) = nCol pTab" "\<not> bRowid pTab"
  shows "sessionPreupdateHash False hook iRowid pTab (opc = SQLITE_INSERT) =
    Inr (key_bucket pTab (pk_values (pk_flags pTab) row), False)"
  using sessionPreupdateHash_cols_values [OF hook_row_cols [OF assms(1-3)], of 0 False] assms table_cols_flags(1)
  by (simp add: sessionPreupdateHash_def key_bucket_def hook_row_def)

lemma key_of_Some:
  assumes "record_complete pTab p"
  shows "key_of pTab p = map Some (map the (key_of pTab p))" "VNull \<notin> set (map the (key_of pTab p))"
    "list_all stored (map the (key_of pTab p))"
proof -
  have k: "v \<noteq> None \<and> v \<noteq> Some VNull" if "v \<in> set (key_of pTab p)" for v
    using assms that by (auto simp: record_complete_def record_values_def key_of_def list_all_iff)
  have "map (Some \<circ> the) (key_of pTab p) = key_of pTab p" by (rule map_idI) (use k in fastforce)
  then show "key_of pTab p = map Some (map the (key_of pTab p))" by simp
  show "VNull \<notin> set (map the (key_of pTab p))"
    using k by (metis (no_types, lifting) image_iff list.set_map option.collapse)
  have "v \<in> set (recorded (nCol pTab) p)" if "v \<in> set (key_of pTab p)" for v
    using that by (auto simp: key_of_def pk_values_def dest: set_zip_rightD)
  then show "list_all stored (map the (key_of pTab p))"
    using k assms by (auto simp: record_complete_def list_all_iff)
qed

lemma sessionPreupdateEqual_row:
  assumes "hook_row hook pTab opc row" "nCol pTab \<le> length (abPK pTab)" "length (aiIdx pTab) = nCol pTab" "\<not> bRowid pTab"
    and p: "record_complete pTab p"
  shows "sessionPreupdateEqual hook iRowid pTab p opc = Some (key_of pTab p = map Some (pk_values (pk_flags pTab) row))"
proof -
  let ?k = "map the (key_of pTab p)"
  have r: "aRecord p = serials (recorded (nCol pTab) p)" "length (recorded (nCol pTab) p) = nCol pTab"
      "list_all value_ok (recorded (nCol pTab) p)"
    using p by (auto simp: record_complete_def record_values_def)
  note k = key_of_Some [OF p]
  have row: "list_all stored (pk_values (pk_flags pTab) row)"
    using assms(1) by (auto simp: hook_row_def pk_values_def list_all_iff dest: set_zip_rightD)
  have "sessionPreupdateEqual_cols (if opc = SQLITE_INSERT then xNew hook else xOld hook) (table_cols pTab) (aRecord p) =
      Some (list_all2 value_same (pk_values (pk_flags pTab) row) ?k)"
    using sessionPreupdateEqual_cols_serials [OF r(3) hook_row_cols [OF assms(1-3)] _ k(2), of "[]"]
      table_cols_flags [OF assms(2,3)] r k(1) by (simp add: key_of_def)
  moreover have "list_all2 value_same (pk_values (pk_flags pTab) row) ?k \<longleftrightarrow> pk_values (pk_flags pTab) row = ?k"
    using row k(3) value_same_stored by (auto simp: list_all2_conv_all_nth list_all_length intro!: nth_equalityI)
  moreover have "pk_values (pk_flags pTab) row = ?k \<longleftrightarrow> key_of pTab p = map Some (pk_values (pk_flags pTab) row)"
    using k(1) by (metis list.map_comp map_idI comp_apply option.sel)
  ultimately show ?thesis using assms(4) by (simp add: sessionPreupdateEqual_def)
qed

lemma find_change_total:
  assumes "\<And>p. p \<in> set ps \<Longrightarrow> eq p = Some (P p)"
  shows "find_change eq ps = Some (if list_ex P ps then Some (length (takeWhile (\<lambda>p. \<not> P p) ps)) else None)"
  using assms by (induction ps) auto

lemma new_record_row:
  assumes "list_all2 (\<lambda>(pk, i) v. (opc \<noteq> SQLITE_INSERT \<longrightarrow> xOld hook i = Inr v) \<and> (opc = SQLITE_INSERT \<longrightarrow> xNew hook i = Inr v) \<and>
      value_ok (Some v)) cols row"
  shows "new_record False hook opc cols =
    Inr (serials (if opc = SQLITE_INSERT then map2 (\<lambda>pk v. if pk \<noteq> 0 then Some v else None) (map fst cols) row else map Some row))"
  using assms
proof (induction cols arbitrary: row)
  case (Cons c cols)
  obtain pk i where c: "c = (pk, i)" by (cases c)
  obtain v row' where row: "row = v # row'" using Cons.prems by (cases row) auto
  have "new_field False hook opc c = Inr (serial (if opc = SQLITE_INSERT \<and> pk = 0 then None else Some v))"
    using Cons.prems by (auto simp: c row new_field_def Let_def sessionSerializeValue_serial)
  then show ?case using Cons by (auto simp: row c)
qed simp

lemma pk_values_first_touch:
  "length row = nCol pTab \<Longrightarrow> nCol pTab \<le> length (abPK pTab) \<Longrightarrow>
   pk_values (pk_flags pTab) (first_touch pTab opc row) = map Some (pk_values (pk_flags pTab) row)"
proof -
  have "pk_values pks (map2 (\<lambda>pk v. if pk \<noteq> 0 then Some v else None) pks row) = map Some (pk_values pks row)" for pks
    by (induction pks row rule: list_induct2') auto
  then show ?thesis by (simp add: first_touch_def pk_values_map)
qed

lemma first_touch_record:
  assumes "hook_row hook pTab opc row" "nCol pTab \<le> length (abPK pTab)"
    and "aRecord p = serials (first_touch pTab opc row)" "op p = opc" "opc \<in> {SQLITE_INSERT, SQLITE_UPDATE, SQLITE_DELETE}"
  shows "recorded (nCol pTab) p = first_touch pTab opc row" "record_complete pTab p"
    "key_of pTab p = map Some (pk_values (pk_flags pTab) row)"
proof -
  let ?f = "first_touch pTab opc row"
  have row: "length row = nCol pTab" "list_all stored row" using assms(1) by (auto simp: hook_row_def)
  have len: "length ?f = nCol pTab" using row assms(2) by (simp add: first_touch_def)
  have st: "v = None \<or> stored (the v)" if "v \<in> set ?f" for v
    using that row by (auto simp: first_touch_def list_all_iff dest!: set_zip_rightD split: if_splits)
  then have ok: "list_all value_ok ?f"
    unfolding list_all_iff stored_def by (metis option.collapse value_ok_simps(1))
  then show r: "recorded (nCol pTab) p = ?f"
    using assms(3) len by (intro recorded_serials) simp_all
  show key: "key_of pTab p = map Some (pk_values (pk_flags pTab) row)"
    using r row assms(2) by (simp add: key_of_def pk_values_first_touch)
  have "record_values pTab (aRecord p) ?f"
    using len ok assms(1,3) key r by (auto simp: record_values_def key_of_def hook_row_def list_all_iff)
  then show "record_complete pTab p"
    using r st assms(4,5) by (auto simp: record_complete_def list_all_iff first_touch_def)
qed

lemma new_change_row:
  assumes "hook_row hook pTab opc row" "nCol pTab \<le> length (abPK pTab)" "length (aiIdx pTab) = nCol pTab" "\<not> bRowid pTab"
  shows "new_change False hook s pTab iRowid opc = Inr
    \<lparr>op = opc, bIndirect = (bIndirectAll s \<or> xDepth hook \<noteq> 0), nRecordField = nCol pTab, nMaxSize = 0,
     aRecord = serials (first_touch pTab opc row)\<rparr>"
proof -
  have "list_all2 (\<lambda>(pk, i) v. (opc \<noteq> SQLITE_INSERT \<longrightarrow> xOld hook i = Inr v) \<and> (opc = SQLITE_INSERT \<longrightarrow> xNew hook i = Inr v) \<and>
      value_ok (Some v)) (table_cols pTab) row"
    using assms by (auto simp: hook_row_def list_all2_conv_all_nth table_cols_def list_all_length stored_def)
  from new_record_row [OF this] assms(4) table_cols_flags(1) [OF assms(2,3)] show ?thesis
    by (auto simp: new_change_def first_touch_def)
qed

text \<open>A change without its flag, which recording may clear.\<close>

definition direct :: "session_change \<Rightarrow> session_change" where
  "direct p = p\<lparr>bIndirect := False\<rparr>"

lemma direct_simps [simp]:
  "aRecord (direct p) = aRecord p" "op (direct p) = op p" "recorded n (direct p) = recorded n p"
  "key_of pTab (direct p) = key_of pTab p" "record_complete pTab (direct p) = record_complete pTab p"
  "change_ok pTab (direct p) = change_ok pTab p"
  by (simp_all add: direct_def recorded_def key_of_def record_complete_def change_ok_def)

lemma table_update_simps [simp]:
  "key_of (pTab\<lparr>nEntry := k\<rparr>) = key_of pTab" "key_of (pTab\<lparr>apChange := ap\<rparr>) = key_of pTab"
  "record_complete (pTab\<lparr>nEntry := k\<rparr>) = record_complete pTab" "record_complete (pTab\<lparr>apChange := ap\<rparr>) = record_complete pTab"
  "change_ok (pTab\<lparr>nEntry := k\<rparr>) = change_ok pTab" "change_ok (pTab\<lparr>apChange := ap\<rparr>) = change_ok pTab"
  "sessionChangeHash (pTab\<lparr>nEntry := k\<rparr>) = sessionChangeHash pTab"
  "sessionChangeHash (pTab\<lparr>apChange := ap\<rparr>) = sessionChangeHash pTab"
  by (auto simp: fun_eq_iff key_of_def record_complete_def change_ok_def record_values_def sessionChangeHash_def)

lemma track_inv_direct:
  assumes "track_inv pTab" "map (map direct) ap = map (map direct) (apChange pTab)"
  shows "track_inv (pTab\<lparr>apChange := ap\<rparr>)"
proof -
  have len: "length ap = length (apChange pTab)" using assms(2) map_eq_imp_length_eq by blast
  have nth: "map direct (ap ! i) = map direct (apChange pTab ! i)" if "i < length ap" for i
    using arg_cong [OF assms(2), of "\<lambda>x. x ! i"] that len by simp
  have all: "map direct (concat ap) = map direct (changes pTab)"
    using arg_cong [OF assms(2), of concat] by (simp add: map_concat)
  have pred: "(\<forall>p \<in> set xs. P p) \<longleftrightarrow> (\<forall>p \<in> set ys. P p)"
    if "map direct xs = map direct ys" "\<And>p. P (direct p) = P p" for xs ys P
    using arg_cong [OF that(1), of "list_all P"] that(2) by (simp add: list_all_iff list.pred_map)
  have "in_buckets pTab (nChange pTab) ap"
    using assms(1) pred [OF nth, of _ "\<lambda>p. change_ok pTab p \<and> sessionChangeHash pTab False (aRecord p) (nChange pTab) = Some _"] len
    unfolding track_inv_def buckets_ok_in_buckets in_buckets_def by auto
  moreover have "list_all (record_complete pTab) (concat ap)"
    using assms(1) pred [OF all, of "record_complete pTab"] unfolding track_inv_def list_all_iff by auto
  moreover have "map (key_of pTab) (concat ap) = map (key_of pTab) (changes pTab)"
    using arg_cong [OF all, of "map (key_of pTab)"] by (simp add: comp_def)
  moreover have "length (concat ap) = length (changes pTab)" using all map_eq_imp_length_eq by blast
  ultimately show ?thesis
    using assms(1) by (simp add: track_inv_def buckets_ok_in_buckets in_buckets_def)
qed

lemma key_bucket_hash:
  assumes "record_complete pTab p" "nCol pTab \<le> length (abPK pTab)"
  shows "sessionChangeHash pTab False (aRecord p) (nChange pTab) = Some (key_bucket pTab (map the (key_of pTab p)))"
  using record_values_hash [of pTab "aRecord p" "recorded (nCol pTab) p" "nChange pTab"] assms
  by (simp add: record_complete_def key_bucket_def key_of_def)

lemma track_inv_insert:
  assumes inv: "track_inv pTab" and p: "record_complete pTab p" and new: "key_of pTab p \<notin> key_of pTab ` set (changes pTab)"
    and h: "h = key_bucket pTab (map the (key_of pTab p))" and n: "0 < nChange pTab"
  shows "track_inv (pTab\<lparr>nEntry := nEntry pTab + 1, apChange := (apChange pTab)[h := p # apChange pTab ! h]\<rparr>)"
    "mset (concat ((apChange pTab)[h := p # apChange pTab ! h])) = add_mset p (mset (changes pTab))"
proof -
  let ?ap = "(apChange pTab)[h := p # apChange pTab ! h]"
  have b: "in_buckets pTab (nChange pTab) (apChange pTab)" "nCol pTab \<le> length (abPK pTab)"
    using inv by (auto simp: track_inv_def buckets_ok_in_buckets)
  have hb: "h < nChange pTab" using n h by (simp add: key_bucket_def)
  have "change_ok pTab p" using p by (auto simp: record_complete_def change_ok_def)
  then have ib: "in_buckets pTab (nChange pTab) ?ap"
    using b key_bucket_hash [OF p b(2)] h hb by (auto simp: in_buckets_def nth_list_update)
  show m: "mset (concat ?ap) = add_mset p (mset (changes pTab))"
    using b(1) hb by (intro mset_concat_update) (simp add: in_buckets_def)
  then have "mset (concat ?ap) = mset (p # changes pTab)" by simp
  then have "length (concat ?ap) = Suc (length (changes pTab))" "set (concat ?ap) = insert p (set (changes pTab))"
      "distinct (map (key_of pTab) (concat ?ap)) = distinct (map (key_of pTab) (p # changes pTab))"
    by (metis length_Cons mset_eq_length, metis list.simps(15) mset_eq_setD,
        metis mset_eq_imp_distinct_iff mset_map)
  then show "track_inv (pTab\<lparr>nEntry := nEntry pTab + 1, apChange := ?ap\<rparr>)"
    using inv ib p new by (simp add: track_inv_def buckets_ok_in_buckets in_buckets_def list_all_iff)
qed

lemma bucket_of_key:
  assumes "track_inv pTab" "p \<in> set (changes pTab)"
  shows "p \<in> set (apChange pTab ! key_bucket pTab (map the (key_of pTab p)))"
proof -
  have b: "in_buckets pTab (nChange pTab) (apChange pTab)" "nCol pTab \<le> length (abPK pTab)" "record_complete pTab p"
    using assms by (auto simp: track_inv_def buckets_ok_in_buckets list_all_iff)
  obtain i where i: "i < length (apChange pTab)" "p \<in> set (apChange pTab ! i)"
    using assms(2) by (metis UN_E in_set_conv_nth set_concat)
  then have "sessionChangeHash pTab False (aRecord p) (nChange pTab) = Some i"
    using b(1) by (auto simp: in_buckets_def)
  then show ?thesis using key_bucket_hash [OF b(3,2)] i(2) by simp
qed

lemma map_direct_update: "map direct (xs[i := direct (xs ! i)]) = map direct xs"
proof -
  have "direct (direct p) = direct p" for p by (simp add: direct_def)
  then show ?thesis by (cases "i < length xs") (simp_all add: map_update list_update_same_conv list_update_beyond)
qed

lemma map_direct_bucket:
  assumes "map direct b = map direct (ap ! h)"
  shows "map (map direct) (ap[h := b]) = map (map direct) ap" "map direct (concat (ap[h := b])) = map direct (concat ap)"
proof -
  show *: "map (map direct) (ap[h := b]) = map (map direct) ap"
    using assms by (cases "h < length ap") (simp_all add: map_update list_update_same_conv list_update_beyond)
  show "map direct (concat (ap[h := b])) = map direct (concat ap)"
    using arg_cong [OF *, of concat] by (simp only: map_concat)
qed

text \<open>Recording a touched row.\<close>

lemma sessionPreupdateRecord_track:
  assumes inv: "track_inv pTab" "0 < nChange pTab" and t: "\<not> bRowid pTab" "\<not> bEnableSize s"
    and row: "hook_row hook pTab opc row" and opc: "opc \<in> {SQLITE_INSERT, SQLITE_UPDATE, SQLITE_DELETE}"
  defines "k \<equiv> map Some (pk_values (pk_flags pTab) row)"
  shows "\<exists>pTab'. sessionPreupdateRecord False bw hook s pTab iRowid opc = Some (SQLITE_OK, 0, pTab') \<and> track_inv pTab' \<and>
    (if k \<in> key_of pTab ` set (changes pTab)
     then map direct (changes pTab') = map direct (changes pTab)
     else \<exists>ind. mset (changes pTab') = add_mset
       \<lparr>op = opc, bIndirect = ind, nRecordField = nCol pTab, nMaxSize = 0, aRecord = serials (first_touch pTab opc row)\<rparr>
       (mset (changes pTab)))"
proof -
  let ?h = "key_bucket pTab (pk_values (pk_flags pTab) row)" and ?P = "\<lambda>p. key_of pTab p = k"
  let ?b = "apChange pTab ! ?h"
  have b: "nCol pTab \<le> length (abPK pTab)" "length (aiIdx pTab) = nCol pTab" "length (apChange pTab) = nChange pTab"
    using inv by (auto simp: track_inv_def buckets_ok_def)
  have h: "?h < length (apChange pTab)" using inv(2) b(3) by (simp add: key_bucket_def)
  then have sub: "set ?b \<subseteq> set (changes pTab)" by (auto dest: nth_mem)
  have hash: "sessionPreupdateHash False hook iRowid pTab (opc = SQLITE_INSERT) = Inr (?h, False)"
    using sessionPreupdateHash_row [OF row b(1,2) t(1)] .
  have "sessionPreupdateEqual hook iRowid pTab p opc = Some (?P p)" if "p \<in> set ?b" for p
    using sessionPreupdateEqual_row [OF row b(1,2) t(1)] inv(1) that sub by (auto simp: track_inv_def list_all_iff k_def)
  then have find: "find_change (\<lambda>pC. sessionPreupdateEqual hook iRowid pTab pC opc) ?b =
      Some (if list_ex ?P ?b then Some (length (takeWhile (\<lambda>p. \<not> ?P p) ?b)) else None)"
    by (rule find_change_total)
  have mem: "k \<in> key_of pTab ` set (changes pTab) \<longleftrightarrow> list_ex ?P ?b"
  proof
    assume "k \<in> key_of pTab ` set (changes pTab)"
    then obtain p where p: "p \<in> set (changes pTab)" "key_of pTab p = k" by (metis imageE)
    then have "p \<in> set ?b" using bucket_of_key [OF inv(1) p(1)] by (simp add: k_def comp_def)
    then show "list_ex ?P ?b" using p(2) by (simp add: list_ex_iff) (metis p(2))
  next
    assume "list_ex ?P ?b"
    then obtain p where "p \<in> set ?b" "key_of pTab p = k" by (meson list_ex_iff)
    then show "k \<in> key_of pTab ` set (changes pTab)" using sub by (metis image_eqI subsetD)
  qed
  show ?thesis
  proof (cases "list_ex ?P ?b")
    case True
    let ?i = "length (takeWhile (\<lambda>p. \<not> ?P p) ?b)"
    let ?b' = "if bIndirect (?b ! ?i) \<and> xDepth hook = 0 \<and> \<not> bIndirectAll s then ?b[?i := direct (?b ! ?i)] else ?b"
    have "sessionPreupdateRecord False bw hook s pTab iRowid opc = Some (SQLITE_OK, 0, pTab\<lparr>apChange := (apChange pTab)[?h := ?b']\<rparr>)"
      using hash find True t(2) by (simp add: sessionPreupdateRecord_def Let_def direct_def)
    moreover have "map direct ?b' = map direct ?b" by (simp add: map_direct_update)
    note map_direct_bucket [OF this]
    moreover note track_inv_direct [OF inv(1) this(1)]
    ultimately show ?thesis using True mem by (simp del: map_concat)
  next
    case False
    let ?p = "\<lparr>op = opc, bIndirect = (bIndirectAll s \<or> xDepth hook \<noteq> 0), nRecordField = nCol pTab, nMaxSize = 0,
      aRecord = serials (first_touch pTab opc row)\<rparr>"
    note p = first_touch_record [OF row b(1), of ?p, simplified, OF opc [simplified]]
    have "sessionPreupdateRecord False bw hook s pTab iRowid opc =
        Some (SQLITE_OK, 0, pTab\<lparr>nEntry := nEntry pTab + 1, apChange := (apChange pTab)[?h := ?p # ?b]\<rparr>)"
      using hash find False t(2) new_change_row [OF row b(1,2) t(1)] by (simp add: sessionPreupdateRecord_def Let_def)
    moreover have "?h = key_bucket pTab (map the (key_of pTab ?p))" using p(3) by (simp add: comp_def)
    moreover have "key_of pTab ?p \<notin> key_of pTab ` set (changes pTab)" using p(3) False mem by (simp add: k_def)
    ultimately show ?thesis
      using track_inv_insert [OF inv(1) p(2) _ _ inv(2), of ?h] False mem by (simp del: map_concat)
  qed
qed

lemma table_grow_simps [simp]:
  "key_of (pTab\<lparr>nChange := k\<rparr>) = key_of pTab"
  "record_complete (pTab\<lparr>nChange := k\<rparr>) = record_complete pTab"
  "first_touch (pTab\<lparr>nChange := k\<rparr>) = first_touch pTab" "first_touch (pTab\<lparr>apChange := ap\<rparr>) = first_touch pTab"
  "hook_row hook (pTab\<lparr>nChange := k\<rparr>) = hook_row hook pTab" "hook_row hook (pTab\<lparr>apChange := ap\<rparr>) = hook_row hook pTab"
  by (auto simp: fun_eq_iff key_of_def record_complete_def record_values_def first_touch_def hook_row_def)

lemma sessionGrowHash_track:
  assumes "track_inv pTab"
  obtains n ap where "sessionGrowHash True False pTab = Some (SQLITE_OK, pTab\<lparr>nChange := n, apChange := ap\<rparr>)"
    "track_inv (pTab\<lparr>nChange := n, apChange := ap\<rparr>)" "mset (concat ap) = mset (changes pTab)" "0 < n"
proof -
  obtain pTab' where g: "sessionGrowHash True False pTab = Some (SQLITE_OK, pTab')" "buckets_ok pTab'"
      "mset (changes pTab') = mset (changes pTab)" "0 < nChange pTab'"
    using sessionGrowHash_ok [of pTab] assms unfolding track_inv_def by metis
  then have eq: "pTab' = pTab\<lparr>nChange := nChange pTab', apChange := apChange pTab'\<rparr>"
    by (auto simp: sessionGrowHash_def Let_def bind_eq_Some_conv split: if_splits)
  have "length (changes pTab') = length (changes pTab)" "set (changes pTab') = set (changes pTab)"
      "distinct (map (key_of pTab) (changes pTab')) = distinct (map (key_of pTab) (changes pTab))"
    using g(3) by (metis mset_eq_length, metis mset_eq_setD, metis mset_eq_imp_distinct_iff mset_map)
  moreover have "buckets_ok (pTab\<lparr>nChange := nChange pTab', apChange := apChange pTab'\<rparr>)" using g(2) eq by metis
  ultimately have "track_inv (pTab\<lparr>nChange := nChange pTab', apChange := apChange pTab'\<rparr>)"
    using assms by (simp add: track_inv_def list_all_iff)
  then show thesis using that g eq by metis
qed

lemma sessionPreupdateOneChange_track:
  assumes s: "sess_rc s = SQLITE_OK" "\<not> bEnableSize s"
    and t: "nCol pTab \<noteq> 0" "abPK pTab \<noteq> []" "nTotalCol pTab = xCount hook" "\<not> bStat1 pTab" "\<not> bRowid pTab"
    and inv: "track_inv pTab" and row: "hook_row hook pTab opc row"
    and opc: "opc \<in> {SQLITE_INSERT, SQLITE_UPDATE, SQLITE_DELETE}"
  defines "k \<equiv> map Some (pk_values (pk_flags pTab) row)"
  shows "\<exists>pTab'. sessionPreupdateOneChange api False bw hook opc iRowid s pTab = Some (s, pTab') \<and> track_inv pTab' \<and>
    (if k \<in> key_of pTab ` set (changes pTab)
     then image_mset direct (mset (changes pTab')) = image_mset direct (mset (changes pTab))
     else \<exists>ind. mset (changes pTab') = add_mset
       \<lparr>op = opc, bIndirect = ind, nRecordField = nCol pTab, nMaxSize = 0, aRecord = serials (first_touch pTab opc row)\<rparr>
       (mset (changes pTab)))"
proof -
  obtain n ap where g: "sessionGrowHash True False pTab = Some (SQLITE_OK, pTab\<lparr>nChange := n, apChange := ap\<rparr>)"
    "track_inv (pTab\<lparr>nChange := n, apChange := ap\<rparr>)" "mset (concat ap) = mset (changes pTab)" "0 < n"
    using sessionGrowHash_track [OF inv] .
  have keys: "key_of pTab ` set (concat ap) = key_of pTab ` set (changes pTab)" using g(3) by (metis mset_eq_setD)
  let ?t = "pTab\<lparr>nChange := n, apChange := ap\<rparr>"
  obtain pTab' where r: "sessionPreupdateRecord False bw hook s ?t iRowid opc = Some (SQLITE_OK, 0, pTab')" "track_inv pTab'"
    "if k \<in> key_of pTab ` set (concat ap) then map direct (changes pTab') = map direct (concat ap)
     else \<exists>ind. mset (changes pTab') = add_mset
       \<lparr>op = opc, bIndirect = ind, nRecordField = nCol pTab, nMaxSize = 0, aRecord = serials (first_touch pTab opc row)\<rparr>
       (mset (concat ap))"
    using sessionPreupdateRecord_track [OF g(2) _ _ s(2) _ opc, of hook row bw iRowid] g(4) t(5) row
    by (auto simp: k_def cong: if_cong)
  have same: "s\<lparr>sess_rc := SQLITE_OK\<rparr> = s" "s\<lparr>nMaxChangesetSize := nMaxChangesetSize s\<rparr> = s"
    using s(1) by (cases s; simp)+
  have "sessionPreupdateOneChange api False bw hook opc iRowid s pTab = Some (s, pTab')"
    using s t g(1) r(1)
    by (simp add: sessionPreupdateOneChange_def sessionInitTable_def session_hook_def Let_def same)
  moreover have "image_mset direct (mset (changes pTab')) = image_mset direct (mset (changes pTab))"
    if "map direct (changes pTab') = map direct (concat ap)" using arg_cong [OF that, of mset] g(3) by (simp only: mset_map)
  ultimately show ?thesis using r(2,3) keys g(3) by auto
qed

lemma track_inv_empty:
  "length (aiIdx pTab) = nCol pTab \<Longrightarrow> nCol pTab \<le> length (abPK pTab) \<Longrightarrow> nEntry pTab = 0 \<Longrightarrow> nChange pTab = 0 \<Longrightarrow>
   apChange pTab = [] \<Longrightarrow> track_inv pTab"
  by (simp add: track_inv_def buckets_ok_def)

section \<open>Properties\<close>

text \<open>C6: a session records each touched row once.  When SQLite reports that a row is inserted, updated
  or deleted, then if the table has a change with the key of that row, the recorded changes stay
  as they are (but for the flag that a change is indirect); otherwise one change is added, with the
  operation and the values the row had before (for an insert its key).  The invariant is kept:
  every change is in the bucket of its key, no key occurs twice, and the changes are counted.\<close>

theorem row_recorded_once:
  assumes "sess_rc s = SQLITE_OK" and "\<not> bEnableSize s"
    and "nCol pTab \<noteq> 0" and "abPK pTab \<noteq> []" and "nTotalCol pTab = xCount hook" and "\<not> bStat1 pTab" and "\<not> bRowid pTab"
    and "track_inv pTab" and "hook_row hook pTab opc row"
    and "opc \<in> {SQLITE_INSERT, SQLITE_UPDATE, SQLITE_DELETE}"
  shows "\<exists>pTab'. sessionPreupdateOneChange api False bw hook opc iRowid s pTab = Some (s, pTab') \<and> track_inv pTab' \<and>
    (if map Some (pk_values (pk_flags pTab) row) \<in> key_of pTab ` set (changes pTab)
     then image_mset direct (mset (changes pTab')) = image_mset direct (mset (changes pTab))
     else \<exists>ind. mset (changes pTab') = add_mset
       \<lparr>op = opc, bIndirect = ind, nRecordField = nCol pTab, nMaxSize = 0, aRecord = serials (first_touch pTab opc row)\<rparr>
       (mset (changes pTab)))"
  using sessionPreupdateOneChange_track [OF assms] .

theorem row_recorded_once_witness:
  "\<exists>pTab' ind. sessionPreupdateOneChange (schema example_db) False False example_hook SQLITE_UPDATE 0 example_session
      (example_table\<lparr>nChange := 0\<rparr>) = Some (example_session, pTab') \<and> track_inv pTab' \<and>
    mset (changes pTab') = {#\<lparr>op = SQLITE_UPDATE, bIndirect = ind, nRecordField = 2, nMaxSize = 0,
      aRecord = serials [Some (VInteger 7), Some (VText [0x61])]\<rparr>#}"
proof -
  let ?t = "example_table\<lparr>nChange := 0\<rparr>"
  have "hook_row example_hook ?t SQLITE_UPDATE [VInteger 7, VText [0x61]]"
    by (auto simp: hook_row_def example_table_def example_hook_def stored_def less_2_cases_iff)
  moreover have "track_inv ?t" by (rule track_inv_empty) (simp_all add: example_table_def)
  ultimately have "\<exists>pTab'. sessionPreupdateOneChange (schema example_db) False False example_hook SQLITE_UPDATE 0 example_session ?t =
      Some (example_session, pTab') \<and> track_inv pTab' \<and>
      (\<exists>ind. mset (changes pTab') = {#\<lparr>op = SQLITE_UPDATE, bIndirect = ind, nRecordField = 2, nMaxSize = 0,
        aRecord = serials (first_touch ?t SQLITE_UPDATE [VInteger 7, VText [0x61]])\<rparr>#})"
    using row_recorded_once [of example_session ?t example_hook SQLITE_UPDATE "[VInteger 7, VText [0x61]]" "schema example_db" False 0]
    by (simp add: example_session_def example_table_def example_hook_def)
  then show ?thesis by (simp add: first_touch_def)
qed

end
