(* ===== verification/JsData.thy ===== *)
theory JsData
  imports SessionRecord "HOL-Library.Log_Nat" "HOL-Library.AList"
begin

unbundle bit_operations_syntax

text \<open>
  JavaScript values and their conversion to and from SQL values: util/data.cpp and
  util/row-builder.cpp, on the functions of sqlite3.c that bind and read values.

  V8 is a parameter: the two functions that convert a string to and from UTF-8.  The database
  encoding is UTF-8.
\<close>

section \<open>Doubles\<close>

text \<open>
  A C cast from \<open>int64_t\<close> to \<open>double\<close> rounds to the nearest double, ties to the even one.
  The mantissa \<open>q\<close> may be rounded up to \<open>2 ^ 53\<close>; the sum then carries into the exponent.
\<close>

definition round_even :: "nat \<Rightarrow> nat \<Rightarrow> nat" where
  "round_even m k =
     (let q = m div 2 ^ k; r = m mod 2 ^ k
      in if 2 * r > 2 ^ k \<or> (2 * r = 2 ^ k \<and> odd q) then q + 1 else q)"

definition double_of_int :: "int \<Rightarrow> u64" where
  "double_of_int i =
     (if i = 0 then 0
      else let m = nat \<bar>i\<bar>;
               e = floorlog 2 m - 1;
               q = (if e \<le> 52 then m * 2 ^ (52 - e) else round_even m (e - 52))
           in word_of_nat ((if i < 0 then 2 ^ 63 else 0) + (e + 1023) * 2 ^ 52 + (q - 2 ^ 52)))"

definition double_exponent :: "u64 \<Rightarrow> nat" where
  "double_exponent d = unat (take_bit 11 (drop_bit 52 d))"

definition double_fraction :: "u64 \<Rightarrow> nat" where
  "double_fraction d = unat (take_bit 52 d)"

text \<open>
  The cast from \<open>double\<close> to \<open>int64_t\<close> drops the fraction.  \<open>None\<close>: the value is not one of the
  type (too large, infinite or not a number), which C++ leaves undefined.
\<close>

definition int64_of_double :: "u64 \<Rightarrow> int option" where
  "int64_of_double d =
     (let x = double_exponent d;
          e = x - 1023;
          m = 2 ^ 52 + double_fraction d;
          t = (if x < 1023 then 0 else if e \<le> 52 then m div 2 ^ (52 - e) else m * 2 ^ (e - 52));
          v = (if bit d 63 then - int t else int t)
      in if x \<noteq> 2047 \<and> - (2 ^ 63) \<le> v \<and> v < 2 ^ 63 then Some v else None)"

section \<open>JavaScript values\<close>

type_synonym js_string = "16 word list"

text \<open>
  The values of V8 the code tells apart.  An element of an array is \<open>None\<close> if reading it throws;
  a property tells what \<open>HasOwnProperty\<close> and \<open>Get\<close> do.  The flag of an object says that it is a
  plain one.  Functions and symbols have an identity only.
\<close>

datatype js_value =
    JsUndefined
  | JsNull
  | JsBoolean bool
  | JsNumber u64
  | JsBigInt int
  | JsString js_string
  | JsSymbol nat
  | JsBuffer bytes
  | JsFunction nat
  | JsArray "js_value option list"
  | JsObject bool "(js_string \<times> js_property) list"
and js_property =
    HasThrows
  | GetThrows
  | Property js_value

record v8_api =
  utf8_value :: "js_string \<Rightarrow> bytes"
  string_from_utf8 :: "bytes \<Rightarrow> js_string"

text \<open>Literals.\<close>

definition lit :: "string \<Rightarrow> bytes" where
  "lit s = map (word_of_nat \<circ> of_char) s"

text \<open>What a method throws: one of the three errors with a message, an SQLite error with its
  code, or an exception of JavaScript code called by it.\<close>

datatype js_error =
    TypeError bytes
  | RangeError bytes
  | PlainError bytes
  | SqliteError bytes rc
  | UserException

section \<open>Prepared statements\<close>

text \<open>
  What the binding functions use of a \<open>Vdbe\<close>: the bound values, the names of the parameters
  (the pairs of the \<open>VList\<close>), whether the statement is in the ready state; and of its
  connection the length limit and the allocator.  The result columns have a name and the name
  of their table, if any; \<open>pResultRow\<close> is the current row.
\<close>

record vdbe =
  aVar :: "sqlite3_value list"
  pVList :: "(nat \<times> bytes) list"
  vdbeReady :: bool
  lengthLimit :: nat
  memOk :: "nat \<Rightarrow> bool"
  colNames :: "bytes list"
  colTables :: "bytes option list"
  pResultRow :: "sqlite3_value list option"

definition sqlite3VListNumToName :: "(nat \<times> bytes) list \<Rightarrow> nat \<Rightarrow> bytes option" where
  "sqlite3VListNumToName pIn iVal = map_of pIn iVal"

definition sqlite3_bind_parameter_count :: "vdbe \<Rightarrow> nat" where
  "sqlite3_bind_parameter_count p = length (aVar p)"

definition sqlite3_bind_parameter_name :: "vdbe \<Rightarrow> nat \<Rightarrow> bytes option" where
  "sqlite3_bind_parameter_name p i = sqlite3VListNumToName (pVList p) i"

definition sqlite3_column_count :: "vdbe \<Rightarrow> nat" where
  "sqlite3_column_count p = length (colNames p)"

text \<open>The index is converted to an unsigned integer, so an index of 0 is out of range too.\<close>

definition vdbeUnbind :: "vdbe \<Rightarrow> u32 \<Rightarrow> rc \<times> vdbe" where
  "vdbeUnbind p i =
     (if \<not> vdbeReady p then (SQLITE_MISUSE, p)
      else if unat i \<ge> length (aVar p) then (SQLITE_RANGE, p)
      else (SQLITE_OK, p\<lparr>aVar := (aVar p)[unat i := VNull]\<rparr>))"

text \<open>The number of bytes before a zero 16-bit unit, at most just above the limit.\<close>

fun strlen16 :: "nat \<Rightarrow> nat \<Rightarrow> bytes \<Rightarrow> nat" where
  "strlen16 iLimit nByte (a # b # z) =
     (if nByte \<le> iLimit \<and> a OR b \<noteq> 0 then strlen16 iLimit (nByte + 2) z else nByte)"
| "strlen16 iLimit nByte z = nByte"

abbreviation SQLITE_UTF8 :: u8 where "SQLITE_UTF8 \<equiv> 1"

text \<open>With \<open>SQLITE_TRANSIENT\<close>; a failure leaves a null in the cell.\<close>

definition sqlite3VdbeMemSetStr :: "vdbe \<Rightarrow> bytes \<Rightarrow> int \<Rightarrow> u8 \<Rightarrow> rc \<times> sqlite3_value" where
  "sqlite3VdbeMemSetStr p z n enc =
     (let nByte = (if n \<ge> 0 then nat n
                   else if enc = SQLITE_UTF8 then length (takeWhile (\<lambda>c. c \<noteq> 0) z)
                   else strlen16 (lengthLimit p) 0 z);
          nAlloc = nByte + (if n \<ge> 0 then 0 else if enc = SQLITE_UTF8 then 1 else 2)
      in if nByte > lengthLimit p then (SQLITE_TOOBIG, VNull)
         else if \<not> memOk p (max nAlloc 32) then (SQLITE_NOMEM, VNull)
         else (SQLITE_OK, if n \<ge> 0 \<and> enc = 0 then VBlob (take nByte z) else VText (take nByte z)))"

definition bindText :: "vdbe \<Rightarrow> nat \<Rightarrow> bytes \<Rightarrow> int \<Rightarrow> u8 \<Rightarrow> rc \<times> vdbe" where
  "bindText p i zData nBytes encoding =
     (case vdbeUnbind p (word_of_nat i - 1) of
        (rc, p) \<Rightarrow>
          if rc = SQLITE_OK then
            (case sqlite3VdbeMemSetStr p zData nBytes encoding of
               (rc, v) \<Rightarrow> (rc, p\<lparr>aVar := (aVar p)[i - 1 := v]\<rparr>))
          else (rc, p))"

definition sqlite3_bind_blob :: "vdbe \<Rightarrow> nat \<Rightarrow> bytes \<Rightarrow> int \<Rightarrow> rc \<times> vdbe" where
  "sqlite3_bind_blob p i zData nBytes = bindText p i zData nBytes 0"

definition sqlite3_bind_text :: "vdbe \<Rightarrow> nat \<Rightarrow> bytes \<Rightarrow> int \<Rightarrow> rc \<times> vdbe" where
  "sqlite3_bind_text p i zData nBytes = bindText p i zData nBytes SQLITE_UTF8"

definition sqlite3_bind_double :: "vdbe \<Rightarrow> nat \<Rightarrow> u64 \<Rightarrow> rc \<times> vdbe" where
  "sqlite3_bind_double p i rValue =
     (case vdbeUnbind p (word_of_nat i - 1) of
        (rc, p) \<Rightarrow>
          if rc = SQLITE_OK then (rc, p\<lparr>aVar := (aVar p)[i - 1 := sqlite3VdbeMemSetDouble rValue]\<rparr>)
          else (rc, p))"

definition sqlite3_bind_int64 :: "vdbe \<Rightarrow> nat \<Rightarrow> u64 \<Rightarrow> rc \<times> vdbe" where
  "sqlite3_bind_int64 p i iValue =
     (case vdbeUnbind p (word_of_nat i - 1) of
        (rc, p) \<Rightarrow>
          if rc = SQLITE_OK then (rc, p\<lparr>aVar := (aVar p)[i - 1 := VInteger iValue]\<rparr>)
          else (rc, p))"

definition sqlite3_bind_null :: "vdbe \<Rightarrow> nat \<Rightarrow> rc \<times> vdbe" where
  "sqlite3_bind_null p i = vdbeUnbind p (word_of_nat i - 1)"

definition sqlite3_clear_bindings :: "vdbe \<Rightarrow> vdbe" where
  "sqlite3_clear_bindings p = p\<lparr>aVar := replicate (length (aVar p)) VNull\<rparr>"

text \<open>A column of the current row, a null if there is none.\<close>

definition columnMem :: "vdbe \<Rightarrow> nat \<Rightarrow> sqlite3_value" where
  "columnMem p i =
     (case pResultRow p of
        Some row \<Rightarrow> if i < sqlite3_column_count p then row ! i else VNull
      | None \<Rightarrow> VNull)"

section \<open>Conversions\<close>

text \<open>
  \<open>JS_VALUE_TO_SQLITE\<close>, with the functions for each type; \<open>None\<close> if no case returns.  The length
  of a buffer is cut to 32 bits by the call, and so is a bigint to 64 bits before it is known
  whether it fits.
\<close>

definition JS_VALUE_TO_SQLITE ::
  "v8_api \<Rightarrow> (u64 \<Rightarrow> 'r) \<Rightarrow> (u64 \<Rightarrow> 'r) \<Rightarrow> (bytes \<Rightarrow> int \<Rightarrow> 'r) \<Rightarrow> (bytes \<Rightarrow> int \<Rightarrow> 'r) \<Rightarrow> 'r \<Rightarrow> js_value \<Rightarrow> 'r option" where
  "JS_VALUE_TO_SQLITE v8 to_double to_int64 to_text to_blob to_null value =
     (case value of
        JsNumber d \<Rightarrow> Some (to_double d)
      | JsBigInt n \<Rightarrow> if - (2 ^ 63) \<le> n \<and> n < 2 ^ 63 then Some (to_int64 (word_of_int n)) else None
      | JsString s \<Rightarrow> (let utf8 = utf8_value v8 s in Some (to_text utf8 (int (length utf8))))
      | JsBuffer b \<Rightarrow> Some (to_blob b (sint (word_of_nat (length b) :: u32)))
      | JsNull \<Rightarrow> Some to_null
      | JsUndefined \<Rightarrow> Some to_null
      | _ \<Rightarrow> None)"

definition SQLITE_VALUE_TO_JS :: "v8_api \<Rightarrow> bool \<Rightarrow> sqlite3_value \<Rightarrow> js_value" where
  "SQLITE_VALUE_TO_JS v8 safe_ints val =
     (case val of
        VInteger i \<Rightarrow> if safe_ints then JsBigInt (sint i) else JsNumber (double_of_int (sint i))
      | VFloat r \<Rightarrow> JsNumber r
      | VText z \<Rightarrow> JsString (string_from_utf8 v8 z)
      | VBlob z \<Rightarrow> JsBuffer z
      | VNull \<Rightarrow> JsNull)"

definition IsBigInt :: "js_value \<Rightarrow> bool" where
  "IsBigInt v \<longleftrightarrow> (case v of JsBigInt _ \<Rightarrow> True | _ \<Rightarrow> False)"

text \<open>The code -1 stands for a value that cannot be bound.\<close>

definition BindValueFromJS :: "v8_api \<Rightarrow> vdbe \<Rightarrow> nat \<Rightarrow> js_value \<Rightarrow> rc \<times> vdbe" where
  "BindValueFromJS v8 p index val =
     (case JS_VALUE_TO_SQLITE v8 (sqlite3_bind_double p index) (sqlite3_bind_int64 p index)
             (sqlite3_bind_text p index) (sqlite3_bind_blob p index) (sqlite3_bind_null p index) val of
        Some r \<Rightarrow> r
      | None \<Rightarrow> (if IsBigInt val then SQLITE_TOOBIG else SQLITE_CODE (-1), p))"

definition GetValueJS :: "v8_api \<Rightarrow> vdbe \<Rightarrow> nat \<Rightarrow> bool \<Rightarrow> js_value" where
  "GetValueJS v8 p column safe_ints = SQLITE_VALUE_TO_JS v8 safe_ints (columnMem p column)"

definition GetArgumentsJS :: "v8_api \<Rightarrow> sqlite3_value list \<Rightarrow> bool \<Rightarrow> js_value list" where
  "GetArgumentsJS v8 values safe_ints = map (SQLITE_VALUE_TO_JS v8 safe_ints) values"

section \<open>Rows\<close>

datatype row_mode = FLAT | PLUCK | EXPAND | RAW

text \<open>Setting a property of an object made by the code replaces the value of an equal name.\<close>

definition set_property :: "js_string \<Rightarrow> js_value \<Rightarrow> js_value \<Rightarrow> js_value" where
  "set_property k v obj =
     (case obj of JsObject plain ps \<Rightarrow> JsObject plain (AList.update k (Property v) ps) | _ \<Rightarrow> obj)"

definition get_property :: "js_value \<Rightarrow> js_string \<Rightarrow> js_value option" where
  "get_property obj k =
     (case obj of
        JsObject _ ps \<Rightarrow> (case map_of ps k of Some (Property v) \<Rightarrow> Some v | _ \<Rightarrow> None)
      | _ \<Rightarrow> None)"

definition Object_New :: "(js_string \<times> js_value) list \<Rightarrow> js_value" where
  "Object_New kvs = fold (\<lambda>(k, v) obj. set_property k v obj) kvs (JsObject True [])"

definition column_key :: "v8_api \<Rightarrow> vdbe \<Rightarrow> nat \<Rightarrow> js_string" where
  "column_key v8 p i = string_from_utf8 v8 (colNames p ! i)"

definition table_key :: "v8_api \<Rightarrow> vdbe \<Rightarrow> nat \<Rightarrow> js_string" where
  "table_key v8 p i = string_from_utf8 v8 (case colTables p ! i of None \<Rightarrow> lit ''$'' | Some t \<Rightarrow> t)"

text \<open>\<open>GetFlatRowJS\<close>: both variants set the columns in order.\<close>

definition GetFlatRowJS :: "v8_api \<Rightarrow> vdbe \<Rightarrow> bool \<Rightarrow> js_value" where
  "GetFlatRowJS v8 p safe_ints =
     Object_New (map (\<lambda>i. (column_key v8 p i, GetValueJS v8 p i safe_ints)) [0..<sqlite3_column_count p])"

definition expand_column :: "v8_api \<Rightarrow> vdbe \<Rightarrow> bool \<Rightarrow> nat \<Rightarrow> js_value \<Rightarrow> js_value" where
  "expand_column v8 p safe_ints i row =
     (let table = table_key v8 p i; column = column_key v8 p i; v = GetValueJS v8 p i safe_ints
      in case get_property row table of
           Some nested \<Rightarrow> set_property table (set_property column v nested) row
         | None \<Rightarrow> set_property table (set_property column v (JsObject True [])) row)"

definition GetExpandedRowJS :: "v8_api \<Rightarrow> vdbe \<Rightarrow> bool \<Rightarrow> js_value" where
  "GetExpandedRowJS v8 p safe_ints =
     fold (expand_column v8 p safe_ints) [0..<sqlite3_column_count p] (JsObject True [])"

definition GetRawRowJS :: "v8_api \<Rightarrow> vdbe \<Rightarrow> bool \<Rightarrow> js_value" where
  "GetRawRowJS v8 p safe_ints =
     JsArray (map (\<lambda>i. Some (GetValueJS v8 p i safe_ints)) [0..<sqlite3_column_count p])"

definition GetRowJS :: "v8_api \<Rightarrow> vdbe \<Rightarrow> bool \<Rightarrow> row_mode \<Rightarrow> js_value" where
  "GetRowJS v8 p safe_ints mode =
     (case mode of
        FLAT \<Rightarrow> GetFlatRowJS v8 p safe_ints
      | PLUCK \<Rightarrow> GetValueJS v8 p 0 safe_ints
      | EXPAND \<Rightarrow> GetExpandedRowJS v8 p safe_ints
      | RAW \<Rightarrow> GetRawRowJS v8 p safe_ints)"

text \<open>\<open>RowBuilder\<close>: the keys are built for the first row and kept (\<open>column_count\<close> is -1 before).\<close>

record row_builder =
  rb_safe_ints :: bool
  rb_keys :: "js_string list option"

definition RowBuilder_new :: "bool \<Rightarrow> row_builder" where
  "RowBuilder_new safe_ints = \<lparr>rb_safe_ints = safe_ints, rb_keys = None\<rparr>"

definition RowBuilder_GetRowJS :: "v8_api \<Rightarrow> vdbe \<Rightarrow> row_builder \<Rightarrow> js_value \<times> row_builder" where
  "RowBuilder_GetRowJS v8 p rb =
     (let keys = (case rb_keys rb of Some ks \<Rightarrow> ks | None \<Rightarrow> map (column_key v8 p) [0..<sqlite3_column_count p])
      in (Object_New (zip keys (map (\<lambda>i. GetValueJS v8 p i (rb_safe_ints rb)) [0..<length keys])),
          rb\<lparr>rb_keys := Some keys\<rparr>))"

section \<open>Lemmas on doubles\<close>

lemma floorlog_two_bounds:
  assumes "0 < m"
  obtains "2 ^ (floorlog 2 m - 1) \<le> m" "m < 2 * 2 ^ (floorlog 2 m - 1)"
proof -
  have p: "0 < floorlog 2 m" using assms by (simp add: floorlog_def)
  have "2 ^ (floorlog 2 m - 1) \<le> m \<and> m < 2 ^ floorlog 2 m"
    using floorlog_bounds [of m 2] assms by simp
  moreover have "2 ^ floorlog 2 m = 2 * (2::nat) ^ (floorlog 2 m - 1)"
    using p by (metis power_minus_mult mult.commute)
  ultimately show ?thesis using that by auto
qed

lemma unat_take_bit_mod: "unat (take_bit n w) = unat w mod 2 ^ n"
  unfolding unsigned_take_bit_eq by (simp only: take_bit_eq_mod)

lemma double_fields:
  fixes s :: bool
  assumes "x < 2048" "f < 2 ^ 52"
  shows "double_exponent (word_of_nat ((if s then 2 ^ 63 else 0) + x * 2 ^ 52 + f)) = x" (is "double_exponent ?d = _")
    and "double_fraction (word_of_nat ((if s then 2 ^ 63 else 0) + x * 2 ^ 52 + f)) = f"
    and "bit (word_of_nat ((if s then 2 ^ 63 else 0) + x * 2 ^ 52 + f) :: u64) 63 = s"
proof -
  define d :: u64 where "d = ?d"
  let ?n = "(if s then 2 ^ 63 else 0) + x * 2 ^ 52 + f"
  have n: "?n < 2 ^ 64" using assms(1,2) by (cases s) simp_all
  then have u: "unat d = ?n" unfolding d_def unat_of_nat by (subst mod_less) simp_all
  have split: "?n = f + ((if s then 2 ^ 11 else 0) + x) * 2 ^ 52" by simp
  have q: "?n div 2 ^ 52 = (if s then 2 ^ 11 else 0) + x"
    unfolding split using assms(2) by (subst div_mult_self1) simp_all
  have f: "double_fraction d = f"
    unfolding double_fraction_def unat_take_bit_mod u split using assms(2) by (subst mod_mult_self1) simp
  have x: "double_exponent d = x"
    unfolding double_exponent_def unat_take_bit_mod unat_drop_bit u q using assms(1) by simp
  have "?n div 2 ^ 63 = ?n div 2 ^ 52 div 2 ^ 11" by (simp add: div_mult2_eq flip: power_add)
  then have "?n div 2 ^ 63 = (if s then 1 else 0)" unfolding q using assms(1) by simp
  then have "bit (unat d) 63 = s" unfolding bit_iff_odd u by simp
  then have "bit d 63 = s" by (simp add: bit_unsigned_iff)
  with f x show "double_fraction ?d = f" "double_exponent ?d = x" "bit ?d 63 = s" by (simp_all only: d_def)
qed

lemma int64_of_double_of_int:
  assumes "\<bar>i\<bar> \<le> 2 ^ 53"
  shows "int64_of_double (double_of_int i) = Some i"
proof (cases "i = 0")
  case True
  then show ?thesis by (simp add: double_of_int_def int64_of_double_def double_exponent_def double_fraction_def)
next
  case False
  define m where "m = nat \<bar>i\<bar>"
  define e where "e = floorlog 2 m - 1"
  define q where "q = (if e \<le> 52 then m * 2 ^ (52 - e) else round_even m (e - 52))"
  have m0: "0 < m" and m53: "m \<le> 2 ^ 53" using assms False by (auto simp: m_def)
  have lo: "2 ^ e \<le> m" and hi: "m < 2 * 2 ^ e" using floorlog_two_bounds [OF m0] unfolding e_def by auto
  have "(2::nat) ^ e \<le> 2 ^ 53" using lo m53 by linarith
  then have e53: "e \<le> 53" by (meson lessI not_le power_less_imp_less_exp nat_power_less_imp_less one_less_numeral_iff semiring_norm(76) numeral_2_eq_2 leD le_less_trans power_strict_increasing)
  have q: "2 ^ 52 \<le> q \<and> q < 2 ^ 53 \<and> (if e \<le> 52 then q div 2 ^ (52 - e) else q * 2 ^ (e - 52)) = m"
  proof (cases "e \<le> 52")
    case True
    have p: "(2::nat) ^ e * 2 ^ (52 - e) = 2 ^ 52" using True by (simp flip: power_add)
    have "2 ^ e * 2 ^ (52 - e) \<le> m * 2 ^ (52 - e)" using lo by simp
    moreover have "m * 2 ^ (52 - e) < 2 * (2 ^ e * 2 ^ (52 - e))" using hi by simp
    ultimately show ?thesis using True unfolding p by (simp add: q_def)
  next
    case False
    then have "e = 53" using e53 by simp
    then have "m = 2 ^ 53" using lo m53 by simp
    then show ?thesis using \<open>e = 53\<close> by (simp add: q_def round_even_def)
  qed
  have d: "double_of_int i = word_of_nat ((if i < 0 then 2 ^ 63 else 0) + (e + 1023) * 2 ^ 52 + (q - 2 ^ 52))"
    using False unfolding double_of_int_def Let_def m_def [symmetric] e_def [symmetric] q_def [symmetric]
    by (simp only: if_False)
  have f: "e + 1023 < 2048" "q - 2 ^ 52 < 2 ^ 52" using e53 q by auto
  have t: "int m = \<bar>i\<bar>" by (simp add: m_def)
  have v: "(if e + 1023 < 1023 then 0 else if e + 1023 - 1023 \<le> 52
        then (2 ^ 52 + (q - 2 ^ 52)) div 2 ^ (52 - (e + 1023 - 1023))
        else (2 ^ 52 + (q - 2 ^ 52)) * 2 ^ (e + 1023 - 1023 - 52)) = m"
    using q by (auto split: if_splits)
  show ?thesis
    unfolding int64_of_double_def d double_fields [OF f] Let_def v using e53 assms t by auto
qed

lemma floorlog_twoI: "2 ^ k \<le> m \<Longrightarrow> m < 2 ^ Suc k \<Longrightarrow> floorlog 2 m = Suc k"
  by (intro antisym floorlog_leI floorlog_ge_SucI) auto

lemma double_of_int_inexact: "double_of_int (2 ^ 53 + 1) = double_of_int (2 ^ 53)"
  by (simp add: double_of_int_def round_even_def Let_def floorlog_twoI [of 53])

section \<open>Binding\<close>

text \<open>The SQL value of a JavaScript value that can be bound, and whether the database takes it.\<close>

definition js_sql :: "v8_api \<Rightarrow> js_value \<Rightarrow> sqlite3_value option" where
  "js_sql v8 v =
     (case v of
        JsNumber d \<Rightarrow> Some (sqlite3VdbeMemSetDouble d)
      | JsBigInt n \<Rightarrow> if - (2 ^ 63) \<le> n \<and> n < 2 ^ 63 then Some (VInteger (word_of_int n)) else None
      | JsString s \<Rightarrow> Some (VText (utf8_value v8 s))
      | JsBuffer b \<Rightarrow> Some (VBlob b)
      | JsNull \<Rightarrow> Some VNull
      | JsUndefined \<Rightarrow> Some VNull
      | _ \<Rightarrow> None)"

definition store_rc :: "vdbe \<Rightarrow> sqlite3_value \<Rightarrow> rc" where
  "store_rc p w =
     (case w of
        VText z \<Rightarrow> if length z > lengthLimit p then SQLITE_TOOBIG
                   else if memOk p (max (length z) 32) then SQLITE_OK else SQLITE_NOMEM
      | VBlob z \<Rightarrow> if length z > lengthLimit p then SQLITE_TOOBIG
                   else if memOk p (max (length z) 32) then SQLITE_OK else SQLITE_NOMEM
      | _ \<Rightarrow> SQLITE_OK)"

definition short_buffer :: "js_value \<Rightarrow> bool" where
  "short_buffer v \<longleftrightarrow> (case v of JsBuffer b \<Rightarrow> length b < 2 ^ 31 | _ \<Rightarrow> True)"

lemma unat_index: "1 \<le> i \<Longrightarrow> i < 2 ^ 32 \<Longrightarrow> unat (word_of_nat i - 1 :: u32) = i - 1"
proof -
  assume "1 \<le> i" "i < 2 ^ 32"
  then have "word_of_nat i - 1 = (word_of_nat (i - 1) :: u32)" by (simp add: of_nat_diff)
  then show ?thesis using \<open>i < 2 ^ 32\<close> by (simp only: unat_of_nat) (simp add: mod_less)
qed

lemma sint_length_u32: "n < 2 ^ 31 \<Longrightarrow> sint (word_of_nat n :: u32) = int n"
  by (simp add: sint_uint unsigned_of_nat take_bit_nat_eq_self signed_take_bit_int_eq_self)

text \<open>A length as a signed number of 32 bits.\<close>

lemma signed_length:
  "sint (word_of_nat (length b) :: u32) = (if length b mod 2 ^ 32 < 2 ^ 31 then int (length b mod 2 ^ 32) else int (length b mod 2 ^ 32) - 2 ^ 32)"
proof -
  define k :: int where "k = int (length b) mod 2 ^ 32"
  have r: "0 \<le> k" "k < 2 ^ 32" unfolding k_def by simp_all
  have "sint (word_of_int (int (length b)) :: u32) = (int (length b) + 2 ^ 31) mod 2 ^ 32 - 2 ^ 31"
    unfolding sint_sbintrunc' by (simp add: signed_take_bit_eq_take_bit_shift take_bit_eq_mod)
  also have "(int (length b) + 2 ^ 31) mod 2 ^ 32 = (k + 2 ^ 31) mod 2 ^ 32" unfolding k_def by (rule mod_add_left_eq [symmetric])
  also have "\<dots> = (if k < 2 ^ 31 then k + 2 ^ 31 else k - 2 ^ 31)"
  proof (cases "k < 2 ^ 31")
    case True
    then show ?thesis using r by (simp add: mod_pos_pos_trivial)
  next
    case False
    have "(k + 2 ^ 31) mod 2 ^ 32 = ((k - 2 ^ 31) + 2 ^ 32) mod 2 ^ 32" by (simp add: add.commute)
    also have "\<dots> = (k - 2 ^ 31) mod 2 ^ 32" by (rule mod_add_self2)
    finally show ?thesis using r False by (simp add: mod_pos_pos_trivial)
  qed
  finally have s: "sint (word_of_nat (length b) :: u32) = (if k < 2 ^ 31 then k else k - 2 ^ 32)" by simp
  define m where "m = length b mod 2 ^ 32"
  have "k = int m" unfolding k_def m_def by (simp add: of_nat_mod)
  then show ?thesis unfolding s m_def [symmetric] by simp
qed

lemma signed_length_sign:
  "0 \<le> sint (word_of_nat (length b) :: u32) \<longleftrightarrow> length b mod 2 ^ 32 < 2 ^ 31"
  "length b mod 2 ^ 32 < 2 ^ 31 \<Longrightarrow> nat (sint (word_of_nat (length b) :: u32)) = length b mod 2 ^ 32"
proof -
  define k where "k = length b mod 2 ^ 32"
  have "k < 2 ^ 32" unfolding k_def by simp
  then show "0 \<le> sint (word_of_nat (length b) :: u32) \<longleftrightarrow> length b mod 2 ^ 32 < 2 ^ 31"
    "length b mod 2 ^ 32 < 2 ^ 31 \<Longrightarrow> nat (sint (word_of_nat (length b) :: u32)) = length b mod 2 ^ 32"
    unfolding signed_length k_def [symmetric] by simp_all
qed

lemma MemSetStr_vars: "sqlite3VdbeMemSetStr (p\<lparr>aVar := vs\<rparr>) z n enc = sqlite3VdbeMemSetStr p z n enc"
  by (simp add: sqlite3VdbeMemSetStr_def Let_def)

lemma bound_cell: "1 \<le> i \<Longrightarrow> i \<le> length (aVar p) \<Longrightarrow> aVar (snd (rc, p\<lparr>aVar := (aVar p)[i - 1 := v]\<rparr>)) ! (i - 1) = v"
  by simp

lemma MemSetStr_buffer:
  "sqlite3VdbeMemSetStr p z n 0 =
     (if 0 \<le> n then
        if nat n > lengthLimit p then (SQLITE_TOOBIG, VNull)
        else if \<not> memOk p (max (nat n) 32) then (SQLITE_NOMEM, VNull) else (SQLITE_OK, VBlob (take (nat n) z))
      else
        if strlen16 (lengthLimit p) 0 z > lengthLimit p then (SQLITE_TOOBIG, VNull)
        else if \<not> memOk p (max (strlen16 (lengthLimit p) 0 z + 2) 32) then (SQLITE_NOMEM, VNull)
        else (SQLITE_OK, VText (take (strlen16 (lengthLimit p) 0 z) z)))"
  by (simp add: sqlite3VdbeMemSetStr_def Let_def)

lemma MemSetStr_text:
  "sqlite3VdbeMemSetStr p z (int (length z)) SQLITE_UTF8 =
    (let r = store_rc p (VText z) in (r, if r = SQLITE_OK then VText z else VNull))"
  by (auto simp: sqlite3VdbeMemSetStr_def store_rc_def Let_def)

lemma MemSetStr_blob:
  "sqlite3VdbeMemSetStr p z (int (length z)) 0 =
    (let r = store_rc p (VBlob z) in (r, if r = SQLITE_OK then VBlob z else VNull))"
  by (auto simp: sqlite3VdbeMemSetStr_def store_rc_def Let_def)

lemma store_rc_aVar [simp]: "store_rc (p\<lparr>aVar := vs\<rparr>) w = store_rc p w"
  by (cases w) (simp_all add: store_rc_def)

lemma store_rc_Double [simp]: "store_rc p (sqlite3VdbeMemSetDouble d) = SQLITE_OK"
  by (simp add: store_rc_def sqlite3VdbeMemSetDouble_def)

lemma store_rc_simps [simp]: "store_rc p (VInteger i) = SQLITE_OK" "store_rc p VNull = SQLITE_OK"
  by (simp_all add: store_rc_def)

lemma vdbeUnbind_in:
  assumes "vdbeReady p" "1 \<le> i" "i \<le> length (aVar p)" "length (aVar p) < 2 ^ 31"
  shows "vdbeUnbind p (word_of_nat i - 1) = (SQLITE_OK, p\<lparr>aVar := (aVar p)[i - 1 := VNull]\<rparr>)"
  using assms by (simp add: vdbeUnbind_def unat_index)

lemma vdbeUnbind_out:
  assumes "vdbeReady p" "length (aVar p) < i" "i < 2 ^ 32"
  shows "vdbeUnbind p (word_of_nat i - 1) = (SQLITE_RANGE, p)"
  using assms by (simp add: vdbeUnbind_def unat_index)

text \<open>What binding a value does, on every branch.\<close>

lemma BindValueFromJS_in:
  assumes "vdbeReady p" "1 \<le> i" "i \<le> length (aVar p)" "length (aVar p) < 2 ^ 31" "short_buffer v"
  shows "BindValueFromJS v8 p i v =
    (case js_sql v8 v of
       None \<Rightarrow> (if IsBigInt v then SQLITE_TOOBIG else SQLITE_CODE (-1), p)
     | Some w \<Rightarrow> (store_rc p w,
         p\<lparr>aVar := (aVar p)[i - 1 := if store_rc p w = SQLITE_OK then w else VNull]\<rparr>))"
  using assms
  by (cases v) (simp_all add: BindValueFromJS_def JS_VALUE_TO_SQLITE_def js_sql_def vdbeUnbind_in bindText_def
      sqlite3_bind_double_def sqlite3_bind_int64_def sqlite3_bind_text_def sqlite3_bind_blob_def
      sqlite3_bind_null_def MemSetStr_text MemSetStr_blob Let_def short_buffer_def sint_length_u32 IsBigInt_def)

lemma BindValueFromJS_out:
  assumes "vdbeReady p" "length (aVar p) < i" "i < 2 ^ 32"
  shows "BindValueFromJS v8 p i v =
    (if js_sql v8 v = None then if IsBigInt v then SQLITE_TOOBIG else SQLITE_CODE (-1) else SQLITE_RANGE, p)"
  using assms
  by (cases v) (simp_all add: BindValueFromJS_def JS_VALUE_TO_SQLITE_def js_sql_def vdbeUnbind_out bindText_def
      sqlite3_bind_double_def sqlite3_bind_int64_def sqlite3_bind_text_def sqlite3_bind_blob_def
      sqlite3_bind_null_def Let_def IsBigInt_def)

lemma BindValueFromJS_OK:
  assumes "BindValueFromJS v8 p i v = (SQLITE_OK, p')" "1 \<le> i" "i < 2 ^ 32" "length (aVar p) < 2 ^ 31" "short_buffer v"
  shows "vdbeReady p \<and> i \<le> length (aVar p) \<and>
    (\<exists>w. js_sql v8 v = Some w \<and> p' = p\<lparr>aVar := (aVar p)[i - 1 := w]\<rparr>)"
proof -
  have r: "vdbeReady p"
  proof (rule ccontr)
    assume "\<not> vdbeReady p"
    then show False using assms(1)
      by (cases v) (auto simp: BindValueFromJS_def JS_VALUE_TO_SQLITE_def vdbeUnbind_def bindText_def
          sqlite3_bind_double_def sqlite3_bind_int64_def sqlite3_bind_text_def sqlite3_bind_blob_def
          sqlite3_bind_null_def Let_def IsBigInt_def split: if_splits)
  qed
  have i: "i \<le> length (aVar p)"
  proof (rule ccontr)
    assume "\<not> i \<le> length (aVar p)"
    then have "length (aVar p) < i" by simp
    from BindValueFromJS_out [OF r this assms(3), of v8 v] assms(1) show False by (simp split: if_splits)
  qed
  show ?thesis using assms(1) BindValueFromJS_in [OF r assms(2) i assms(4,5), of v8] r i
    by (auto split: option.splits if_splits)
qed

text \<open>What is read back from a bound value.\<close>

definition read_back :: "bool \<Rightarrow> js_value \<Rightarrow> js_value" where
  "read_back safe_ints v =
     (case v of
        JsUndefined \<Rightarrow> JsNull
      | JsNumber d \<Rightarrow> if double_is_nan d then JsNull else v
      | JsBigInt n \<Rightarrow> if safe_ints then v else JsNumber (double_of_int n)
      | _ \<Rightarrow> v)"

lemma sint_word_of_int_u64: "- (2 ^ 63) \<le> n \<Longrightarrow> n < 2 ^ 63 \<Longrightarrow> sint (word_of_int n :: u64) = n"
  by (simp add: sint_sbintrunc' signed_take_bit_int_eq_self)

lemma js_sql_back:
  assumes "js_sql v8 v = Some w" "\<And>s. v = JsString s \<Longrightarrow> string_from_utf8 v8 (utf8_value v8 s) = s"
  shows "SQLITE_VALUE_TO_JS v8 safe_ints w = read_back safe_ints v"
  using assms
  by (cases v) (auto simp: js_sql_def SQLITE_VALUE_TO_JS_def read_back_def sqlite3VdbeMemSetDouble_def
      sint_word_of_int_u64 split: if_splits)

section \<open>Lemmas on rows\<close>

lemma Object_New_snoc: "Object_New (kvs @ [(k, v)]) = set_property k v (Object_New kvs)"
  by (simp add: Object_New_def)

lemma Object_New_object: "\<exists>ps. Object_New kvs = JsObject True ps \<and> (\<forall>q\<in>set ps. \<exists>v. snd q = Property v)"
proof (induction kvs rule: rev_induct)
  case Nil
  show ?case by (simp add: Object_New_def)
next
  case (snoc x kvs)
  obtain k v where x: "x = (k, v)" by fastforce
  from snoc obtain ps where ps: "Object_New kvs = JsObject True ps" "\<forall>q\<in>set ps. \<exists>v. snd q = Property v" by auto
  have "\<forall>q\<in>set (AList.update k (Property v) ps). \<exists>v. snd q = Property v"
    using ps(2) by (induction ps) auto
  then show ?case by (simp add: x Object_New_snoc ps(1) set_property_def)
qed

lemma get_set_property:
  "get_property (set_property k v (Object_New kvs)) k' = (if k' = k then Some v else get_property (Object_New kvs) k')"
  using Object_New_object [of kvs] by (auto simp: get_property_def set_property_def update_conv')

lemma get_Object_New: "get_property (Object_New kvs) k = map_of (rev kvs) k"
proof (induction kvs rule: rev_induct)
  case Nil
  show ?case by (simp add: Object_New_def get_property_def)
next
  case (snoc x kvs)
  then show ?case by (cases x) (simp add: Object_New_snoc get_set_property)
qed

lemma RowBuilder_first:
  "RowBuilder_GetRowJS v8 p (RowBuilder_new safe_ints) =
    (GetFlatRowJS v8 p safe_ints,
     \<lparr>rb_safe_ints = safe_ints, rb_keys = Some (map (column_key v8 p) [0..<sqlite3_column_count p])\<rparr>)"
  by (simp add: RowBuilder_GetRowJS_def RowBuilder_new_def GetFlatRowJS_def zip_map_map zip_same_conv_map comp_def)

lemma RowBuilder_next:
  assumes "rb_keys rb = Some (map (column_key v8 p) [0..<sqlite3_column_count p])"
  shows "RowBuilder_GetRowJS v8 p rb = (GetFlatRowJS v8 p (rb_safe_ints rb), rb)"
  using assms
  by (cases rb) (simp add: RowBuilder_GetRowJS_def GetFlatRowJS_def zip_map_map zip_same_conv_map comp_def)

section \<open>Properties\<close>

text \<open>C27: A value that has been bound to a parameter is in that parameter, the others are as before, and
  reading it gives it back: undefined and NaN as null, and a bigint as the nearest number unless
  safe integers are on.  The string conversions of V8 are assumed inverse on the string bound, and a
  buffer to have less than 2 GiB.\<close>

theorem bind_read_roundtrip:
  assumes "BindValueFromJS v8 p i v = (SQLITE_OK, p')" "1 \<le> i" "i < 2 ^ 32" "length (aVar p) < 2 ^ 31"
    and "\<And>s. v = JsString s \<Longrightarrow> string_from_utf8 v8 (utf8_value v8 s) = s" "\<And>b. v = JsBuffer b \<Longrightarrow> length b < 2 ^ 31"
  shows "i \<le> length (aVar p) \<and> (\<exists>w. p' = p\<lparr>aVar := (aVar p)[i - 1 := w]\<rparr> \<and>
    SQLITE_VALUE_TO_JS v8 safe_ints w = read_back safe_ints v)"
proof -
  have "short_buffer v" using assms(6) by (auto simp: short_buffer_def split: js_value.split)
  from BindValueFromJS_OK [OF assms(1-4) this] obtain w where "i \<le> length (aVar p)" "js_sql v8 v = Some w"
    "p' = p\<lparr>aVar := (aVar p)[i - 1 := w]\<rparr>" by auto
  then show ?thesis using js_sql_back [OF _ assms(5)] by blast
qed

definition example_v8 :: v8_api where
  "example_v8 = \<lparr>utf8_value = map ucast, string_from_utf8 = map ucast\<rparr>"

definition example_vdbe :: vdbe where
  "example_vdbe = \<lparr>aVar = [VNull, VNull, VNull], pVList = [(2, [0x3a, 0x61])], vdbeReady = True, lengthLimit = 1000,
     memOk = (\<lambda>_. True), colNames = [[0x69], [0x6a]], colTables = [None, Some [0x74]],
     pResultRow = Some [VInteger 7, VText [0x61]]\<rparr>"

theorem bind_read_roundtrip_witness:
  "2 \<le> length (aVar example_vdbe) \<and> (\<exists>w. example_vdbe\<lparr>aVar := [VNull, VText [0x41], VNull]\<rparr> =
      example_vdbe\<lparr>aVar := (aVar example_vdbe)[2 - 1 := w]\<rparr> \<and>
    SQLITE_VALUE_TO_JS example_v8 False w = read_back False (JsString [0x41]))"
proof (rule bind_read_roundtrip)
  show "BindValueFromJS example_v8 example_vdbe 2 (JsString [0x41]) =
    (SQLITE_OK, example_vdbe\<lparr>aVar := [VNull, VText [0x41], VNull]\<rparr>)"
    by (subst BindValueFromJS_in) (simp_all add: example_vdbe_def example_v8_def short_buffer_def js_sql_def store_rc_def)
qed (simp_all add: example_vdbe_def example_v8_def)

text \<open>C28: The length of a buffer is taken modulo 2^32 and as a signed number when it is bound.  With k the remainder: if k is
  below 2^31, the first k bytes are stored, unless they exceed the limit of the connection or the memory; otherwise the length is
  negative, which SQLite only asserts against for a blob, and the bytes before the first two zero bytes at an even place are stored as text, under the same checks.
  So a buffer of 2 GiB or more is never stored as it is, and an error is reported only if the part exceeds the limit or the memory.\<close>

theorem buffer_length_modulo:
  assumes "vdbeReady p" "1 \<le> i" "i \<le> length (aVar p)" "length (aVar p) < 2 ^ 31"
  shows "BindValueFromJS v8 p i (JsBuffer b) =
    (let k = length b mod 2 ^ 32; n = strlen16 (lengthLimit p) 0 b;
         (rc, v) = (if k < 2 ^ 31 then
                      if k > lengthLimit p then (SQLITE_TOOBIG, VNull)
                      else if \<not> memOk p (max k 32) then (SQLITE_NOMEM, VNull) else (SQLITE_OK, VBlob (take k b))
                    else
                      if n > lengthLimit p then (SQLITE_TOOBIG, VNull)
                      else if \<not> memOk p (max (n + 2) 32) then (SQLITE_NOMEM, VNull) else (SQLITE_OK, VText (take n b)))
     in (rc, p\<lparr>aVar := (aVar p)[i - 1 := v]\<rparr>)) \<and>
    (2 ^ 31 \<le> length b \<longrightarrow> aVar (snd (BindValueFromJS v8 p i (JsBuffer b))) ! (i - 1) \<noteq> VBlob b)"
proof -
  let ?k = "length b mod 2 ^ 32" and ?n = "strlen16 (lengthLimit p) 0 b"
  let ?s = "sint (word_of_nat (length b) :: u32)"
  have n: "0 \<le> ?s \<longleftrightarrow> ?k < 2 ^ 31" "?k < 2 ^ 31 \<Longrightarrow> nat ?s = ?k" using signed_length_sign [of b] by blast+
  let ?r = "if ?k < 2 ^ 31 then
         if ?k > lengthLimit p then (SQLITE_TOOBIG, VNull)
         else if \<not> memOk p (max ?k 32) then (SQLITE_NOMEM, VNull) else (SQLITE_OK, VBlob (take ?k b))
       else
         if ?n > lengthLimit p then (SQLITE_TOOBIG, VNull)
         else if \<not> memOk p (max (?n + 2) 32) then (SQLITE_NOMEM, VNull) else (SQLITE_OK, VText (take ?n b))"
  have "BindValueFromJS v8 p i (JsBuffer b) =
      (case sqlite3VdbeMemSetStr p b (sint (word_of_nat (length b) :: u32)) 0 of (rc, v) \<Rightarrow> (rc, p\<lparr>aVar := (aVar p)[i - 1 := v]\<rparr>))"
    using assms by (simp add: BindValueFromJS_def JS_VALUE_TO_SQLITE_def sqlite3_bind_blob_def bindText_def vdbeUnbind_in
        MemSetStr_vars split: prod.split)
  also have "sqlite3VdbeMemSetStr p b (sint (word_of_nat (length b) :: u32)) 0 = ?r"
    unfolding MemSetStr_buffer n(1) by (rule if_cong [OF refl]) (simp_all only: n(2))
  finally have bind: "BindValueFromJS v8 p i (JsBuffer b) = (case ?r of (rc, v) \<Rightarrow> (rc, p\<lparr>aVar := (aVar p)[i - 1 := v]\<rparr>))" .
  have r1: "snd ?r \<noteq> VBlob b" if "2 ^ 31 \<le> length b"
  proof (cases "?k < 2 ^ 31")
    case True
    then have "\<not> length b \<le> ?k" using less_le_trans [OF True that] by (simp only: not_le)
    then have "take ?k b \<noteq> b" by (simp only: take_all_iff not_False_eq_True)
    then show ?thesis using True by (simp only: if_True split: if_split) simp
  next
    case False
    then show ?thesis by (simp only: if_False split: if_split) simp
  qed
  have r2: "aVar (snd (BindValueFromJS v8 p i (JsBuffer b))) ! (i - 1) = snd ?r"
    unfolding bind case_prod_beta by (rule bound_cell [OF assms(2,3)])
  have "2 ^ 31 \<le> length b \<longrightarrow> aVar (snd (BindValueFromJS v8 p i (JsBuffer b))) ! (i - 1) \<noteq> VBlob b" unfolding r2 using r1 by (rule impI)
  then show ?thesis using bind unfolding Let_def by (rule conjI [rotated])
qed

theorem buffer_length_modulo_witness:
  "BindValueFromJS example_v8 example_vdbe 1 (JsBuffer (replicate (2 ^ 32 + 3) 7)) =
     (SQLITE_OK, example_vdbe\<lparr>aVar := [VBlob (take 3 (replicate (2 ^ 32 + 3) 7)), VNull, VNull]\<rparr>)"
proof -
  define b where "b = replicate (2 ^ 32 + 3) (7 :: u8)"
  have "length b = 2 ^ 32 + 3" unfolding b_def by (rule length_replicate)
  then have k: "length b mod 2 ^ 32 = 3" by (simp only:) simp
  have "BindValueFromJS example_v8 example_vdbe 1 (JsBuffer b) = (SQLITE_OK, example_vdbe\<lparr>aVar := (aVar example_vdbe)[1 - 1 := VBlob (take 3 b)]\<rparr>)"
    by (subst conjunct1 [OF buffer_length_modulo], unfold k Let_def) (simp_all add: example_vdbe_def)
  then have "BindValueFromJS example_v8 example_vdbe 1 (JsBuffer b) = (SQLITE_OK, example_vdbe\<lparr>aVar := [VBlob (take 3 b), VNull, VNull]\<rparr>)"
    by (simp add: example_vdbe_def)
  then show ?thesis unfolding b_def .
qed

text \<open>A flat row has under the name of a column the value of the last column with that name and
  nothing else, and the row builder, which keeps the keys of the first row, builds the same rows.\<close>

theorem flat_row:
  "get_property (GetFlatRowJS v8 p safe_ints) k =
     map_of (rev (map (\<lambda>i. (column_key v8 p i, GetValueJS v8 p i safe_ints)) [0..<sqlite3_column_count p])) k \<and>
   fst (RowBuilder_GetRowJS v8 (p\<lparr>pResultRow := row\<rparr>) (snd (RowBuilder_GetRowJS v8 p (RowBuilder_new safe_ints)))) =
     GetFlatRowJS v8 (p\<lparr>pResultRow := row\<rparr>) safe_ints \<and>
   fst (RowBuilder_GetRowJS v8 p (RowBuilder_new safe_ints)) = GetFlatRowJS v8 p safe_ints"
proof -
  have k: "column_key v8 (p\<lparr>pResultRow := row\<rparr>) = column_key v8 p"
    "sqlite3_column_count (p\<lparr>pResultRow := row\<rparr>) = sqlite3_column_count p"
    by (auto simp: column_key_def sqlite3_column_count_def)
  show ?thesis by (simp add: RowBuilder_first RowBuilder_next k) (simp add: GetFlatRowJS_def get_Object_New)
qed

end
