(* ===== verification/Binder.thy ===== *)
theory Binder
  imports JsData
begin

text \<open>
  Binding the arguments of a call to the parameters of a statement: util/bind-map.cpp,
  the class \<open>Binder\<close> and \<open>Statement::GetBindMap\<close>.
\<close>

section \<open>The bind map\<close>

text \<open>The pairs of a name and an index, in an array with room for \<open>bm_capacity\<close> of them.\<close>

record bind_map =
  bm_pairs :: "(js_string \<times> nat) list"
  bm_capacity :: u32

definition BindMap_new :: bind_map where
  "BindMap_new = \<lparr>bm_pairs = [], bm_capacity = 0\<rparr>"

definition BindMap_GetSize :: "bind_map \<Rightarrow> nat" where
  "BindMap_GetSize bm = length (bm_pairs bm)"

definition BindMap_Grow :: "bind_map \<Rightarrow> bind_map" where
  "BindMap_Grow bm = bm\<lparr>bm_capacity := push_bit 1 (bm_capacity bm) OR 2\<rparr>"

definition BindMap_Add :: "js_string \<Rightarrow> nat \<Rightarrow> bind_map \<Rightarrow> bind_map" where
  "BindMap_Add name index bm =
     (let bm = (if unat (bm_capacity bm) = length (bm_pairs bm) then BindMap_Grow bm else bm)
      in bm\<lparr>bm_pairs := bm_pairs bm @ [(name, index)]\<rparr>)"

section \<open>The class Binder\<close>

text \<open>
  The state of the class with the statement it works on: its handle, and whether its bind map has been
  made and what it is.  \<open>b_thrown\<close> is the exception a failure leaves.
\<close>

record bind_state =
  b_handle :: vdbe
  b_has_bind_map :: bool
  b_bind_map :: bind_map
  b_anon_index :: nat
  b_success :: bool
  b_thrown :: "js_error option"

definition Binder_new :: "vdbe \<Rightarrow> bool \<Rightarrow> bind_map \<Rightarrow> bind_state" where
  "Binder_new p has bm = \<lparr>b_handle = p, b_has_bind_map = has, b_bind_map = bm, b_anon_index = 0, b_success = True,
     b_thrown = None\<rparr>"

text \<open>The name of a parameter without its first character.\<close>

definition GetBindMap :: "v8_api \<Rightarrow> bind_state \<Rightarrow> bind_state" where
  "GetBindMap v8 b =
     (if b_has_bind_map b then b
      else b\<lparr>b_has_bind_map := True,
             b_bind_map := fold (\<lambda>i bm. case sqlite3_bind_parameter_name (b_handle b) i of
                 Some z \<Rightarrow> BindMap_Add (string_from_utf8 v8 (drop 1 z)) i bm
               | None \<Rightarrow> bm) [1..<Suc (sqlite3_bind_parameter_count (b_handle b))] (b_bind_map b)\<rparr>)"

definition Fail :: "js_error \<Rightarrow> bind_state \<Rightarrow> bind_state" where
  "Fail e b = b\<lparr>b_success := False, b_thrown := Some e\<rparr>"

text \<open>The loop of \<open>NextAnonIndex\<close> ends, as there are finitely many names.\<close>

lemma filter_gt_less:
  "map_of vl (Suc i) = Some z \<Longrightarrow>
    length (filter (\<lambda>e. Suc i < fst e) vl) < length (filter (\<lambda>e. i < fst e) vl)" for i :: nat
proof (induction vl)
  case (Cons e vl)
  have "length (filter (\<lambda>e. Suc i < fst e) vl) \<le> length (filter (\<lambda>e. i < fst e) vl)"
    by (induction vl) auto
  with Cons show ?case by (cases "fst e = Suc i") (auto split: if_splits)
qed simp

function next_anon :: "(nat \<times> bytes) list \<Rightarrow> nat \<Rightarrow> nat" where
  "next_anon vl anon_index =
     (if sqlite3VListNumToName vl (anon_index + 1) \<noteq> None then next_anon vl (anon_index + 1) else anon_index + 1)"
  by auto
termination
  by (relation "measure (\<lambda>(vl, i). length (filter (\<lambda>e. i < fst e) vl))")
    (auto simp: sqlite3VListNumToName_def filter_gt_less)

declare next_anon.simps [simp del]

definition NextAnonIndex :: "bind_state \<Rightarrow> nat \<times> bind_state" where
  "NextAnonIndex b = (let i = next_anon (pVList (b_handle b)) (b_anon_index b) in (i, b\<lparr>b_anon_index := i\<rparr>))"

definition bind_error :: "rc \<Rightarrow> js_error" where
  "bind_error status =
     (if status = SQLITE_CODE (-1)
      then TypeError (lit ''SQLite3 can only bind numbers, strings, bigints, buffers, and null'')
      else if status = SQLITE_TOOBIG then RangeError (lit ''The bound string, buffer, or bigint is too big'')
      else if status = SQLITE_RANGE then RangeError (lit ''Too many parameter values were provided'')
      else if status = SQLITE_NOMEM then PlainError (lit ''Out of memory'')
      else PlainError (lit ''An unexpected error occured while trying to bind parameters''))"

definition BindValue :: "v8_api \<Rightarrow> js_value \<Rightarrow> nat \<Rightarrow> bind_state \<Rightarrow> bind_state" where
  "BindValue v8 val index b =
     (case BindValueFromJS v8 (b_handle b) index val of
        (status, p) \<Rightarrow>
          let b = b\<lparr>b_handle := p\<rparr>
          in if status \<noteq> SQLITE_OK then Fail (bind_error status) b else b)"

definition bind_next :: "v8_api \<Rightarrow> js_value \<Rightarrow> bind_state \<Rightarrow> bind_state" where
  "bind_next v8 val b = (case NextAnonIndex b of (i, b) \<Rightarrow> BindValue v8 val i b)"

text \<open>The loops return the number of values bound, added to what has been counted before.\<close>

fun bind_elements :: "v8_api \<Rightarrow> js_value option list \<Rightarrow> nat \<Rightarrow> bind_state \<Rightarrow> nat \<times> bind_state" where
  "bind_elements v8 [] i b = (i, b)"
| "bind_elements v8 (None # es) i b = (i, Fail UserException b)"
| "bind_elements v8 (Some v # es) i b =
     (let b = bind_next v8 v b
      in if \<not> b_success b then (i, b) else bind_elements v8 es (i + 1) b)"

definition INT_MAX :: nat where
  "INT_MAX = 2 ^ 31 - 1"

definition BindArray :: "v8_api \<Rightarrow> js_value option list \<Rightarrow> bind_state \<Rightarrow> nat \<times> bind_state" where
  "BindArray v8 arr b =
     (if length arr > INT_MAX then (0, Fail (RangeError (lit ''Too many parameter values were provided'')) b)
      else bind_elements v8 arr 0 b)"

fun bind_pairs :: "v8_api \<Rightarrow> (js_string \<times> js_property) list \<Rightarrow> (js_string \<times> nat) list \<Rightarrow> nat \<Rightarrow> bind_state \<Rightarrow> nat \<times> bind_state" where
  "bind_pairs v8 obj [] i b = (i, b)"
| "bind_pairs v8 obj ((key, index) # pairs) i b =
     (case map_of obj key of
        None \<Rightarrow> (i, Fail (RangeError (lit ''Missing named parameter \"'' @ utf8_value v8 key @ lit ''\"'')) b)
      | Some HasThrows \<Rightarrow> (i, Fail UserException b)
      | Some GetThrows \<Rightarrow> (i, Fail UserException b)
      | Some (Property v) \<Rightarrow>
          (let b = BindValue v8 v index b
           in if \<not> b_success b then (i, b) else bind_pairs v8 obj pairs (i + 1) b))"

definition BindObject :: "v8_api \<Rightarrow> (js_string \<times> js_property) list \<Rightarrow> bind_state \<Rightarrow> nat \<times> bind_state" where
  "BindObject v8 obj b = (let b = GetBindMap v8 b in bind_pairs v8 obj (bm_pairs (b_bind_map b)) 0 b)"

definition IsPlainObject :: "js_value \<Rightarrow> bool" where
  "IsPlainObject v \<longleftrightarrow> (case v of JsObject plain _ \<Rightarrow> plain | _ \<Rightarrow> False)"

text \<open>An object that is neither an array nor a buffer.\<close>

definition other_object :: "js_value \<Rightarrow> bool" where
  "other_object v \<longleftrightarrow> (case v of JsObject _ _ \<Rightarrow> True | JsFunction _ \<Rightarrow> True | _ \<Rightarrow> False)"

fun properties :: "js_value \<Rightarrow> (js_string \<times> js_property) list" where
  "properties (JsObject _ ps) = ps"
| "properties _ = []"

fun BindArgs :: "v8_api \<Rightarrow> js_value list \<Rightarrow> nat \<Rightarrow> bool \<Rightarrow> bind_state \<Rightarrow> (nat \<times> bool) \<times> bind_state" where
  "BindArgs v8 [] cnt bound_object b = ((cnt, bound_object), b)"
| "BindArgs v8 (arg # args) cnt bound_object b =
     (case arg of
        JsArray arr \<Rightarrow>
          (case BindArray v8 arr b of
             (n, b) \<Rightarrow>
               if \<not> b_success b then ((cnt + n, bound_object), b)
               else BindArgs v8 args (cnt + n) bound_object b)
      | _ \<Rightarrow>
          if other_object arg \<and> IsPlainObject arg then
            if bound_object then
              ((cnt, bound_object),
               Fail (TypeError (lit ''You cannot specify named parameters in two different objects'')) b)
            else
              (case BindObject v8 (properties arg) b of
                 (n, b) \<Rightarrow>
                   if \<not> b_success b then ((cnt + n, True), b) else BindArgs v8 args (cnt + n) True b)
          else
            let b = (if other_object arg then GetBindMap v8 b else b)
            in if other_object arg \<and> BindMap_GetSize (b_bind_map b) \<noteq> 0 then
                 ((cnt, bound_object), Fail (TypeError (lit ''Named parameters can only be passed within plain objects'')) b)
               else
                 let b = bind_next v8 arg b
                 in if \<not> b_success b then ((cnt, bound_object), b) else BindArgs v8 args (cnt + 1) bound_object b)"

definition Bind :: "v8_api \<Rightarrow> js_value list \<Rightarrow> bind_state \<Rightarrow> bind_state" where
  "Bind v8 args b =
     (case BindArgs v8 args 0 False b of
        ((cnt, bound_object), b) \<Rightarrow>
          let param_count = sqlite3_bind_parameter_count (b_handle b)
          in if b_success b \<and> cnt \<noteq> param_count then
               if cnt < param_count then
                 let b = (if \<not> bound_object then GetBindMap v8 b else b)
                 in if \<not> bound_object \<and> BindMap_GetSize (b_bind_map b) \<noteq> 0
                    then Fail (TypeError (lit ''Missing named parameters'')) b
                    else Fail (RangeError (lit ''Too few parameter values were provided'')) b
               else Fail (RangeError (lit ''Too many parameter values were provided'')) b
             else b)"

text \<open>\<open>STATEMENT_BIND\<close>: the parameters are cleared if binding fails.\<close>

definition STATEMENT_BIND :: "v8_api \<Rightarrow> js_value list \<Rightarrow> vdbe \<Rightarrow> bool \<Rightarrow> bind_map \<Rightarrow> bind_state" where
  "STATEMENT_BIND v8 args p has bm =
     (let b = Bind v8 args (Binder_new p has bm)
      in if \<not> b_success b then b\<lparr>b_handle := sqlite3_clear_bindings (b_handle b)\<rparr> else b)"

section \<open>Lemmas on the bind map\<close>

text \<open>The capacities are \<open>0, 2, 6, 14, ...\<close>; there is room for every pair and no more than twice the room
  needed.\<close>

definition bind_map_inv :: "bind_map \<Rightarrow> bool" where
  "bind_map_inv bm \<longleftrightarrow> length (bm_pairs bm) \<le> unat (bm_capacity bm) \<and>
     unat (bm_capacity bm) \<le> 2 * length (bm_pairs bm) \<and> (\<exists>k. unat (bm_capacity bm) + 2 = 2 ^ Suc k)"

lemma unat_grow:
  fixes c :: u32
  assumes "unat c + 2 = 2 ^ Suc k" "unat c < 2 ^ 30"
  shows "unat (push_bit 1 c OR 2) = 2 * unat c + 2"
proof -
  have "even (unat c + 2)" unfolding assms(1) by simp
  then have "\<not> bit (unat c) 0" by (simp add: bit_0)
  then have "\<not> bit c 0" unfolding bit_unsigned_iff by simp
  then have "\<not> bit (push_bit 1 c) 1" unfolding bit_push_bit_iff by simp
  then have "push_bit 1 c AND 2 = 0" using and_exp_eq_0_iff_not_bit [of "push_bit 1 c" 1] by simp
  from disjunctive_add_eq_or [OF this] have "push_bit 1 c OR 2 = 2 * c + 2" by (simp add: push_bit_eq_mult mult.commute)
  also have "\<dots> = word_of_nat (2 * unat c + 2)" by simp
  finally show ?thesis using assms(2) by (simp only: unat_of_nat) (simp add: mod_less)
qed

lemma bind_map_inv_new: "bind_map_inv BindMap_new"
  by (auto simp: bind_map_inv_def BindMap_new_def intro: exI [of _ 0])

lemma bind_map_inv_Add:
  assumes "bind_map_inv bm" "length (bm_pairs bm) < 2 ^ 29"
  shows "bind_map_inv (BindMap_Add name index bm)"
proof -
  from assms(1) obtain k where k: "unat (bm_capacity bm) + 2 = 2 ^ Suc k" by (auto simp: bind_map_inv_def)
  have "unat (bm_capacity bm) < 2 ^ 30" using assms by (simp add: bind_map_inv_def)
  note g = unat_grow [OF k this]
  have "2 * unat (bm_capacity bm) + 2 + 2 = 2 ^ Suc (Suc k)" using k by simp
  then show ?thesis using assms(1) k g
    by (auto simp: bind_map_inv_def BindMap_Add_def BindMap_Grow_def Let_def intro: exI [of _ "Suc k"])
qed

lemma bm_pairs_Add [simp]: "bm_pairs (BindMap_Add name index bm) = bm_pairs bm @ [(name, index)]"
  by (simp add: BindMap_Add_def BindMap_Grow_def Let_def)

text \<open>The named parameters: the numbers in \<open>vl\<close>, the key of each, and the pairs of a bind map.\<close>

definition param_key :: "v8_api \<Rightarrow> bytes \<Rightarrow> js_string" where
  "param_key v8 z = string_from_utf8 v8 (drop 1 z)"

definition named_pairs :: "v8_api \<Rightarrow> (nat \<times> bytes) list \<Rightarrow> nat \<Rightarrow> (js_string \<times> nat) list" where
  "named_pairs v8 vl n =
     List.map_filter (\<lambda>i. map_option (\<lambda>z. (param_key v8 z, i)) (map_of vl i)) [1..<Suc n]"

lemma GetBindMap_fold:
  assumes "bind_map_inv bm" "length (bm_pairs bm) + length is < 2 ^ 29"
  shows "let bm' = fold (\<lambda>i bm. case map_of vl i of Some z \<Rightarrow> BindMap_Add (param_key v8 z) i bm | None \<Rightarrow> bm) is bm
    in bm_pairs bm' = bm_pairs bm @ List.map_filter (\<lambda>i. map_option (\<lambda>z. (param_key v8 z, i)) (map_of vl i)) is \<and>
       bind_map_inv bm'"
  using assms
proof (induction "is" arbitrary: bm)
  case (Cons i "is")
  show ?case
  proof (cases "map_of vl i")
    case None
    then show ?thesis using Cons by (simp add: map_filter_simps)
  next
    case (Some z)
    have "bind_map_inv (BindMap_Add (param_key v8 z) i bm)" using Cons.prems by (intro bind_map_inv_Add) auto
    then show ?thesis using Cons.IH [of "BindMap_Add (param_key v8 z) i bm"] Cons.prems Some
      by (simp add: map_filter_simps Let_def)
  qed
qed (simp add: map_filter_simps)

lemma GetBindMap_pairs:
  assumes "sqlite3_bind_parameter_count (b_handle b) < 2 ^ 29" "\<not> b_has_bind_map b" "b_bind_map b = BindMap_new"
  shows "bm_pairs (b_bind_map (GetBindMap v8 b)) =
      named_pairs v8 (pVList (b_handle b)) (sqlite3_bind_parameter_count (b_handle b)) \<and>
    bind_map_inv (b_bind_map (GetBindMap v8 b))"
  using GetBindMap_fold [OF bind_map_inv_new, of "[1..<Suc (sqlite3_bind_parameter_count (b_handle b))]" v8 "pVList (b_handle b)"]
    assms
  unfolding GetBindMap_def sqlite3_bind_parameter_name_def sqlite3VListNumToName_def named_pairs_def Let_def param_key_def
  by (simp add: BindMap_new_def del: upt_Suc)

section \<open>Lemmas on binding\<close>

definition anon :: "(nat \<times> bytes) list \<Rightarrow> nat \<Rightarrow> nat list" where
  "anon vl a = filter (\<lambda>i. map_of vl i = None) [1..<Suc a]"

lemma next_anon_spec:
  "i < next_anon vl i \<and> map_of vl (next_anon vl i) = None \<and> (\<forall>j. i < j \<and> j < next_anon vl i \<longrightarrow> map_of vl j \<noteq> None)"
proof (induction vl i rule: next_anon.induct)
  case (1 vl i)
  show ?case
  proof (cases "map_of vl (i + 1) = None")
    case True
    then show ?thesis by (subst (1 2 3) next_anon.simps) (auto simp: sqlite3VListNumToName_def)
  next
    case False
    then have eq: "next_anon vl i = next_anon vl (i + 1)"
      by (subst next_anon.simps) (auto simp: sqlite3VListNumToName_def)
    have "j = i + 1 \<or> i + 1 < j" if "i < j" for j using that by auto
    with False 1 show ?thesis unfolding eq by (fastforce simp: sqlite3VListNumToName_def)
  qed
qed

lemma anon_next: "anon vl (next_anon vl a) = anon vl a @ [next_anon vl a]"
proof -
  let ?m = "next_anon vl a"
  note s = next_anon_spec [of a vl]
  from s have "Suc a \<le> ?m" by simp
  then obtain d where d: "?m = Suc a + d" using le_Suc_ex by blast
  have "[1..<Suc ?m] = [1..<Suc a] @ [Suc a..<?m] @ [?m]"
    unfolding d using upt_add_eq_append [of 1 "Suc a" "Suc d"] by simp
  moreover have "filter (\<lambda>i. map_of vl i = None) [Suc a..<?m] = []"
    using s by (auto simp: filter_empty_conv)
  ultimately show ?thesis using s by (simp add: anon_def)
qed

lemma next_anon_le:
  assumes "\<forall>e\<in>set vl. fst e \<le> n" "a \<le> n"
  shows "next_anon vl a \<le> Suc n"
proof (rule ccontr)
  assume "\<not> next_anon vl a \<le> Suc n"
  then have "map_of vl (Suc n) \<noteq> None" using next_anon_spec [of a vl] assms(2) by simp
  then obtain z where "map_of vl (Suc n) = Some z" by auto
  from map_of_SomeD [OF this] assms(1) show False by fastforce
qed

definition vlist_ok :: "(nat \<times> bytes) list \<Rightarrow> nat \<Rightarrow> bool" where
  "vlist_ok vl n \<longleftrightarrow> (\<forall>e\<in>set vl. 1 \<le> fst e \<and> fst e \<le> n) \<and> n < 2 ^ 29"

definition target_ok :: "v8_api \<Rightarrow> (nat \<times> bytes) list \<Rightarrow> nat \<Rightarrow> bind_state \<Rightarrow> bool" where
  "target_ok v8 vl n b \<longleftrightarrow> length (aVar (b_handle b)) = n \<and> pVList (b_handle b) = vl \<and>
     (if b_has_bind_map b then bm_pairs (b_bind_map b) = named_pairs v8 vl n else b_bind_map b = BindMap_new)"

definition named_bound :: "v8_api \<Rightarrow> (nat \<times> bytes) list \<Rightarrow> (js_string \<times> js_property) list \<Rightarrow> sqlite3_value list \<Rightarrow> bool" where
  "named_bound v8 vl ps av \<longleftrightarrow>
     (\<forall>i z. map_of vl i = Some z \<longrightarrow>
        (\<exists>v. map_of ps (param_key v8 z) = Some (Property v) \<and> js_sql v8 v = Some (av ! (i - 1))))"

text \<open>The state after the positional values \<open>vs\<close> and the properties \<open>ob\<close>, if any, have been bound.\<close>

definition bound_inv ::
  "v8_api \<Rightarrow> (nat \<times> bytes) list \<Rightarrow> nat \<Rightarrow> js_value list \<Rightarrow> (js_string \<times> js_property) list option \<Rightarrow> bind_state \<Rightarrow> bool" where
  "bound_inv v8 vl n vs ob b \<longleftrightarrow> target_ok v8 vl n b \<and> b_success b \<and> b_anon_index b \<le> n \<and>
     list_all2 (\<lambda>v i. js_sql v8 v = Some (aVar (b_handle b) ! (i - 1))) vs (anon vl (b_anon_index b)) \<and>
     (\<forall>ps. ob = Some ps \<longrightarrow> named_bound v8 vl ps (aVar (b_handle b)))"

lemma BindValue_success:
  assumes "b_success (BindValue v8 v i b)" "1 \<le> i" "i < 2 ^ 32" "length (aVar (b_handle b)) < 2 ^ 31" "short_buffer v"
  shows "i \<le> length (aVar (b_handle b)) \<and> (\<exists>w. js_sql v8 v = Some w \<and>
    BindValue v8 v i b = b\<lparr>b_handle := (b_handle b)\<lparr>aVar := (aVar (b_handle b))[i - 1 := w]\<rparr>\<rparr>)"
proof -
  obtain r p where r: "BindValueFromJS v8 (b_handle b) i v = (r, p)" by fastforce
  with assms(1) have "r = SQLITE_OK" by (auto simp: BindValue_def Fail_def Let_def split: if_splits)
  with r BindValueFromJS_OK [of v8 "b_handle b" i v p] assms show ?thesis
    by (auto simp: BindValue_def Let_def)
qed

lemma anon_bounds: "i \<in> set (anon vl a) \<Longrightarrow> 1 \<le> i \<and> i \<le> a \<and> map_of vl i = None"
  by (auto simp: anon_def simp del: upt_Suc)

lemma bind_next_inv:
  assumes inv: "bound_inv v8 vl n vs ob b" and vl: "vlist_ok vl n" and v: "short_buffer v"
    and succ: "b_success (bind_next v8 v b)"
  shows "bound_inv v8 vl n (vs @ [v]) ob (bind_next v8 v b)"
proof -
  define i where "i = next_anon vl (b_anon_index b)"
  have t: "target_ok v8 vl n b" "b_anon_index b \<le> n" using inv by (auto simp: bound_inv_def)
  then have len: "length (aVar (b_handle b)) = n" "pVList (b_handle b) = vl" by (auto simp: target_ok_def)
  have i: "b_anon_index b < i" "map_of vl i = None" "i \<le> Suc n"
    using next_anon_spec [of "b_anon_index b" vl] next_anon_le [of vl n "b_anon_index b"] vl t(2)
    by (auto simp: i_def vlist_ok_def)
  let ?b = "b\<lparr>b_anon_index := i\<rparr>"
  have eq: "bind_next v8 v b = BindValue v8 v i ?b"
    by (simp add: bind_next_def NextAnonIndex_def len i_def Let_def)
  have "n < 2 ^ 29" using vl by (simp add: vlist_ok_def)
  then obtain w where w: "i \<le> n" "js_sql v8 v = Some w"
    "bind_next v8 v b = b\<lparr>b_anon_index := i, b_handle := (b_handle b)\<lparr>aVar := (aVar (b_handle b))[i - 1 := w]\<rparr>\<rparr>"
    using BindValue_success [of v8 v i ?b] succ v i len unfolding eq by auto
  let ?av = "(aVar (b_handle b))[i - 1 := w]"
  have old: "?av ! (j - 1) = aVar (b_handle b) ! (j - 1)" if "j \<in> set (anon vl (b_anon_index b))" for j
    using anon_bounds [OF that] i by (intro nth_list_update_neq) auto
  have a: "anon vl i = anon vl (b_anon_index b) @ [i]" unfolding i_def by (rule anon_next)
  have "list_all2 (\<lambda>v i'. js_sql v8 v = Some (?av ! (i' - 1))) vs (anon vl (b_anon_index b))"
    using inv old by (auto simp: bound_inv_def intro: list.rel_mono_strong)
  then have "list_all2 (\<lambda>v i'. js_sql v8 v = Some (?av ! (i' - 1))) (vs @ [v]) (anon vl i)"
    unfolding a using w i len by (intro list_all2_appendI) auto
  moreover have "named_bound v8 vl ps (?av)" if "named_bound v8 vl ps (aVar (b_handle b))" for ps
    unfolding named_bound_def
  proof (intro allI impI)
    fix j z
    assume j: "map_of vl j = Some z"
    then have "1 \<le> j" "j \<noteq> i" using vl i map_of_SomeD [OF j] by (fastforce simp: vlist_ok_def)+
    then have "?av ! (j - 1) = aVar (b_handle b) ! (j - 1)"
      using i by (intro nth_list_update_neq) auto
    then show "\<exists>v. map_of ps (param_key v8 z) = Some (Property v) \<and> js_sql v8 v = Some (?av ! (j - 1))"
      using that j by (simp add: named_bound_def)
  qed
  ultimately show ?thesis using inv w len
    by (auto simp: bound_inv_def target_ok_def)
qed

lemma bind_elements_inv:
  assumes "bind_elements v8 es i b = (m, b')" "b_success b'" "bound_inv v8 vl n vs ob b" "vlist_ok vl n"
    and "\<And>v. Some v \<in> set es \<Longrightarrow> short_buffer v"
  shows "\<exists>ws. es = map Some ws \<and> m = i + length ws \<and> bound_inv v8 vl n (vs @ ws) ob b'"
  using assms
proof (induction es arbitrary: i b vs)
  case (Cons e es)
  show ?case
  proof (cases e)
    case None
    then show ?thesis using Cons.prems by (auto simp: Fail_def)
  next
    case (Some v)
    let ?b = "bind_next v8 v b"
    have succ: "b_success ?b" and rest: "bind_elements v8 es (i + 1) ?b = (m, b')"
      using Cons.prems(1,2) unfolding Some by (auto simp: Let_def split: if_splits)
    have "bound_inv v8 vl n (vs @ [v]) ob ?b" using Cons.prems Some succ by (intro bind_next_inv) auto
    from Cons.IH [OF rest Cons.prems(2) this Cons.prems(4,5)] obtain ws where
      "es = map Some ws" "m = i + 1 + length ws" "bound_inv v8 vl n ((vs @ [v]) @ ws) ob b'" by auto
    then show ?thesis by (intro exI [of _ "v # ws"]) (simp add: Some)
  qed
qed auto

definition props_short :: "(js_string \<times> js_property) list \<Rightarrow> bool" where
  "props_short ps \<longleftrightarrow> (\<forall>k v. (k, Property v) \<in> set ps \<longrightarrow> short_buffer v)"

lemma bind_pairs_spec:
  assumes "bind_pairs v8 ps pairs i b = (m, b')" "b_success b'" "length (aVar (b_handle b)) < 2 ^ 31"
    and "\<And>q. q \<in> set pairs \<Longrightarrow> 1 \<le> snd q \<and> snd q < 2 ^ 32" "distinct (map snd pairs)"
    and "props_short ps"
  shows "m = i + length pairs \<and> (\<exists>av. b' = b\<lparr>b_handle := (b_handle b)\<lparr>aVar := av\<rparr>\<rparr> \<and> length av = length (aVar (b_handle b)) \<and>
    (\<forall>j. 1 \<le> j \<and> j \<notin> snd ` set pairs \<longrightarrow> av ! (j - 1) = aVar (b_handle b) ! (j - 1)) \<and>
    (\<forall>q\<in>set pairs. \<exists>v. map_of ps (fst q) = Some (Property v) \<and> js_sql v8 v = Some (av ! (snd q - 1))))"
  using assms
proof (induction pairs arbitrary: i b)
  case Nil
  then show ?case by (intro conjI exI [of _ "aVar (b_handle b)"]) auto
next
  case (Cons q pairs)
  obtain key index where q: "q = (key, index)" by fastforce
  obtain v where v: "map_of ps key = Some (Property v)"
    using Cons.prems(1,2) unfolding q by (auto simp: Fail_def split: option.splits js_property.splits)
  let ?b = "BindValue v8 v index b"
  have succ: "b_success ?b" and rest: "bind_pairs v8 ps pairs (i + 1) ?b = (m, b')"
    using Cons.prems(1,2) v unfolding q by (auto simp: Let_def split: if_splits)
  have "short_buffer v" using Cons.prems(6) map_of_SomeD [OF v] by (auto simp: props_short_def)
  with BindValue_success [OF succ] Cons.prems(3) Cons.prems(4) [of q] obtain w where
    w: "index \<le> length (aVar (b_handle b))" "js_sql v8 v = Some w"
      "?b = b\<lparr>b_handle := (b_handle b)\<lparr>aVar := (aVar (b_handle b))[index - 1 := w]\<rparr>\<rparr>"
    unfolding q by auto
  have ind: "1 \<le> index" "index \<notin> snd ` set pairs" using Cons.prems(4) [of q] Cons.prems(5) by (auto simp: q)
  have "m = i + 1 + length pairs \<and> (\<exists>av. b' = ?b\<lparr>b_handle := (b_handle ?b)\<lparr>aVar := av\<rparr>\<rparr> \<and> length av = length (aVar (b_handle ?b)) \<and>
    (\<forall>j. 1 \<le> j \<and> j \<notin> snd ` set pairs \<longrightarrow> av ! (j - 1) = aVar (b_handle ?b) ! (j - 1)) \<and>
    (\<forall>q\<in>set pairs. \<exists>v. map_of ps (fst q) = Some (Property v) \<and> js_sql v8 v = Some (av ! (snd q - 1))))"
    using Cons.prems w(3) by (intro Cons.IH rest) auto
  then obtain av where m: "m = i + 1 + length pairs" and b': "b' = ?b\<lparr>b_handle := (b_handle ?b)\<lparr>aVar := av\<rparr>\<rparr>"
    and len: "length av = length (aVar (b_handle ?b))"
    and other: "\<And>j. 1 \<le> j \<Longrightarrow> j \<notin> snd ` set pairs \<Longrightarrow> av ! (j - 1) = aVar (b_handle ?b) ! (j - 1)"
    and named: "\<forall>q\<in>set pairs. \<exists>v. map_of ps (fst q) = Some (Property v) \<and> js_sql v8 v = Some (av ! (snd q - 1))"
    by blast
  have "av ! (j - 1) = aVar (b_handle b) ! (j - 1)" if "1 \<le> j" "j \<notin> snd ` set (q # pairs)" for j
  proof -
    have "index - 1 \<noteq> j - 1" using that ind by (auto simp: q)
    then show ?thesis using other [of j] that w(3) by simp
  qed
  moreover have "av ! (index - 1) = w" using other [OF ind] w ind by simp
  ultimately show ?case using m b' len named v w
    by (intro conjI exI [of _ av]) (auto simp: q)
qed

lemma set_map_filter: "set (List.map_filter f xs) = {y. \<exists>x\<in>set xs. f x = Some y}"
  by (induction xs) (auto simp: map_filter_simps split: option.splits)

lemma named_pairs_set: "q \<in> set (named_pairs v8 vl n) \<longleftrightarrow>
    (\<exists>z. 1 \<le> snd q \<and> snd q \<le> n \<and> map_of vl (snd q) = Some z \<and> fst q = param_key v8 z)"
  by (cases q) (auto simp: named_pairs_def set_map_filter Bex_def simp del: upt_Suc)

lemma snd_named_pairs: "map snd (named_pairs v8 vl n) = filter (\<lambda>i. map_of vl i \<noteq> None) [1..<Suc n]"
proof -
  have "map snd (List.map_filter (\<lambda>i. map_option (\<lambda>z. (param_key v8 z, i)) (map_of vl i)) xs) =
    filter (\<lambda>i. map_of vl i \<noteq> None) xs" for xs :: "nat list"
    by (induction xs) (auto simp: map_filter_simps)
  then show ?thesis by (simp add: named_pairs_def)
qed

lemma named_anon_count: "length (named_pairs v8 vl n) + length (anon vl n) = n"
proof -
  have "length (named_pairs v8 vl n) = length (filter (\<lambda>i. map_of vl i \<noteq> None) [1..<Suc n])"
    by (metis length_map snd_named_pairs)
  then show ?thesis using sum_length_filter_compl [of "\<lambda>i. map_of vl i = None" "[1..<Suc n]"]
    by (simp add: anon_def del: upt_Suc)
qed

lemma GetBindMap_inv:
  assumes "target_ok v8 vl n b" "vlist_ok vl n"
  shows "target_ok v8 vl n (GetBindMap v8 b) \<and> bm_pairs (b_bind_map (GetBindMap v8 b)) = named_pairs v8 vl n \<and>
    b_handle (GetBindMap v8 b) = b_handle b \<and> b_success (GetBindMap v8 b) = b_success b \<and>
    b_anon_index (GetBindMap v8 b) = b_anon_index b \<and> b_has_bind_map (GetBindMap v8 b)"
proof (cases "b_has_bind_map b")
  case True
  then show ?thesis using assms by (simp add: GetBindMap_def target_ok_def)
next
  case False
  have "sqlite3_bind_parameter_count (b_handle b) = n" using assms by (simp add: target_ok_def sqlite3_bind_parameter_count_def)
  with GetBindMap_pairs [of b v8] assms False show ?thesis
    by (auto simp: target_ok_def vlist_ok_def) (simp_all add: GetBindMap_def)
qed

lemma GetBindMap_bound_inv:
  "bound_inv v8 vl n vs ob b \<Longrightarrow> vlist_ok vl n \<Longrightarrow> bound_inv v8 vl n vs ob (GetBindMap v8 b)"
  using GetBindMap_inv [of v8 vl n b] by (auto simp: bound_inv_def)

lemma BindObject_inv:
  assumes "BindObject v8 ps b = (m, b')" "b_success b'" "bound_inv v8 vl n vs None b" "vlist_ok vl n"
    and "props_short ps"
  shows "m = length (named_pairs v8 vl n) \<and> bound_inv v8 vl n vs (Some ps) b'"
proof -
  let ?b = "GetBindMap v8 b" and ?pairs = "named_pairs v8 vl n"
  have t: "target_ok v8 vl n ?b" "bm_pairs (b_bind_map ?b) = ?pairs" "b_has_bind_map ?b"
    and inv: "bound_inv v8 vl n vs None ?b"
    using assms GetBindMap_inv [of v8 vl n b] GetBindMap_bound_inv [of v8 vl n vs None b] by (auto simp: bound_inv_def)
  have p: "bind_pairs v8 ps ?pairs 0 ?b = (m, b')" using assms(1) t(2) by (simp add: BindObject_def Let_def)
  have n: "n < 2 ^ 29" using assms(4) by (simp add: vlist_ok_def)
  have d: "distinct (map snd ?pairs)" unfolding snd_named_pairs by simp
  have i: "1 \<le> snd q \<and> snd q < 2 ^ 32" if "q \<in> set ?pairs" for q
    using that n by (auto simp: named_pairs_set)
  have l: "length (aVar (b_handle ?b)) < 2 ^ 31" using t(1) n by (simp add: target_ok_def)
  obtain av where m: "m = length ?pairs" and b': "b' = ?b\<lparr>b_handle := (b_handle ?b)\<lparr>aVar := av\<rparr>\<rparr>"
    and len: "length av = length (aVar (b_handle ?b))"
    and other: "\<And>j. 1 \<le> j \<Longrightarrow> j \<notin> snd ` set ?pairs \<Longrightarrow> av ! (j - 1) = aVar (b_handle ?b) ! (j - 1)"
    and named: "\<forall>q\<in>set ?pairs. \<exists>v. map_of ps (fst q) = Some (Property v) \<and> js_sql v8 v = Some (av ! (snd q - 1))"
    using bind_pairs_spec [OF p assms(2) l i d assms(5)] by auto
  have "av ! (j - 1) = aVar (b_handle ?b) ! (j - 1)" if "j \<in> set (anon vl (b_anon_index ?b))" for j
    using anon_bounds [OF that] by (intro other) (auto simp: named_pairs_set)
  then have "list_all2 (\<lambda>v i. js_sql v8 v = Some (av ! (i - 1))) vs (anon vl (b_anon_index ?b))"
    using inv by (auto simp: bound_inv_def intro: list.rel_mono_strong)
  moreover have "named_bound v8 vl ps av"
    unfolding named_bound_def
  proof (intro allI impI)
    fix i z
    assume z: "map_of vl i = Some z"
    then have "(param_key v8 z, i) \<in> set ?pairs"
      using map_of_SomeD [OF z] assms(4) by (fastforce simp: named_pairs_set vlist_ok_def)
    with named show "\<exists>v. map_of ps (param_key v8 z) = Some (Property v) \<and> js_sql v8 v = Some (av ! (i - 1))" by fastforce
  qed
  ultimately show ?thesis using m inv t len unfolding b' by (auto simp: bound_inv_def target_ok_def)
qed

text \<open>The positional values of the arguments, and the properties of the plain object among them.\<close>

definition arg_values :: "js_value \<Rightarrow> js_value list" where
  "arg_values a = (case a of JsArray es \<Rightarrow> map the es | _ \<Rightarrow> if IsPlainObject a then [] else [a])"

definition positional :: "js_value list \<Rightarrow> js_value list" where
  "positional args = concat (map arg_values args)"

definition named_object :: "js_value list \<Rightarrow> (js_string \<times> js_property) list option" where
  "named_object args = map_option properties (List.find IsPlainObject args)"

definition final_object :: "(js_string \<times> js_property) list option \<Rightarrow> js_value list \<Rightarrow> (js_string \<times> js_property) list option" where
  "final_object ob args = (if ob = None then named_object args else ob)"

lemma positional_simps [simp]: "positional [] = []" "positional (a # args) = arg_values a @ positional args"
  by (simp_all add: positional_def)

lemma final_object_simps [simp]:
  "final_object ob [] = ob" "final_object (Some ps) args = Some ps"
  "\<not> IsPlainObject a \<Longrightarrow> final_object ob (a # args) = final_object ob args"
  "IsPlainObject a \<Longrightarrow> final_object None (a # args) = Some (properties a)"
  by (simp_all add: final_object_def named_object_def)

definition arg_short :: "js_value \<Rightarrow> bool" where
  "arg_short a \<longleftrightarrow>
     (case a of
        JsArray es \<Rightarrow> (\<forall>v. Some v \<in> set es \<longrightarrow> short_buffer v)
      | JsObject _ ps \<Rightarrow> props_short ps
      | _ \<Rightarrow> short_buffer a)"

lemma BindArgs_other:
  assumes "\<And>arr. arg \<noteq> JsArray arr"
  shows "BindArgs v8 (arg # args) cnt bound_object b =
    (if IsPlainObject arg then
       if bound_object then
         ((cnt, bound_object), Fail (TypeError (lit ''You cannot specify named parameters in two different objects'')) b)
       else
         (case BindObject v8 (properties arg) b of
            (n, b) \<Rightarrow> if \<not> b_success b then ((cnt + n, True), b) else BindArgs v8 args (cnt + n) True b)
     else
       let b = (if other_object arg then GetBindMap v8 b else b)
       in if other_object arg \<and> BindMap_GetSize (b_bind_map b) \<noteq> 0 then
            ((cnt, bound_object), Fail (TypeError (lit ''Named parameters can only be passed within plain objects'')) b)
          else
            let b = bind_next v8 arg b
            in if \<not> b_success b then ((cnt, bound_object), b) else BindArgs v8 args (cnt + 1) bound_object b)"
  using assms by (cases arg) (auto simp: other_object_def IsPlainObject_def)

definition args_counted :: "v8_api \<Rightarrow> (nat \<times> bytes) list \<Rightarrow> nat \<Rightarrow> js_value list \<Rightarrow> (js_string \<times> js_property) list option \<Rightarrow> nat" where
  "args_counted v8 vl n vs ob = length vs + (if ob = None then 0 else length (named_pairs v8 vl n))"

lemma BindArgs_inv:
  assumes "BindArgs v8 args (args_counted v8 vl n vs ob) (ob \<noteq> None) b = ((c, bo), b')" "b_success b'"
    and "bound_inv v8 vl n vs ob b" "vlist_ok vl n" "\<forall>a\<in>set args. arg_short a"
  shows "bo = (final_object ob args \<noteq> None) \<and> bound_inv v8 vl n (vs @ positional args) (final_object ob args) b' \<and>
    c = args_counted v8 vl n (vs @ positional args) (final_object ob args)"
  using assms
proof (induction args arbitrary: vs ob b)
  case Nil
  then show ?case by auto
next
  case (Cons a args)
  let ?cnt = "args_counted v8 vl n vs ob"
  have short: "arg_short a" "\<forall>a\<in>set args. arg_short a" using Cons.prems by auto
  consider (array) arr where "a = JsArray arr" | (plain) "IsPlainObject a" "\<And>arr. a \<noteq> JsArray arr"
    | (val) "\<not> IsPlainObject a" "\<And>arr. a \<noteq> JsArray arr" by blast
  then show ?case
  proof cases
    case array
    obtain m b1 where m: "BindArray v8 arr b = (m, b1)" by fastforce
    have succ: "b_success b1" and rest: "BindArgs v8 args (?cnt + m) (ob \<noteq> None) b1 = ((c, bo), b')"
      using Cons.prems(1,2) unfolding array by (auto simp: m split: if_splits)
    have "bind_elements v8 arr 0 b = (m, b1)" using m succ by (auto simp: BindArray_def Fail_def split: if_splits)
    from bind_elements_inv [OF this succ Cons.prems(3,4)] short(1) obtain ws where
      ws: "arr = map Some ws" "m = length ws" "bound_inv v8 vl n (vs @ ws) ob b1"
      by (auto simp: array arg_short_def)
    have "args_counted v8 vl n (vs @ ws) ob = ?cnt + m" by (simp add: args_counted_def ws)
    with Cons.IH [of "vs @ ws" ob b1] rest Cons.prems(2,4) ws(3) short show ?thesis
      by (simp add: array ws(1) arg_values_def IsPlainObject_def comp_def)
  next
    case plain
    obtain m b1 where m: "BindObject v8 (properties a) b = (m, b1)" by fastforce
    have ob: "ob = None" and succ: "b_success b1" and rest: "BindArgs v8 args (?cnt + m) True b1 = ((c, bo), b')"
      using Cons.prems(1,2) plain(1) unfolding BindArgs_other [OF plain(2)] by (auto simp: m Fail_def split: if_splits)
    have "props_short (properties a)"
      using short(1) plain(1) by (cases a) (auto simp: arg_short_def IsPlainObject_def)
    from BindObject_inv [OF m succ _ Cons.prems(4) this] Cons.prems(3) ob have
      inv: "m = length (named_pairs v8 vl n)" "bound_inv v8 vl n vs (Some (properties a)) b1" by auto
    have cnt: "args_counted v8 vl n vs (Some (properties a)) = ?cnt + m" by (simp add: args_counted_def ob inv)
    have v: "arg_values a = []" using plain by (cases a) (auto simp: arg_values_def)
    show ?thesis
      using Cons.IH [of vs "Some (properties a)" b1] rest Cons.prems(2,4) inv(2) short cnt plain(1)
      by (simp add: ob v)
  next
    case val
    let ?b = "if other_object a then GetBindMap v8 b else b"
    have succ: "b_success (bind_next v8 a ?b)"
      and rest: "BindArgs v8 args (?cnt + 1) (ob \<noteq> None) (bind_next v8 a ?b) = ((c, bo), b')"
      using Cons.prems(1,2) val(1) unfolding BindArgs_other [OF val(2)] by (auto simp: Let_def Fail_def split: if_splits)
    have "bound_inv v8 vl n vs ob ?b" using Cons.prems(3,4) by (simp add: GetBindMap_bound_inv)
    moreover have "short_buffer a" using short(1) val by (cases a) (auto simp: arg_short_def short_buffer_def)
    ultimately have inv: "bound_inv v8 vl n (vs @ [a]) ob (bind_next v8 a ?b)"
      using bind_next_inv Cons.prems(4) succ by blast
    have cnt: "args_counted v8 vl n (vs @ [a]) ob = ?cnt + 1" by (simp add: args_counted_def)
    have v: "arg_values a = [a]" using val by (cases a) (auto simp: arg_values_def)
    show ?thesis using Cons.IH [of "vs @ [a]" ob "bind_next v8 a ?b"] rest Cons.prems(2,4) inv short cnt val(1)
      by (simp add: v)
  qed
qed

subsection \<open>Failures\<close>

text \<open>A failure leaves an exception; the parameters of the statement and its bind map stay consistent.\<close>

definition fail_ok :: "v8_api \<Rightarrow> (nat \<times> bytes) list \<Rightarrow> nat \<Rightarrow> bind_state \<Rightarrow> bool" where
  "fail_ok v8 vl n b \<longleftrightarrow> target_ok v8 vl n b \<and> (b_success b \<or> b_thrown b \<noteq> None)"

lemma vdbeUnbind_params:
  "vdbeUnbind p i = (r, p') \<Longrightarrow> length (aVar p') = length (aVar p) \<and> pVList p' = pVList p"
  by (auto simp: vdbeUnbind_def split: if_splits)

lemma BindValueFromJS_params:
  "BindValueFromJS v8 p i v = (r, p') \<Longrightarrow> length (aVar p') = length (aVar p) \<and> pVList p' = pVList p"
  by (cases v) (auto simp: BindValueFromJS_def JS_VALUE_TO_SQLITE_def bindText_def sqlite3_bind_double_def Let_def
      sqlite3_bind_int64_def sqlite3_bind_text_def sqlite3_bind_blob_def sqlite3_bind_null_def
      dest!: vdbeUnbind_params split: prod.splits if_splits)

lemma fail_ok_Fail [simp]: "fail_ok v8 vl n (Fail e b) = target_ok v8 vl n b"
  by (simp add: fail_ok_def Fail_def target_ok_def)

lemma fail_ok_target: "fail_ok v8 vl n b \<Longrightarrow> target_ok v8 vl n b"
  by (simp add: fail_ok_def)

lemma fail_ok_BindValue: "fail_ok v8 vl n b \<Longrightarrow> fail_ok v8 vl n (BindValue v8 v i b)"
  using BindValueFromJS_params [of v8 "b_handle b" i v]
  by (cases "BindValueFromJS v8 (b_handle b) i v") (auto simp: BindValue_def fail_ok_def target_ok_def Let_def Fail_def)

lemma fail_ok_bind_next: "fail_ok v8 vl n b \<Longrightarrow> fail_ok v8 vl n (bind_next v8 v b)"
  by (auto simp: bind_next_def NextAnonIndex_def Let_def intro!: fail_ok_BindValue) (simp add: fail_ok_def target_ok_def)

lemma fail_ok_bind_elements: "fail_ok v8 vl n b \<Longrightarrow> fail_ok v8 vl n (snd (bind_elements v8 es i b))"
  by (induction v8 es i b rule: bind_elements.induct) (auto simp: Let_def fail_ok_target fail_ok_bind_next)

lemma fail_ok_BindArray: "fail_ok v8 vl n b \<Longrightarrow> fail_ok v8 vl n (snd (BindArray v8 arr b))"
  by (simp add: BindArray_def fail_ok_bind_elements fail_ok_target)

lemma fail_ok_bind_pairs: "fail_ok v8 vl n b \<Longrightarrow> fail_ok v8 vl n (snd (bind_pairs v8 ps pairs i b))"
  by (induction v8 ps pairs i b rule: bind_pairs.induct)
    (auto simp: Let_def fail_ok_target fail_ok_BindValue split: option.splits js_property.splits)

lemma GetBindMap_thrown [simp]: "b_thrown (GetBindMap v8 b) = b_thrown b" "b_success (GetBindMap v8 b) = b_success b"
  by (simp_all add: GetBindMap_def)

lemma fail_ok_GetBindMap: "fail_ok v8 vl n b \<Longrightarrow> vlist_ok vl n \<Longrightarrow> fail_ok v8 vl n (GetBindMap v8 b)"
  using GetBindMap_inv [of v8 vl n b] by (auto simp: fail_ok_def)

lemma fail_ok_BindObject: "fail_ok v8 vl n b \<Longrightarrow> vlist_ok vl n \<Longrightarrow> fail_ok v8 vl n (snd (BindObject v8 ps b))"
  by (simp add: BindObject_def Let_def fail_ok_bind_pairs fail_ok_GetBindMap)

lemma fail_ok_BindArgs:
  "fail_ok v8 vl n b \<Longrightarrow> vlist_ok vl n \<Longrightarrow> fail_ok v8 vl n (snd (BindArgs v8 args cnt bo b))"
proof (induction args arbitrary: cnt bo b)
  case (Cons a args)
  show ?case
  proof (cases "\<exists>arr. a = JsArray arr")
    case True
    then show ?thesis using Cons fail_ok_BindArray [OF Cons.prems(1)] by (auto split: prod.split) (metis snd_conv)+
  next
    case False
    then have na: "\<And>arr. a \<noteq> JsArray arr" by blast
    let ?b = "if other_object a then GetBindMap v8 b else b"
    have g: "fail_ok v8 vl n ?b" using Cons.prems by (simp add: fail_ok_GetBindMap)
    then have "fail_ok v8 vl n (bind_next v8 a ?b)" by (rule fail_ok_bind_next)
    moreover have "fail_ok v8 vl n (snd (BindObject v8 (properties a) b))" using Cons.prems by (rule fail_ok_BindObject)
    ultimately show ?thesis using Cons fail_ok_target [OF g] unfolding BindArgs_other [OF na]
      by (cases "BindObject v8 (properties a) b"; cases "other_object a") (simp_all add: Let_def fail_ok_target)
  qed
qed simp

lemma fail_ok_Bind: "fail_ok v8 vl n b \<Longrightarrow> vlist_ok vl n \<Longrightarrow> fail_ok v8 vl n (Bind v8 args b)"
  using fail_ok_BindArgs [of v8 vl n b args 0 False]
  by (cases "BindArgs v8 args 0 False b")
    (auto simp: Bind_def Let_def fail_ok_target dest: fail_ok_target fail_ok_GetBindMap split: prod.split)

text \<open>What holds of the parameters of a statement and its bind map between calls.\<close>

definition params_ok :: "v8_api \<Rightarrow> vdbe \<Rightarrow> bool \<Rightarrow> bind_map \<Rightarrow> bool" where
  "params_ok v8 p has bm \<longleftrightarrow> vlist_ok (pVList p) (length (aVar p)) \<and>
     (if has then bm_pairs bm = named_pairs v8 (pVList p) (length (aVar p)) else bm = BindMap_new)"

lemma STATEMENT_BIND_params:
  assumes "params_ok v8 p has bm"
  shows "let b = STATEMENT_BIND v8 args p has bm
    in params_ok v8 (b_handle b) (b_has_bind_map b) (b_bind_map b) \<and> length (aVar (b_handle b)) = length (aVar p) \<and>
       (b_success b \<or> b_thrown b \<noteq> None)"
proof -
  have "fail_ok v8 (pVList p) (length (aVar p)) (Bind v8 args (Binder_new p has bm))"
    using assms by (intro fail_ok_Bind) (simp_all add: fail_ok_def target_ok_def Binder_new_def params_ok_def)
  then show ?thesis using assms
    by (auto simp: STATEMENT_BIND_def Let_def fail_ok_def target_ok_def params_ok_def sqlite3_clear_bindings_def)
qed

lemma STATEMENT_BIND_fail:
  assumes "\<not> b_success (STATEMENT_BIND v8 args p has bm)" "params_ok v8 p has bm"
  shows "aVar (b_handle (STATEMENT_BIND v8 args p has bm)) = replicate (length (aVar p)) VNull \<and>
    b_thrown (STATEMENT_BIND v8 args p has bm) \<noteq> None"
  using STATEMENT_BIND_params [OF assms(2), of args] assms(1)
  by (auto simp: STATEMENT_BIND_def Let_def sqlite3_clear_bindings_def split: if_splits)

subsection \<open>Success\<close>

lemma prefix_anon: "a \<le> n \<Longrightarrow> \<exists>zs. anon vl n = anon vl a @ zs"
proof -
  assume "a \<le> n"
  then obtain d where "n = a + d" using le_Suc_ex by blast
  then have "[1..<Suc n] = [1..<Suc a] @ [Suc a..<Suc a + d]" using upt_add_eq_append [of 1 "Suc a" d] by simp
  then show ?thesis by (auto simp: anon_def)
qed

lemma Bind_success:
  assumes "b_success (Bind v8 args (Binder_new p has bm))" "vlist_ok (pVList p) n" "length (aVar p) = n"
    and "if has then bm_pairs bm = named_pairs v8 (pVList p) n else bm = BindMap_new" "\<forall>a\<in>set args. arg_short a"
  shows "\<exists>ob. ob = named_object args \<and> (ob = None \<longrightarrow> named_pairs v8 (pVList p) n = []) \<and>
    anon (pVList p) (b_anon_index (Bind v8 args (Binder_new p has bm))) = anon (pVList p) n \<and>
    bound_inv v8 (pVList p) n (positional args) ob (Bind v8 args (Binder_new p has bm))"
proof -
  let ?b0 = "Binder_new p has bm" and ?vl = "pVList p"
  have init: "bound_inv v8 ?vl n [] None ?b0"
    using assms(3,4) by (auto simp: bound_inv_def target_ok_def Binder_new_def anon_def)
  obtain c bo b1 where r: "BindArgs v8 args 0 False ?b0 = ((c, bo), b1)" by (metis prod.exhaust)
  have b1: "b_success b1" "c = sqlite3_bind_parameter_count (b_handle b1)" "Bind v8 args ?b0 = b1"
    using assms(1) r by (auto simp: Bind_def Let_def Fail_def split: if_splits)
  have "BindArgs v8 args (args_counted v8 ?vl n [] None) (None \<noteq> None) ?b0 = ((c, bo), b1)"
    using r by (simp add: args_counted_def)
  from BindArgs_inv [OF this b1(1) init assms(2,5)] have
    inv: "bound_inv v8 ?vl n (positional args) (named_object args) b1"
    and c: "c = args_counted v8 ?vl n (positional args) (named_object args)"
    by (auto simp: final_object_def)
  have cn: "c = n" using b1(2) inv by (simp add: bound_inv_def target_ok_def sqlite3_bind_parameter_count_def)
  have pos: "length (positional args) = length (anon ?vl (b_anon_index b1))"
    using inv by (auto simp: bound_inv_def dest: list_all2_lengthD)
  obtain zs where zs: "anon ?vl n = anon ?vl (b_anon_index b1) @ zs"
    using inv prefix_anon [of "b_anon_index b1" n ?vl] by (auto simp: bound_inv_def)
  have sum: "length (named_pairs v8 ?vl n) + length (anon ?vl (b_anon_index b1)) + length zs = n"
    using named_anon_count [of v8 ?vl n] zs by simp
  have bound: "length (anon ?vl (b_anon_index b1)) + (if named_object args = None then 0 else length (named_pairs v8 ?vl n)) = n"
    using c cn pos by (simp add: args_counted_def)
  then have "length zs = 0" using sum by (auto split: if_splits simp del: length_0_conv)
  moreover have "named_object args = None \<longrightarrow> named_pairs v8 ?vl n = []" using bound sum by auto
  ultimately have "zs = [] \<and> (named_object args = None \<longrightarrow> named_pairs v8 ?vl n = [])" by simp
  with inv zs show ?thesis unfolding b1(3) by auto
qed

section \<open>Properties\<close>

text \<open>The bind map of a statement has the named parameters in order, each with its name without the
  first character; its array has room for them, and less than twice the room needed.\<close>

theorem bind_map_named:
  assumes "length (aVar p) < 2 ^ 29"
  shows "bm_pairs (b_bind_map (GetBindMap v8 (Binder_new p False BindMap_new))) = named_pairs v8 (pVList p) (length (aVar p)) \<and>
    bind_map_inv (b_bind_map (GetBindMap v8 (Binder_new p False BindMap_new)))"
  using GetBindMap_pairs [of "Binder_new p False BindMap_new" v8] assms
  by (simp add: Binder_new_def sqlite3_bind_parameter_count_def)

theorem bind_map_named_witness:
  "bm_pairs (b_bind_map (GetBindMap example_v8 (Binder_new example_vdbe False BindMap_new))) =
      named_pairs example_v8 (pVList example_vdbe) (length (aVar example_vdbe)) \<and>
    bind_map_inv (b_bind_map (GetBindMap example_v8 (Binder_new example_vdbe False BindMap_new)))"
  by (rule bind_map_named) (simp add: example_vdbe_def)

text \<open>C26: If binding succeeds then every parameter of the statement has been bound: the anonymous ones, in
  order, to the values given directly or in arrays, of which there are exactly as many, and each
  named one to the property of its name in the one plain object.  If it fails then there is an
  exception and all parameters are null.\<close>

theorem bind_complete:
  assumes "params_ok v8 p has bm" "\<forall>a\<in>set args. arg_short a"
  shows "let b = STATEMENT_BIND v8 args p has bm; av = aVar (b_handle b)
    in length av = length (aVar p) \<and>
       (if b_success b
        then list_all2 (\<lambda>v i. js_sql v8 v = Some (av ! (i - 1))) (positional args) (anon (pVList p) (length (aVar p))) \<and>
             (\<forall>i z. map_of (pVList p) i = Some z \<longrightarrow>
                (\<exists>ps v. named_object args = Some ps \<and> map_of ps (param_key v8 z) = Some (Property v) \<and>
                   js_sql v8 v = Some (av ! (i - 1))))
        else b_thrown b \<noteq> None \<and> av = replicate (length (aVar p)) VNull)"
proof -
  let ?b = "STATEMENT_BIND v8 args p has bm" and ?n = "length (aVar p)"
  show ?thesis
  proof (cases "b_success ?b")
    case False
    then show ?thesis using STATEMENT_BIND_fail [OF False assms(1)] by (simp add: Let_def)
  next
    case True
    then have eq: "?b = Bind v8 args (Binder_new p has bm)" by (auto simp: STATEMENT_BIND_def Let_def split: if_splits)
    have p: "vlist_ok (pVList p) ?n" "if has then bm_pairs bm = named_pairs v8 (pVList p) ?n else bm = BindMap_new"
      using assms(1) by (simp_all add: params_ok_def)
    from Bind_success [OF True [unfolded eq] p(1) refl p(2) assms(2)]
    have inv: "bound_inv v8 (pVList p) ?n (positional args) (named_object args) ?b"
      and full: "anon (pVList p) (b_anon_index ?b) = anon (pVList p) ?n"
      and none: "named_object args = None \<longrightarrow> named_pairs v8 (pVList p) ?n = []" unfolding eq by auto
    have "\<exists>ps v. named_object args = Some ps \<and> map_of ps (param_key v8 z) = Some (Property v) \<and>
        js_sql v8 v = Some (aVar (b_handle ?b) ! (i - 1))" if z: "map_of (pVList p) i = Some z" for i z
    proof (cases "named_object args")
      case None
      then have "(param_key v8 z, i) \<notin> set (named_pairs v8 (pVList p) ?n)" using none by simp
      then show ?thesis using map_of_SomeD [OF z] z p(1) by (fastforce simp: named_pairs_set vlist_ok_def)
    next
      case (Some ps)
      then show ?thesis using inv z by (auto simp: bound_inv_def named_bound_def)
    qed
    then show ?thesis using True inv full by (auto simp: Let_def bound_inv_def target_ok_def)
  qed
qed

definition example_args :: "js_value list" where
  "example_args = [JsNumber 0x4000000000000000, JsObject True [([0x61], Property JsNull)], JsArray [Some (JsBigInt 5)]]"

theorem bind_complete_witness:
  "let b = STATEMENT_BIND example_v8 example_args example_vdbe False BindMap_new; av = aVar (b_handle b)
    in length av = length (aVar example_vdbe) \<and>
       (if b_success b
        then list_all2 (\<lambda>v i. js_sql example_v8 v = Some (av ! (i - 1))) (positional example_args)
               (anon (pVList example_vdbe) (length (aVar example_vdbe))) \<and>
             (\<forall>i z. map_of (pVList example_vdbe) i = Some z \<longrightarrow>
                (\<exists>ps v. named_object example_args = Some ps \<and> map_of ps (param_key example_v8 z) = Some (Property v) \<and>
                   js_sql example_v8 v = Some (av ! (i - 1))))
        else b_thrown b \<noteq> None \<and> av = replicate (length (aVar example_vdbe)) VNull)"
  by (rule bind_complete) (simp_all add: params_ok_def example_vdbe_def vlist_ok_def example_args_def arg_short_def short_buffer_def props_short_def)

end
