(* ===== verification/SqlText.thy ===== *)
theory SqlText
  imports Prelude "HOL-Library.Sublist"
begin

text \<open>
  What the addon reads off the text of an SQL statement: the tables a query names
  (\<open>RegisterTablesFromSql\<close> of util/noria.cpp), whether a prepared statement is followed by
  another one (\<open>Statement::JS_new\<close>) and the kind of a write statement with its table
  (\<open>Statement::DetectStatementType\<close>, objects/statement.cpp).

  A C string is the list of its bytes without the terminating nul, so that \<open>*p\<close> is nul
  exactly for the empty list; a \<open>std::string\<close> is indexed by position.
\<close>

section \<open>Characters\<close>

definition toupper :: "u8 \<Rightarrow> u8" where
  "toupper c = (if 0x61 \<le> c \<and> c \<le> 0x7a then c - 0x20 else c)"

definition isspace :: "u8 \<Rightarrow> bool" where
  "isspace c \<longleftrightarrow> c = 0x20 \<or> 9 \<le> c \<and> c \<le> 13"

definition IS_SKIPPED :: "u8 \<Rightarrow> bool" where
  "IS_SKIPPED c \<longleftrightarrow> c = 0x20 \<or> c = 0x3b \<or> 9 \<le> c \<and> c \<le> 13"

text \<open>\<open>strncasecmp(p, key, strlen(key)) == 0\<close> for a key in upper case.\<close>

definition starts_with :: "bytes \<Rightarrow> bytes \<Rightarrow> bool" where
  "starts_with key p \<longleftrightarrow> map toupper (take (length key) p) = key"

abbreviation kw_FROM :: bytes where "kw_FROM \<equiv> [0x46, 0x52, 0x4f, 0x4d]"
abbreviation kw_JOIN :: bytes where "kw_JOIN \<equiv> [0x4a, 0x4f, 0x49, 0x4e]"
abbreviation kw_INNER_JOIN :: bytes where "kw_INNER_JOIN \<equiv> [0x49, 0x4e, 0x4e, 0x45, 0x52, 0x20, 0x4a, 0x4f, 0x49, 0x4e]"
abbreviation kw_LEFT_JOIN :: bytes where "kw_LEFT_JOIN \<equiv> [0x4c, 0x45, 0x46, 0x54, 0x20, 0x4a, 0x4f, 0x49, 0x4e]"
abbreviation kw_RIGHT_JOIN :: bytes where "kw_RIGHT_JOIN \<equiv> [0x52, 0x49, 0x47, 0x48, 0x54, 0x20, 0x4a, 0x4f, 0x49, 0x4e]"
abbreviation kw_CROSS_JOIN :: bytes where "kw_CROSS_JOIN \<equiv> [0x43, 0x52, 0x4f, 0x53, 0x53, 0x20, 0x4a, 0x4f, 0x49, 0x4e]"
abbreviation kw_INSERT :: bytes where "kw_INSERT \<equiv> [0x49, 0x4e, 0x53, 0x45, 0x52, 0x54]"
abbreviation kw_INTO :: bytes where "kw_INTO \<equiv> [0x49, 0x4e, 0x54, 0x4f]"
abbreviation kw_UPDATE :: bytes where "kw_UPDATE \<equiv> [0x55, 0x50, 0x44, 0x41, 0x54, 0x45]"
abbreviation kw_DELETE :: bytes where "kw_DELETE \<equiv> [0x44, 0x45, 0x4c, 0x45, 0x54, 0x45]"
abbreviation kw_SELECT :: bytes where "kw_SELECT \<equiv> [0x53, 0x45, 0x4c, 0x45, 0x43, 0x54]"

section \<open>The tables of a query\<close>

text \<open>\<open>s.find(kw, pos)\<close>.\<close>

function find_from :: "bytes \<Rightarrow> bytes \<Rightarrow> nat \<Rightarrow> nat option" where
  "find_from kw s pos =
     (if length s < pos + length kw then None
      else if take (length kw) (drop pos s) = kw then Some pos
      else find_from kw s (pos + 1))"
  by auto
termination by (relation "measure (\<lambda>(kw, s, pos). length s + 1 - pos)") auto

declare find_from.simps [simp del]

text \<open>\<open>while (pos < s.length() && P(s[pos])) pos++\<close>.\<close>

definition skip_while :: "(u8 \<Rightarrow> bool) \<Rightarrow> bytes \<Rightarrow> nat \<Rightarrow> nat" where
  "skip_while P s pos = pos + length (takeWhile P (drop pos s))"

definition substr :: "bytes \<Rightarrow> nat \<Rightarrow> nat \<Rightarrow> bytes" where
  "substr s i j = take (j - i) (drop i s)"

definition from_name_char :: "u8 \<Rightarrow> bool" where
  "from_name_char c \<longleftrightarrow> \<not> isspace c \<and> c \<noteq> 0x2c \<and> c \<noteq> 0x28 \<and> c \<noteq> 0x29"

definition join_name_char :: "u8 \<Rightarrow> bool" where
  "join_name_char c \<longleftrightarrow> \<not> isspace c \<and> c \<noteq> 0x28 \<and> c \<noteq> 0x29"

text \<open>The table after the first FROM, copied from the statement in its own case.\<close>

definition from_tables :: "bytes \<Rightarrow> bytes list" where
  "from_tables sql =
     (let sql_upper = map toupper sql in
      case find_from kw_FROM sql_upper 0 of
        None \<Rightarrow> []
      | Some from_pos \<Rightarrow>
          let start = skip_while isspace sql_upper (from_pos + 4);
              pos = skip_while from_name_char sql_upper start
          in if pos > start then [substr sql start pos] else [])"

text \<open>The loop for one of the join keywords; none of them is empty.\<close>

function join_tables :: "bytes \<Rightarrow> bytes \<Rightarrow> nat \<Rightarrow> bytes list" where
  "join_tables join_kw sql pos =
     (let sql_upper = map toupper sql in
      case find_from join_kw sql_upper pos of
        None \<Rightarrow> []
      | Some i \<Rightarrow>
          let start = skip_while isspace sql_upper (i + length join_kw);
              pos' = skip_while join_name_char sql_upper start
          in if join_kw = [] then []
             else (if pos' > start then [substr sql start pos'] else []) @ join_tables join_kw sql pos')"
  by auto

lemma find_from_sound:
  "find_from kw s pos = Some i \<Longrightarrow> pos \<le> i \<and> i + length kw \<le> length s \<and> take (length kw) (drop i s) = kw"
proof (induction kw s pos rule: find_from.induct)
  case (1 kw s pos)
  from 1(2) show ?case
    by (subst (asm) find_from.simps) (auto split: if_splits dest: 1(1))
qed

termination join_tables
proof (relation "measure (\<lambda>(kw, sql, pos). length sql + 1 - pos)", simp, clarsimp)
  fix kw :: bytes and sql :: bytes and pos i
  assume "find_from kw (map toupper sql) pos = Some i" and "kw \<noteq> []"
  then have "pos \<le> i" "i + length kw \<le> length sql" "0 < length kw"
    using find_from_sound [of kw "map toupper sql" pos i] by auto
  then show "Suc (length sql) - skip_while join_name_char (map toupper sql)
      (skip_while isspace (map toupper sql) (i + length kw)) < Suc (length sql) - pos"
    unfolding skip_while_def by linarith
qed

declare join_tables.simps [simp del]

definition tables_from_sql :: "bytes \<Rightarrow> bytes list" where
  "tables_from_sql sql = from_tables sql @
     concat (map (\<lambda>kw. join_tables kw sql 0)
       [kw_JOIN, kw_INNER_JOIN, kw_LEFT_JOIN, kw_RIGHT_JOIN, kw_CROSS_JOIN])"

section \<open>The text after a statement\<close>

fun skip_block_comment :: "bytes \<Rightarrow> bytes" where
  "skip_block_comment [] = []"
| "skip_block_comment (c # t) =
     (if c = 0x2a \<and> rd t 0 = Some 0x2f then drop 1 t else skip_block_comment t)"

fun skip_line_comment :: "bytes \<Rightarrow> bytes" where
  "skip_line_comment [] = []"
| "skip_line_comment (c # t) = (if c = 0x0a then t else skip_line_comment t)"

lemma skip_comment_length:
  "length (skip_block_comment t) \<le> length t" "length (skip_line_comment t) \<le> length t"
  by (induction t) auto

text \<open>Whether the scan of the tail ends at the nul byte (no second statement).\<close>

function tail_scan :: "bytes \<Rightarrow> bool" where
  "tail_scan [] = True"
| "tail_scan (c # t) =
     (if IS_SKIPPED c then tail_scan t
      else if c = 0x2f \<and> rd t 0 = Some 0x2a then tail_scan (skip_block_comment (drop 1 t))
      else if c = 0x2d \<and> rd t 0 = Some 0x2d then tail_scan (skip_line_comment (drop 1 t))
      else False)"
  by pat_completeness auto
termination
  by (relation "measure length")
    (auto intro!: le_less_trans [OF skip_comment_length(1)] le_less_trans [OF skip_comment_length(2)])

section \<open>The kind of a statement\<close>

datatype statement_type = STMT_SELECT | STMT_INSERT | STMT_UPDATE | STMT_DELETE | STMT_OTHER

fun FindCaseInsensitive :: "bytes \<Rightarrow> bytes \<Rightarrow> bytes option" where
  "FindCaseInsensitive [] needle = None"
| "FindCaseInsensitive (c # h) needle =
     (if starts_with needle (c # h) then Some (c # h) else FindCaseInsensitive h needle)"

definition blank :: "u8 \<Rightarrow> bool" where
  "blank c \<longleftrightarrow> c = 0x20 \<or> c = 9"

text \<open>The type, and the table name (empty if none is extracted).\<close>

definition DetectStatementType :: "bytes option \<Rightarrow> statement_type \<times> bytes" where
  "DetectStatementType zSql =
     (case zSql of
        None \<Rightarrow> (STMT_OTHER, [])
      | Some zSql \<Rightarrow>
          let sql = dropWhile (\<lambda>c. c = 0x20 \<or> c = 9 \<or> c = 10 \<or> c = 13) zSql in
          if starts_with kw_INSERT sql then
            (STMT_INSERT, case FindCaseInsensitive sql kw_INTO of
                None \<Rightarrow> []
              | Some into \<Rightarrow> takeWhile (\<lambda>c. c \<noteq> 0x20 \<and> c \<noteq> 9 \<and> c \<noteq> 0x28 \<and> c \<noteq> 10) (dropWhile blank (drop 4 into)))
          else if starts_with kw_UPDATE sql then
            (STMT_UPDATE, takeWhile (\<lambda>c. c \<noteq> 0x20 \<and> c \<noteq> 9 \<and> c \<noteq> 10) (dropWhile blank (drop 6 sql)))
          else if starts_with kw_DELETE sql then
            (STMT_DELETE, case FindCaseInsensitive sql kw_FROM of
                None \<Rightarrow> []
              | Some from \<Rightarrow> takeWhile (\<lambda>c. c \<noteq> 0x20 \<and> c \<noteq> 9 \<and> c \<noteq> 10 \<and> c \<noteq> 0x3b) (dropWhile blank (drop 4 from)))
          else if starts_with kw_SELECT sql then (STMT_SELECT, [])
          else (STMT_OTHER, []))"

section \<open>Specification\<close>

text \<open>
  Text without a statement: skipped characters, comments, and at the end possibly a comment
  that is not closed.
\<close>

definition block_end :: bytes where "block_end = [0x2a, 0x2f]"

inductive trivia :: "bytes \<Rightarrow> bool" where
  trivia_nil: "trivia []"
| trivia_skip: "IS_SKIPPED c \<Longrightarrow> trivia t \<Longrightarrow> trivia (c # t)"
| trivia_block: "\<not> sublist block_end (b @ [0x2a]) \<Longrightarrow> trivia t \<Longrightarrow> trivia (0x2f # 0x2a # b @ block_end @ t)"
| trivia_block_open: "\<not> sublist block_end b \<Longrightarrow> trivia (0x2f # 0x2a # b)"
| trivia_line: "0x0a \<notin> set b \<Longrightarrow> trivia t \<Longrightarrow> trivia (0x2d # 0x2d # b @ 0x0a # t)"
| trivia_line_open: "0x0a \<notin> set b \<Longrightarrow> trivia (0x2d # 0x2d # b)"

section \<open>Lemmas\<close>

lemma sublist_block_end_Cons:
  "sublist block_end (c # t) \<longleftrightarrow> (c = 0x2a \<and> rd t 0 = Some 0x2f) \<or> sublist block_end t"
  by (cases t) (auto simp: sublist_Cons_right block_end_def)

lemma skip_block_comment_closed:
  "\<not> sublist block_end (b @ [0x2a]) \<Longrightarrow> skip_block_comment (b @ block_end @ t) = t"
proof (induction b)
  case (Cons c b)
  have "\<not> (c = 0x2a \<and> rd (b @ block_end @ t) 0 = Some 0x2f)"
    using Cons.prems by (cases b) (auto simp: sublist_block_end_Cons block_end_def)
  then show ?case using Cons by (auto simp: sublist_block_end_Cons)
qed (simp add: block_end_def)

lemma skip_block_comment_open: "\<not> sublist block_end b \<Longrightarrow> skip_block_comment b = []"
  by (induction b) (auto simp: sublist_block_end_Cons)

lemma block_end_first:
  "sublist block_end t \<Longrightarrow> \<exists>b r. \<not> sublist block_end (b @ [0x2a]) \<and> t = b @ block_end @ r"
proof (induction t)
  case (Cons c t)
  show ?case
  proof (cases "c = 0x2a \<and> rd t 0 = Some 0x2f")
    case True
    then obtain r where "c # t = [] @ block_end @ r" by (cases t) (auto simp: block_end_def)
    moreover have "\<not> sublist block_end ([] @ [0x2a])"
      by (simp add: sublist_block_end_Cons) (simp add: block_end_def)
    ultimately show ?thesis by metis
  next
    case False
    then obtain b r where b: "\<not> sublist block_end (b @ [0x2a])" and t: "t = b @ block_end @ r"
      using Cons by (auto simp: sublist_block_end_Cons)
    have "rd (b @ [0x2a]) 0 = rd t 0" unfolding t by (cases b) (simp_all add: block_end_def)
    then have "\<not> sublist block_end ((c # b) @ [0x2a])"
      using b False by (simp add: sublist_block_end_Cons)
    then show ?thesis using t by (metis append_Cons)
  qed
qed (simp add: block_end_def)

lemma skip_block_comment_cases:
  obtains (closed) b r where "\<not> sublist block_end (b @ [0x2a])" "t = b @ block_end @ r" "skip_block_comment t = r"
  | (opened) "\<not> sublist block_end t" "skip_block_comment t = []"
  using block_end_first [of t] skip_block_comment_closed skip_block_comment_open by metis

lemma skip_line_comment_closed: "0x0a \<notin> set b \<Longrightarrow> skip_line_comment (b @ 0x0a # t) = t"
  by (induction b) auto

lemma skip_line_comment_open: "0x0a \<notin> set b \<Longrightarrow> skip_line_comment b = []"
  by (induction b) auto

lemma skip_line_comment_cases:
  obtains (closed) b r where "0x0a \<notin> set b" "t = b @ 0x0a # r" "skip_line_comment t = r"
  | (opened) "0x0a \<notin> set t" "skip_line_comment t = []"
proof (cases "0x0a \<in> set t")
  case True
  then obtain b t' where t: "t = b @ 0x0a # t'" "0x0a \<notin> set b" by (meson split_list_first)
  then have "skip_line_comment t = t'" by (simp add: skip_line_comment_closed)
  then show thesis using closed t by blast
qed (use opened skip_line_comment_open in blast)

lemma tail_scan_complete: "trivia t \<Longrightarrow> tail_scan t"
  by (induction rule: trivia.induct)
    (simp_all add: IS_SKIPPED_def skip_block_comment_closed skip_block_comment_open
      skip_line_comment_closed skip_line_comment_open)

lemma rd_0_eq_Some: "rd t 0 = Some c \<longleftrightarrow> (\<exists>t'. t = c # t')"
  by (cases t) auto

lemma tail_scan_sound: "tail_scan t \<Longrightarrow> trivia t"
proof (induction t rule: tail_scan.induct)
  case (2 c t)
  consider (skip) "IS_SKIPPED c" | (block) t' where "\<not> IS_SKIPPED c" "c = 0x2f" "t = 0x2a # t'"
    | (line) t' where "\<not> IS_SKIPPED c" "c = 0x2d" "t = 0x2d # t'"
    using 2(4) by (auto simp: rd_0_eq_Some split: if_splits)
  then show ?case
  proof cases
    case skip
    then show ?thesis using 2 by (auto intro: trivia_skip)
  next
    case block
    then have IH: "trivia (skip_block_comment t')" using 2 by simp
    show ?thesis
    proof (cases t' rule: skip_block_comment_cases)
      case (closed b r)
      then show ?thesis using trivia_block [OF closed(1)] IH block by simp
    next
      case opened
      then show ?thesis using trivia_block_open block by simp
    qed
  next
    case line
    then have IH: "trivia (skip_line_comment t')" using 2 by (simp add: IS_SKIPPED_def)
    show ?thesis
    proof (cases t' rule: skip_line_comment_cases)
      case (closed b r)
      then show ?thesis using trivia_line [OF closed(1)] IH line by simp
    next
      case opened
      then show ?thesis using trivia_line_open line by simp
    qed
  qed
qed (rule trivia_nil)

subsection \<open>Names of tables\<close>

lemma find_from_first:
  assumes "take (length kw) (drop i s) = kw" "i + length kw \<le> length s" "pos \<le> i"
    and "\<And>j. pos \<le> j \<Longrightarrow> j < i \<Longrightarrow> take (length kw) (drop j s) \<noteq> kw"
  shows "find_from kw s pos = Some i"
  using assms(3,4)
proof (induction "i - pos" arbitrary: pos)
  case 0
  then show ?case using assms(1,2) by (subst find_from.simps) simp
next
  case (Suc n)
  have "find_from kw s (pos + 1) = Some i" using Suc by simp
  then show ?case using Suc assms(2) by (subst find_from.simps) simp
qed

lemma find_from_le:
  assumes "take (length kw) (drop i s) = kw" "i + length kw \<le> length s" "pos \<le> i"
  shows "\<exists>j \<le> i. find_from kw s pos = Some j"
  using assms(3)
proof (induction "i - pos" arbitrary: pos)
  case 0
  then show ?case using assms(1,2) by (subst find_from.simps) simp
next
  case (Suc n)
  have "\<exists>j \<le> i. find_from kw s (pos + 1) = Some j" using Suc by simp
  then show ?case using Suc assms(2) by (subst find_from.simps) simp
qed

lemma skip_while_stop: "i < length s \<Longrightarrow> \<not> P (s ! i) \<Longrightarrow> pos \<le> i \<Longrightarrow> skip_while P s pos \<le> i"
proof -
  assume i: "i < length s" "\<not> P (s ! i)" "pos \<le> i"
  have "length (takeWhile P (drop pos s)) \<le> i - pos"
  proof (rule ccontr)
    assume "\<not> ?thesis"
    then have lt: "i - pos < length (takeWhile P (drop pos s))" by simp
    then have "P (takeWhile P (drop pos s) ! (i - pos))" by (meson nth_mem set_takeWhileD)
    then have "P (drop pos s ! (i - pos))" using lt by (simp add: takeWhile_nth)
    then show False using i by simp
  qed
  then show ?thesis using i by (simp add: skip_while_def)
qed

text \<open>The name at the position after a keyword.\<close>

definition join_name :: "bytes \<Rightarrow> nat \<Rightarrow> bytes option" where
  "join_name sql p =
     (let start = skip_while isspace (map toupper sql) p;
          pos = skip_while join_name_char (map toupper sql) start
      in if pos > start then Some (substr sql start pos) else None)"

lemma join_tables_step:
  assumes "kw \<noteq> []"
  shows "join_tables kw sql pos =
    (case find_from kw (map toupper sql) pos of
       None \<Rightarrow> []
     | Some i \<Rightarrow> (case join_name sql (i + length kw) of None \<Rightarrow> [] | Some n \<Rightarrow> [n]) @
         join_tables kw sql (skip_while join_name_char (map toupper sql)
           (skip_while isspace (map toupper sql) (i + length kw))))"
  using assms by (subst join_tables.simps) (simp add: join_name_def Let_def split: option.split)

lemma join_tables_sound:
  assumes "kw \<noteq> []" "n \<in> set (join_tables kw sql pos)"
  shows "\<exists>i. i + length kw \<le> length sql \<and> take (length kw) (drop i (map toupper sql)) = kw \<and>
    join_name sql (i + length kw) = Some n"
  using assms(2)
proof (induction "length sql + 1 - pos" arbitrary: pos rule: less_induct)
  case less
  from less.prems obtain i where i: "find_from kw (map toupper sql) pos = Some i"
    by (subst (asm) join_tables_step [OF assms(1)]) (cases "find_from kw (map toupper sql) pos"; simp)
  have f: "pos \<le> i" "i + length kw \<le> length sql" "take (length kw) (drop i (map toupper sql)) = kw"
    using find_from_sound [OF i] by simp_all
  let ?p = "skip_while join_name_char (map toupper sql) (skip_while isspace (map toupper sql) (i + length kw))"
  have "i + length kw \<le> ?p" by (simp add: skip_while_def)
  moreover have "0 < length kw" using assms(1) by simp
  ultimately have "length sql + 1 - ?p < length sql + 1 - pos" using f by linarith
  from less.hyps [OF this] less.prems show ?case
    by (subst (asm) join_tables_step [OF assms(1)]) (use i f in \<open>auto split: option.splits\<close>)
qed

lemma nth_of_take: "take n (drop i s) = kw \<Longrightarrow> i + n \<le> length s \<Longrightarrow> j < n \<Longrightarrow> s ! (i + j) = kw ! j"
  by (metis add_leD1 nth_drop nth_take)

text \<open>A JOIN after a word other than JOIN is not passed over.\<close>

lemma join_tables_complete:
  assumes k: "take 4 (drop k s) = kw_JOIN" "k + 4 \<le> length s" "isspace (s ! (k - 1))" "\<not> isspace (s ! (k - 2))"
    "5 \<le> k" "take 4 (drop (k - 5) s) \<noteq> kw_JOIN" and s: "s = map toupper sql"
    and n: "join_name sql (k + 4) = Some n" and pos: "pos \<le> k"
  shows "n \<in> set (join_tables kw_JOIN sql pos)"
  using pos
proof (induction "k - pos" arbitrary: pos rule: less_induct)
  case less
  obtain i where i: "i \<le> k" "find_from kw_JOIN s pos = Some i"
    using find_from_le [of kw_JOIN k s pos] k(1,2) less.prems by (auto simp: eval_nat_numeral)
  have f: "pos \<le> i" "i + 4 \<le> length s" "take 4 (drop i s) = kw_JOIN"
    using find_from_sound [OF i(2)] by (simp_all add: eval_nat_numeral)
  let ?p = "skip_while join_name_char s (skip_while isspace s (i + 4))"
  have step: "join_tables kw_JOIN sql pos =
      (case join_name sql (i + 4) of None \<Rightarrow> [] | Some n \<Rightarrow> [n]) @ join_tables kw_JOIN sql ?p"
    using i(2) by (subst join_tables_step) (simp_all add: s eval_nat_numeral)
  show ?case
  proof (cases "i = k")
    case True
    then show ?thesis using step n by simp
  next
    case False
    have J: "s ! k = 0x4a" and S: "s ! (k - 1) \<noteq> 0x4e"
      using nth_of_take [OF k(1,2), of 0] k(3) by (auto simp: isspace_def)
    have I: "s ! (i + 1) = 0x4f" "s ! (i + 2) = 0x49" "s ! (i + 3) = 0x4e"
      using nth_of_take [OF f(3,2), of 1] nth_of_take [OF f(3,2), of 2] nth_of_take [OF f(3,2), of 3] by simp_all
    have "k \<noteq> i + 1" "k \<noteq> i + 2" "k \<noteq> i + 3" "k \<noteq> i + 4" "k \<noteq> i + 5"
      using I J S k(6) f(3) by (auto simp: add.commute [of 3])
    then have "i + 4 \<le> k - 2" using False i(1) k(5) by linarith
    then have "skip_while isspace s (i + 4) \<le> k - 2"
      using k(2,4) by (intro skip_while_stop) simp_all
    then have "skip_while isspace s (i + 4) \<le> k - 1" by simp
    then have "?p \<le> k - 1"
      by (rule skip_while_stop [rotated 2]) (use k(2,3) in \<open>simp_all add: join_name_char_def\<close>)
    moreover have "pos < ?p" using f by (simp add: skip_while_def)
    ultimately have "n \<in> set (join_tables kw_JOIN sql ?p)" using less.hyps [of ?p] by simp
    then show ?thesis using step by simp
  qed
qed

lemma qualified_join_redundant:
  assumes "qual \<in> {kw_INNER_JOIN, kw_LEFT_JOIN, kw_RIGHT_JOIN, kw_CROSS_JOIN}"
  shows "set (join_tables qual sql 0) \<subseteq> set (join_tables kw_JOIN sql 0)"
proof
  fix n assume "n \<in> set (join_tables qual sql 0)"
  let ?s = "map toupper sql"
  have q: "qual \<noteq> []" "9 \<le> length qual" "drop (length qual - 4) qual = kw_JOIN" "qual ! (length qual - 5) = 0x20"
      "\<not> isspace (qual ! (length qual - 6))" "take 4 (drop (length qual - 9) qual) \<noteq> kw_JOIN"
    using assms by (auto simp: isspace_def)
  obtain i where i: "i + length qual \<le> length sql" "take (length qual) (drop i ?s) = qual"
    "join_name sql (i + length qual) = Some n"
    using join_tables_sound [OF q(1) \<open>n \<in> _\<close>] by blast
  let ?k = "i + (length qual - 4)"
  have sub: "take m (drop (i + j) ?s) = take m (drop j qual)" if "j + m \<le> length qual" for j m
    using arg_cong [OF i(2), of "\<lambda>x. take m (drop j x)"] that
    by (simp add: drop_take add.commute min_def le_diff_conv2)
  have nth: "?s ! (i + j) = qual ! j" if "j < length qual" for j
    using nth_of_take [OF i(2)] i(1) that by simp
  show "n \<in> set (join_tables kw_JOIN sql 0)"
  proof (rule join_tables_complete [where k = ?k])
    show "take 4 (drop ?k ?s) = kw_JOIN" using sub [of "length qual - 4" 4] q(2,3) by simp
    show "isspace (?s ! (?k - 1))" using nth [of "length qual - 5"] q(2,4) by (simp add: isspace_def)
    show "\<not> isspace (?s ! (?k - 2))" using nth [of "length qual - 6"] q(2,5) by simp
    show "take 4 (drop (?k - 5) ?s) \<noteq> kw_JOIN" using sub [of "length qual - 9" 4] q(2,6) by simp
  qed (use i q(2) in simp_all)
qed

lemma letter_class: "0x41 \<le> d \<Longrightarrow> \<not> isspace d \<and> from_name_char d"
  unfolding isspace_def from_name_char_def by uint_arith

lemma toupper_letter: "toupper c = c \<or> 0x41 \<le> c \<and> 0x41 \<le> toupper c"
  unfolding toupper_def by uint_arith

lemma toupper_class [simp]:
  "isspace (toupper c) \<longleftrightarrow> isspace c" "from_name_char (toupper c) \<longleftrightarrow> from_name_char c"
  using toupper_letter [of c] letter_class [of c] letter_class [of "toupper c"] by auto

lemma skip_while_app:
  "list_all P ys \<Longrightarrow> zs = [] \<or> \<not> P (hd zs) \<Longrightarrow> length xs = pos \<Longrightarrow>
    skip_while P (xs @ ys @ zs) pos = pos + length ys"
  by (cases zs) (simp_all add: skip_while_def list_all_iff takeWhile_append2 takeWhile_eq_all_conv [THEN iffD2])

section \<open>Properties\<close>

text \<open>C24: a prepared statement is accepted as the only one of its text exactly when the text after
  it consists of white space, semicolons and comments, the last of which may be unclosed.\<close>

theorem tail_scan_iff_trivia: "tail_scan t \<longleftrightarrow> trivia t"
  using tail_scan_sound tail_scan_complete by blast

text \<open>C23: the tables found in a query are the one after the first FROM and the ones after a JOIN: the
  keywords INNER JOIN, LEFT JOIN, RIGHT JOIN and CROSS JOIN find no other table (they find the
  tables of such joins a second time).\<close>

theorem tables_from_sql_set:
  "set (tables_from_sql sql) = set (from_tables sql) \<union> set (join_tables kw_JOIN sql 0)"
  using qualified_join_redundant [of kw_INNER_JOIN sql] qualified_join_redundant [of kw_LEFT_JOIN sql]
    qualified_join_redundant [of kw_RIGHT_JOIN sql] qualified_join_redundant [of kw_CROSS_JOIN sql]
  by (auto simp: tables_from_sql_def)

text \<open>In a query whose first FROM is followed by white space and a name, that name is the first
  table found, spelled as in the query.\<close>

theorem from_tables_found:
  assumes sql: "sql = pre @ kw @ ws @ name @ rest" and kw: "map toupper kw = kw_FROM"
    and first: "\<forall>i < length pre. take 4 (drop i (map toupper sql)) \<noteq> kw_FROM"
    and ws: "list_all isspace ws" and name: "name \<noteq> []" "list_all from_name_char name"
    and rest: "rest = [] \<or> \<not> from_name_char (hd rest)"
  shows "from_tables sql = [name]"
proof -
  let ?u = "map toupper sql"
  have len: "length kw = 4" using arg_cong [OF kw, of length] by simp
  have "find_from kw_FROM ?u 0 = Some (length pre)"
    using first kw len by (intro find_from_first) (simp_all add: sql eval_nat_numeral)
  moreover have "skip_while isspace ?u (length pre + 4) = length pre + 4 + length ws"
    using skip_while_app [of isspace "map toupper ws" "map toupper (name @ rest)" "map toupper (pre @ kw)" "length pre + 4"]
      ws name len by (cases name) (simp_all add: sql list_all_iff from_name_char_def)
  moreover have "skip_while from_name_char ?u (length pre + 4 + length ws) = length pre + 4 + length ws + length name"
    using skip_while_app [of from_name_char "map toupper name" "map toupper rest" "map toupper (pre @ kw @ ws)"
        "length pre + 4 + length ws"]
      name rest len by (cases rest) (simp_all add: sql list_all_iff)
  ultimately show ?thesis
    using name(1) len by (simp add: from_tables_def substr_def sql)
qed

theorem from_tables_found_witness:
  "from_tables [0x73, 0x20, 0x66, 0x52, 0x6f, 0x4d, 0x20, 0x74, 0x31, 0x2c, 0x32] = [[0x74, 0x31]]"
  using from_tables_found [of _ "[0x73, 0x20]" "[0x66, 0x52, 0x6f, 0x4d]" "[0x20]" "[0x74, 0x31]" "[0x2c, 0x32]"]
  by (simp add: toupper_def isspace_def from_name_char_def All_less_Suc)

end
