(* ===== verification/NoriaBridge.thy ===== *)
theory NoriaBridge
  imports ChangesetIter ChangesetWrite SqlText
begin

text \<open>
  The class \<open>Noria\<close> of util/noria.cpp: the wrapper around the Noria engine that captures the
  changes of a connection through a session and applies them to the engine's dataflow.

  The engine is behind a C interface (noria-ffi/noria.h) and is a parameter: a record of the
  functions the wrapper calls, on an engine state.  SQLite's session functions are those
  modelled in the other theories; what they read from the database is a parameter too.
\<close>

section \<open>Values\<close>

text \<open>\<open>NoriaValue\<close>: the member that belongs to \<open>value_type\<close>.\<close>

datatype noria_value =
    NORIA_NULL
  | NORIA_INTEGER u64
  | NORIA_FLOAT u64
  | NORIA_TEXT bytes
  | NORIA_BLOB bytes

definition SqliteValueToNoria :: "sqlite3_value option \<Rightarrow> noria_value" where
  "SqliteValueToNoria val =
     (case val of
        None \<Rightarrow> NORIA_NULL
      | Some VNull \<Rightarrow> NORIA_NULL
      | Some (VInteger i) \<Rightarrow> NORIA_INTEGER i
      | Some (VFloat r) \<Rightarrow> NORIA_FLOAT r
      | Some (VText z) \<Rightarrow> NORIA_TEXT z
      | Some (VBlob z) \<Rightarrow> NORIA_BLOB z)"

definition SqliteColumnToNoriaValue :: "sqlite3_value \<Rightarrow> noria_value" where
  "SqliteColumnToNoriaValue col =
     (case col of
        VNull \<Rightarrow> NORIA_NULL
      | VInteger i \<Rightarrow> NORIA_INTEGER i
      | VFloat r \<Rightarrow> NORIA_FLOAT r
      | VText z \<Rightarrow> NORIA_TEXT z
      | VBlob z \<Rightarrow> NORIA_BLOB z)"

text \<open>The value bound to a parameter (SQLite stores a NaN as NULL).\<close>

definition BindNoriaValue :: "noria_value \<Rightarrow> sqlite3_value" where
  "BindNoriaValue nv =
     (case nv of
        NORIA_NULL \<Rightarrow> VNull
      | NORIA_INTEGER i \<Rightarrow> VInteger i
      | NORIA_FLOAT r \<Rightarrow> sqlite3VdbeMemSetDouble r
      | NORIA_TEXT z \<Rightarrow> VText z
      | NORIA_BLOB z \<Rightarrow> VBlob z)"

section \<open>The engine and the database\<close>

record lookup_result =
  found :: int
  row_count :: int
  rows :: "noria_value list list option"

record cache_stats =
  cache_hits :: u64
  cache_misses :: u64
  total_rows :: u64
  view_count :: int
  node_count :: int
  memory_bytes :: u64
  max_memory_bytes :: u64
  eviction_count :: u64
  bytes_evicted :: u64

text \<open>
  The callback that runs a query on SQLite for the engine: the code it returns and its rows.
\<close>

type_synonym upquery = "bytes option \<Rightarrow> noria_value list \<Rightarrow> int \<times> noria_value list list"

text \<open>
  The functions of noria.h, on an engine state \<open>'e\<close>.  The callback set with
  \<open>noria_set_upquery_callback\<close> is an argument of the lookup that may call it.
\<close>

record 'e engine_api =
  noria_create :: "'e option"
  noria_register_view :: "'e \<Rightarrow> bytes \<Rightarrow> int \<times> 'e"
  noria_register_table_schema :: "'e \<Rightarrow> bytes \<Rightarrow> bytes list \<Rightarrow> 'e"
  noria_has_view :: "'e \<Rightarrow> bytes \<Rightarrow> int"
  noria_table_has_views :: "'e \<Rightarrow> bytes \<Rightarrow> int"
  noria_get_table_id :: "'e \<Rightarrow> bytes \<Rightarrow> int"
  noria_queue_invalidate_by_id :: "'e \<Rightarrow> int \<Rightarrow> int \<times> 'e"
  noria_lookup :: "'e \<Rightarrow> int \<Rightarrow> noria_value list \<Rightarrow> lookup_result \<times> 'e"
  noria_lookup_or_upquery :: "upquery \<Rightarrow> 'e \<Rightarrow> int \<Rightarrow> noria_value list \<Rightarrow> lookup_result \<times> 'e"
  noria_apply_insert :: "'e \<Rightarrow> bytes \<Rightarrow> noria_value list \<Rightarrow> 'e"
  noria_apply_delete :: "'e \<Rightarrow> bytes \<Rightarrow> noria_value list \<Rightarrow> 'e"
  noria_apply_update :: "'e \<Rightarrow> bytes \<Rightarrow> noria_value list \<Rightarrow> noria_value list \<Rightarrow> 'e"
  noria_queue_insert :: "'e \<Rightarrow> bytes \<Rightarrow> noria_value list \<Rightarrow> int \<times> 'e"
  noria_queue_delete :: "'e \<Rightarrow> bytes \<Rightarrow> noria_value list \<Rightarrow> int \<times> 'e"
  noria_queue_update :: "'e \<Rightarrow> bytes \<Rightarrow> noria_value list \<Rightarrow> noria_value list \<Rightarrow> int \<times> 'e"
  noria_flush :: "'e \<Rightarrow> int \<times> 'e"
  noria_get_stats :: "'e \<Rightarrow> cache_stats"

text \<open>
  The connection: autocommit mode, the code \<open>sqlite3session_create\<close> would return, what the
  session reads, the allocator, the answer to a query with its parameters (\<open>None\<close> if it cannot
  be prepared), and the second column of the rows of a \<open>PRAGMA table_info\<close> statement.
\<close>

record connection =
  autocommit :: bool
  createRc :: rc
  sessionDb :: session_db
  allocOk :: "nat \<Rightarrow> bool"
  query :: "bytes \<Rightarrow> sqlite3_value list \<Rightarrow> sqlite3_value list list option"
  pragmaColumns :: "bytes \<Rightarrow> bytes option list option"

section \<open>The wrapper\<close>

record buffered_old_row =
  old_table :: bytes
  old_rowid :: u64
  old_op :: u8
  old_row_values :: "noria_value list"

text \<open>The fields of the class (\<open>handle_\<close>, \<open>db_\<close> and so on); \<open>m_db\<close> is whether the database pointer is
  non-null.\<close>

record 'e noria =
  m_handle :: "'e option"
  m_db :: bool
  m_session :: "session option"
  m_enabled :: bool
  m_has_any_views :: bool
  m_buffered_old_rows :: "(bytes \<times> u64) \<Rightarrow> buffered_old_row option"

definition Noria_new :: "'e engine_api \<Rightarrow> bool \<Rightarrow> 'e noria" where
  "Noria_new api db =
     \<lparr>m_handle = noria_create api, m_db = db, m_session = None, m_enabled = (noria_create api \<noteq> None),
      m_has_any_views = False, m_buffered_old_rows = (\<lambda>_. None)\<rparr>"

definition IsEnabled :: "'e noria \<Rightarrow> bool" where
  "IsEnabled n \<longleftrightarrow> m_enabled n \<and> m_handle n \<noteq> None"

definition HasAnyViews :: "'e noria \<Rightarrow> bool" where
  "HasAnyViews n = m_has_any_views n"

subsection \<open>Buffered rows\<close>

text \<open>The pre-update hook of the wrapper: \<open>n_cols\<close> and \<open>old\<close> are what the hook gives access to.\<close>

definition CaptureOldRow :: "'e engine_api \<Rightarrow> nat \<Rightarrow> (nat \<Rightarrow> rc + sqlite3_value option) \<Rightarrow> bytes option \<Rightarrow> u64 \<Rightarrow> u8 \<Rightarrow>
    'e noria \<Rightarrow> 'e noria" where
  "CaptureOldRow api n_cols old table rowid opc n =
     (case table of
        None \<Rightarrow> n
      | Some t \<Rightarrow>
          if \<not> m_db n \<or> \<not> m_has_any_views n then n
          else if opc \<noteq> SQLITE_DELETE \<and> opc \<noteq> SQLITE_UPDATE then n
          else if noria_table_has_views api (the (m_handle n)) t = 0 then n
          else if n_cols = 0 then n
          else n\<lparr>m_buffered_old_rows := (m_buffered_old_rows n)((t, rowid) \<mapsto>
                 \<lparr>old_table = t, old_rowid = rowid, old_op = opc,
                  old_row_values = map (\<lambda>i. case old i of Inl _ \<Rightarrow> NORIA_NULL | Inr v \<Rightarrow> SqliteValueToNoria v) [0..<n_cols]\<rparr>)\<rparr>)"

definition PreUpdateHookCallback :: "'e engine_api \<Rightarrow> nat \<Rightarrow> (nat \<Rightarrow> rc + sqlite3_value option) \<Rightarrow> u8 \<Rightarrow> bytes option \<Rightarrow> u64 \<Rightarrow>
    'e noria \<Rightarrow> 'e noria" where
  "PreUpdateHookCallback api n_cols old opc table rowid1 n =
     (if opc = SQLITE_DELETE \<or> opc = SQLITE_UPDATE then CaptureOldRow api n_cols old table rowid1 opc n else n)"

definition GetBufferedOldRow :: "'e noria \<Rightarrow> bytes \<Rightarrow> u64 \<Rightarrow> buffered_old_row option" where
  "GetBufferedOldRow n table rowid = m_buffered_old_rows n (table, rowid)"

definition ClearBufferedOldRows :: "'e noria \<Rightarrow> 'e noria" where
  "ClearBufferedOldRows n = n\<lparr>m_buffered_old_rows := (\<lambda>_. None)\<rparr>"

subsection \<open>Sessions\<close>

definition main_db :: bytes where
  "main_db = [0x6d, 0x61, 0x69, 0x6e]"

text \<open>\<open>sqlite3session_create\<close>: a null session on failure.\<close>

definition sqlite3session_create :: "rc \<Rightarrow> bytes \<Rightarrow> rc \<times> session option" where
  "sqlite3session_create rc z =
     (if rc \<noteq> SQLITE_OK then (rc, None)
      else (SQLITE_OK, Some \<lparr>zDb = z, bEnableSize = False, bEnable = True, bIndirectAll = False,
              bAutoAttach = False, bImplicitPK = False, sess_rc = SQLITE_OK, xTableFilter = None,
              nMaxChangesetSize = 0, pTable = []\<rparr>))"

definition EnsureSession :: "connection \<Rightarrow> 'e noria \<Rightarrow> 'e noria" where
  "EnsureSession conn n =
     (if m_session n = None \<and> m_db n then
        case sqlite3session_create (createRc conn) main_db of
          (rc, s) \<Rightarrow>
            if rc \<noteq> SQLITE_OK then n\<lparr>m_session := None\<rparr>
            else n\<lparr>m_session := map_option (\<lambda>s. snd (sqlite3session_attach s None)) s\<rparr>
      else n)"

subsection \<open>Views\<close>

text \<open>\<open>snprintf\<close> into the buffer of 256 bytes: \<open>PRAGMA table_info(name)\<close>, cut at 255 bytes.\<close>

definition pragma_sql :: "bytes \<Rightarrow> bytes" where
  "pragma_sql table_name = take 255
     ([0x50, 0x52, 0x41, 0x47, 0x4d, 0x41, 0x20, 0x74, 0x61, 0x62, 0x6c, 0x65, 0x5f, 0x69, 0x6e, 0x66, 0x6f, 0x28]
      @ table_name @ [0x29])"

definition RegisterTableSchema :: "'e engine_api \<Rightarrow> connection \<Rightarrow> bytes \<Rightarrow> 'e noria \<Rightarrow> 'e noria" where
  "RegisterTableSchema api conn table_name n =
     (if \<not> IsEnabled n \<or> \<not> m_db n then n
      else case pragmaColumns conn (pragma_sql table_name) of
             None \<Rightarrow> n
           | Some cols \<Rightarrow>
               let column_names = List.map_filter id cols
               in if column_names = [] then n
                  else n\<lparr>m_handle := Some (noria_register_table_schema api (the (m_handle n)) table_name column_names)\<rparr>)"

definition RegisterTablesFromSql :: "'e engine_api \<Rightarrow> connection \<Rightarrow> bytes \<Rightarrow> 'e noria \<Rightarrow> 'e noria" where
  "RegisterTablesFromSql api conn sql n = fold (RegisterTableSchema api conn) (tables_from_sql sql) n"

definition RegisterView :: "'e engine_api \<Rightarrow> connection \<Rightarrow> bytes \<Rightarrow> 'e noria \<Rightarrow> int \<times> 'e noria" where
  "RegisterView api conn sql n =
     (if \<not> IsEnabled n then (-1, n)
      else let n = RegisterTablesFromSql api conn sql n;
               (result, e) = noria_register_view api (the (m_handle n)) sql;
               n = n\<lparr>m_handle := Some e\<rparr>
           in if result \<ge> 0 then (result, EnsureSession conn (n\<lparr>m_has_any_views := True\<rparr>))
              else (result, n))"

subsection \<open>Applying a changeset\<close>

text \<open>The value of a column of the current change, and the row of all of them.\<close>

definition changed_value :: "rc + sqlite3_value option \<Rightarrow> noria_value" where
  "changed_value r = (case r of Inr (Some v) \<Rightarrow> SqliteValueToNoria (Some v) | _ \<Rightarrow> NORIA_NULL)"

definition session_old_values :: "changeset_iter \<Rightarrow> nat \<Rightarrow> noria_value list" where
  "session_old_values p n_cols = map (\<lambda>i. changed_value (sqlite3changeset_old p (int i))) [0..<n_cols]"

definition session_new_values :: "changeset_iter \<Rightarrow> nat \<Rightarrow> noria_value list" where
  "session_new_values p n_cols = map (\<lambda>i. changed_value (sqlite3changeset_new p (int i))) [0..<n_cols]"

text \<open>The rowid under which an old row may have been buffered.\<close>

definition change_rowid :: "changeset_iter \<Rightarrow> u64" where
  "change_rowid p = (case sqlite3changeset_old p 0 of Inr (Some (VInteger i)) \<Rightarrow> i | _ \<Rightarrow> 0)"

definition buffered_values :: "'e noria \<Rightarrow> bytes \<Rightarrow> u64 \<Rightarrow> nat \<Rightarrow> noria_value list option" where
  "buffered_values n table rowid n_cols =
     (case GetBufferedOldRow n table rowid of
        Some b \<Rightarrow> if length (old_row_values b) = n_cols then Some (old_row_values b) else None
      | None \<Rightarrow> None)"

text \<open>The body of the loop over the changes, on the engine.\<close>

definition process_change :: "'e engine_api \<Rightarrow> 'e noria \<Rightarrow> changeset_iter \<Rightarrow> 'e \<Rightarrow> 'e" where
  "process_change api n p e =
     (case sqlite3changeset_op p of (table_name, n_cols, opc, indirect) \<Rightarrow>
        case table_name of
          None \<Rightarrow> e
        | Some t \<Rightarrow>
            if n_cols = 0 then e
            else if noria_table_has_views api e t = 0 then e
            else if opc = SQLITE_INSERT then
              noria_apply_insert api e t (session_new_values p n_cols)
            else if opc = SQLITE_DELETE then
              (case buffered_values n t (change_rowid p) n_cols of
                 Some vs \<Rightarrow> noria_apply_delete api e t vs
               | None \<Rightarrow> noria_apply_delete api e t (session_old_values p n_cols))
            else if opc = SQLITE_UPDATE then
              (let old_values =
                     (case buffered_values n t (change_rowid p) n_cols of
                        Some vs \<Rightarrow> vs | None \<Rightarrow> session_old_values p n_cols);
                   new_values =
                     map (\<lambda>i. case sqlite3changeset_new p (int i) of
                                 Inr (Some v) \<Rightarrow> SqliteValueToNoria (Some v)
                               | _ \<Rightarrow> old_values ! i) [0..<n_cols]
               in noria_apply_update api e t old_values new_values)
            else e)"

text \<open>
  \<open>None\<close>: SQLite's changeset functions do not return.  The engine handle is used without a
  check, as a session exists only after a view has been registered with it.
\<close>

definition ProcessSessionChangeset :: "'e engine_api \<Rightarrow> connection \<Rightarrow> 'e noria \<Rightarrow> 'e noria option" where
  "ProcessSessionChangeset api conn n =
     (case m_session n of
        None \<Rightarrow> Some n
      | Some s \<Rightarrow>
          if \<not> m_has_any_views n then Some n
          else if \<not> autocommit conn then Some n
          else do {
            (rc, changeset, s) \<leftarrow> sqlite3session_changeset (allocOk conn) False (sessionDb conn) s;
            if rc \<noteq> SQLITE_OK then Some (ClearBufferedOldRows (n\<lparr>m_session := Some s\<rparr>))
            else if changeset = [] then Some (ClearBufferedOldRows (n\<lparr>m_session := Some s\<rparr>))
            else do {
              (_, _, e) \<leftarrow> changeset_foreach (process_change api n) (sqlite3changeset_start changeset)
                             (the (m_handle n));
              let n = ClearBufferedOldRows (n\<lparr>m_handle := Some e\<rparr>);
              let (rc, s) = sqlite3session_create (createRc conn) main_db;
              Some (n\<lparr>m_session :=
                (if rc = SQLITE_OK then map_option (\<lambda>s. snd (sqlite3session_attach s None)) s else s)\<rparr>)
            }
          })"

definition NotifyChange :: "'e engine_api \<Rightarrow> connection \<Rightarrow> 'e noria \<Rightarrow> 'e noria option" where
  "NotifyChange api conn n = ProcessSessionChangeset api conn n"

definition Flush :: "'e engine_api \<Rightarrow> connection \<Rightarrow> 'e noria \<Rightarrow> (int \<times> 'e noria) option" where
  "Flush api conn n =
     (if \<not> IsEnabled n then Some (0, n)
      else do {
        n \<leftarrow> ProcessSessionChangeset api conn n;
        let (r, e) = noria_flush api (the (m_handle n));
        Some (r, n\<lparr>m_handle := Some e\<rparr>)
      })"

subsection \<open>Calls that are passed on to the engine\<close>

definition HasView :: "'e engine_api \<Rightarrow> 'e noria \<Rightarrow> bytes \<Rightarrow> bool" where
  "HasView api n sql \<longleftrightarrow> IsEnabled n \<and> noria_has_view api (the (m_handle n)) sql \<noteq> 0"

definition TableHasViews :: "'e engine_api \<Rightarrow> 'e noria \<Rightarrow> bytes \<Rightarrow> bool" where
  "TableHasViews api n table \<longleftrightarrow>
     IsEnabled n \<and> m_has_any_views n \<and> noria_table_has_views api (the (m_handle n)) table \<noteq> 0"

definition GetTableId :: "'e engine_api \<Rightarrow> 'e noria \<Rightarrow> bytes \<Rightarrow> int" where
  "GetTableId api n table =
     (if \<not> IsEnabled n \<or> \<not> m_has_any_views n then -1 else noria_get_table_id api (the (m_handle n)) table)"

text \<open>A call that returns a code and may change the engine.\<close>

definition engine_call :: "('e \<Rightarrow> 'r \<times> 'e) \<Rightarrow> 'e noria \<Rightarrow> 'r \<times> 'e noria" where
  "engine_call f n = (case f (the (m_handle n)) of (r, e) \<Rightarrow> (r, n\<lparr>m_handle := Some e\<rparr>))"

definition QueueInvalidateById :: "'e engine_api \<Rightarrow> 'e noria \<Rightarrow> int \<Rightarrow> int \<times> 'e noria" where
  "QueueInvalidateById api n table_id =
     (if \<not> IsEnabled n \<or> table_id < 0 then (-1, n)
      else engine_call (\<lambda>e. noria_queue_invalidate_by_id api e table_id) n)"

text \<open>The upquery callback: the code returned and the rows handed to the engine.\<close>

definition ExecuteUpquery :: "connection \<Rightarrow> 'e noria \<Rightarrow> bytes option \<Rightarrow> noria_value list \<Rightarrow> int \<times> noria_value list list" where
  "ExecuteUpquery conn n sql params =
     (case sql of
        None \<Rightarrow> (-1, [])
      | Some q \<Rightarrow>
          if \<not> m_db n then (-1, [])
          else case query conn q (map BindNoriaValue params) of
                 None \<Rightarrow> (-1, [])
               | Some rs \<Rightarrow> (0, map (map SqliteColumnToNoriaValue) rs))"

text \<open>The callback registered with the engine; its user data is the wrapper itself.\<close>

definition UpqueryCallbackImpl :: "connection \<Rightarrow> 'e noria option \<Rightarrow> upquery" where
  "UpqueryCallbackImpl conn user_data sql params =
     (case user_data of None \<Rightarrow> (-1, []) | Some n \<Rightarrow> ExecuteUpquery conn n sql params)"

definition Lookup :: "'e engine_api \<Rightarrow> 'e noria \<Rightarrow> int \<Rightarrow> noria_value list \<Rightarrow> lookup_result \<times> 'e noria" where
  "Lookup api n view_id keys =
     (if \<not> IsEnabled n then (\<lparr>found = 0, row_count = 0, rows = None\<rparr>, n)
      else engine_call (\<lambda>e. noria_lookup api e view_id keys) n)"

definition LookupOrUpquery :: "'e engine_api \<Rightarrow> connection \<Rightarrow> 'e noria \<Rightarrow> int \<Rightarrow> noria_value list \<Rightarrow> lookup_result \<times> 'e noria" where
  "LookupOrUpquery api conn n view_id keys =
     (if \<not> IsEnabled n then (\<lparr>found = 0, row_count = 0, rows = None\<rparr>, n)
      else engine_call (\<lambda>e. noria_lookup_or_upquery api (UpqueryCallbackImpl conn (Some n)) e view_id keys) n)"

definition QueueInsert :: "'e engine_api \<Rightarrow> 'e noria \<Rightarrow> bytes \<Rightarrow> noria_value list \<Rightarrow> int \<times> 'e noria" where
  "QueueInsert api n table vs =
     (if \<not> IsEnabled n then (-1, n) else engine_call (\<lambda>e. noria_queue_insert api e table vs) n)"

definition QueueDelete :: "'e engine_api \<Rightarrow> 'e noria \<Rightarrow> bytes \<Rightarrow> noria_value list \<Rightarrow> int \<times> 'e noria" where
  "QueueDelete api n table vs =
     (if \<not> IsEnabled n then (-1, n) else engine_call (\<lambda>e. noria_queue_delete api e table vs) n)"

definition QueueUpdate :: "'e engine_api \<Rightarrow> 'e noria \<Rightarrow> bytes \<Rightarrow> noria_value list \<Rightarrow> noria_value list \<Rightarrow> int \<times> 'e noria" where
  "QueueUpdate api n table os ns =
     (if \<not> IsEnabled n then (-1, n) else engine_call (\<lambda>e. noria_queue_update api e table os ns) n)"

definition GetStats :: "'e engine_api \<Rightarrow> 'e noria \<Rightarrow> cache_stats" where
  "GetStats api n =
     (if \<not> IsEnabled n
      then \<lparr>cache_hits = 0, cache_misses = 0, total_rows = 0, view_count = 0, node_count = 0,
             memory_bytes = 0, max_memory_bytes = 0, eviction_count = 0, bytes_evicted = 0\<rparr>
      else noria_get_stats api (the (m_handle n)))"

definition Disable :: "'e noria \<Rightarrow> 'e noria" where
  "Disable n = n\<lparr>m_enabled := False\<rparr>"

definition Enable :: "'e noria \<Rightarrow> 'e noria" where
  "Enable n = n\<lparr>m_enabled := (m_handle n \<noteq> None)\<rparr>"

subsection \<open>Destruction\<close>

text \<open>The calls of the destructor, in order.\<close>

datatype noria_cleanup = UnregisterPreupdateHook | DeleteSession session | NoriaDestroy

definition Noria_delete :: "'e noria \<Rightarrow> noria_cleanup list" where
  "Noria_delete n =
     (if m_session n \<noteq> None \<and> m_db n then [UnregisterPreupdateHook] else []) @
     (case m_session n of None \<Rightarrow> [] | Some s \<Rightarrow> [DeleteSession s]) @
     (if m_handle n \<noteq> None then [NoriaDestroy] else [])"

section \<open>Specification\<close>

text \<open>
  A change, delivered to the engine if its table has views.  An insert gives the new row and a
  delete the old one; an update gives both, each with NULL for the values it lacks, except that
  the new row has the old value where it has none.
\<close>

definition change_key :: "change \<Rightarrow> u64" where
  "change_key c = (if ch_op c = SQLITE_INSERT then 0 else case ch_old c ! 0 of Some (VInteger i) \<Rightarrow> i | _ \<Rightarrow> 0)"

definition old_row :: "'e noria \<Rightarrow> bytes \<Rightarrow> change \<Rightarrow> noria_value list" where
  "old_row n t c =
     (case buffered_values n t (change_key c) (length (ch_old c)) of
        Some vs \<Rightarrow> vs | None \<Rightarrow> map SqliteValueToNoria (ch_old c))"

definition new_row :: "noria_value list \<Rightarrow> sqlite3_value option list \<Rightarrow> noria_value list" where
  "new_row os ns = map2 (\<lambda>ov nv. if nv = None then ov else SqliteValueToNoria nv) os ns"

definition apply_change :: "'e engine_api \<Rightarrow> 'e noria \<Rightarrow> change_view \<Rightarrow> 'e \<Rightarrow> 'e" where
  "apply_change api n v e =
     (case v of (t, pk, c) \<Rightarrow>
        if pk = [] \<or> noria_table_has_views api e t = 0 then e
        else if ch_op c = SQLITE_INSERT then noria_apply_insert api e t (map SqliteValueToNoria (ch_new c))
        else if ch_op c = SQLITE_DELETE then noria_apply_delete api e t (old_row n t c)
        else if ch_op c = SQLITE_UPDATE
        then noria_apply_update api e t (old_row n t c) (new_row (old_row n t c) (ch_new c))
        else e)"

section \<open>Lemmas\<close>

lemma SqliteValueToNoria_None [simp]: "SqliteValueToNoria None = NORIA_NULL"
  by (simp add: SqliteValueToNoria_def)

lemma changed_value_Inr [simp]: "changed_value (Inr v) = SqliteValueToNoria v"
  by (cases v) (simp_all add: changed_value_def)

lemma session_new_values:
  "it_op p \<in> {SQLITE_INSERT, SQLITE_UPDATE} \<Longrightarrow> length (it_new p) = it_nCol p \<Longrightarrow>
   session_new_values p (it_nCol p) = map SqliteValueToNoria (it_new p)"
  by (rule nth_equalityI) (auto simp: session_new_values_def sqlite3changeset_new_def)

lemma session_old_values:
  "it_op p \<in> {SQLITE_DELETE, SQLITE_UPDATE} \<Longrightarrow> length (it_old p) = it_nCol p \<Longrightarrow>
   session_old_values p (it_nCol p) = map SqliteValueToNoria (it_old p)"
  by (rule nth_equalityI) (auto simp: session_old_values_def sqlite3changeset_old_def)

lemma length_buffered_values: "buffered_values n t k m = Some vs \<Longrightarrow> length vs = m"
  by (auto simp: buffered_values_def split: option.splits if_splits)

lemma length_old_row [simp]: "length (old_row n t c) = length (ch_old c)"
  by (auto simp: old_row_def length_buffered_values split: option.split)

lemma update_new_values:
  assumes "it_op p = SQLITE_UPDATE" "length (it_new p) = it_nCol p" "length os = it_nCol p"
  shows "map (\<lambda>i. case sqlite3changeset_new p (int i) of
                    Inr (Some v) \<Rightarrow> SqliteValueToNoria (Some v) | _ \<Rightarrow> os ! i) [0..<it_nCol p] =
    new_row os (it_new p)"
  using assms
  by (intro nth_equalityI) (auto simp: new_row_def sqlite3changeset_new_def split: option.split)

lemma process_change_apply:
  assumes "iter_shape p"
  shows "process_change api n p e = apply_change api n (view p) e"
proof -
  let ?v = "view p"
  from assms obtain t where t: "it_zTab p = Some t" and len: "length (it_old p) = it_nCol p"
      "length (it_new p) = it_nCol p" "length (it_abPK p) = it_nCol p"
    unfolding iter_shape_def by auto
  have op: "sqlite3changeset_op p = (Some t, it_nCol p, it_op p, it_bIndirect p)"
    using t by (simp add: sqlite3changeset_op_def)
  have v: "?v = (t, it_abPK p, \<lparr>ch_op = it_op p, ch_indirect = it_bIndirect p, ch_old = it_old p, ch_new = it_new p\<rparr>)"
    (is "_ = (_, _, ?c)") using t by (simp add: view_def)
  have pk: "it_abPK p = [] \<longleftrightarrow> it_nCol p = 0" using len(3) by auto
  consider (none) "it_nCol p = 0 \<or> noria_table_has_views api e t = 0"
    | (ins) "it_op p = SQLITE_INSERT" "it_nCol p \<noteq> 0" "noria_table_has_views api e t \<noteq> 0"
    | (del) "it_op p = SQLITE_DELETE" "it_nCol p \<noteq> 0" "noria_table_has_views api e t \<noteq> 0"
    | (upd) "it_op p = SQLITE_UPDATE" "it_nCol p \<noteq> 0" "noria_table_has_views api e t \<noteq> 0"
    | (other) "it_op p \<notin> {SQLITE_INSERT, SQLITE_DELETE, SQLITE_UPDATE}" by auto
  then show ?thesis
  proof cases
    case none
    then show ?thesis by (auto simp: process_change_def op v apply_change_def pk)
  next
    case ins
    then show ?thesis
      using len(2) by (simp add: process_change_def op v apply_change_def pk session_new_values)
  next
    case del
    then have "change_rowid p = change_key ?c" by (simp add: change_rowid_def change_key_def sqlite3changeset_old_def)
    then show ?thesis using del len(1)
      by (simp add: process_change_def op v apply_change_def pk old_row_def session_old_values split: option.split)
  next
    case upd
    then have "change_rowid p = change_key ?c" by (simp add: change_rowid_def change_key_def sqlite3changeset_old_def)
    then have "(case buffered_values n t (change_rowid p) (it_nCol p) of
        Some vs \<Rightarrow> vs | None \<Rightarrow> session_old_values p (it_nCol p)) = old_row n t ?c"
      using upd len(1) by (simp add: old_row_def session_old_values split: option.split)
    then show ?thesis using upd len
      by (simp add: process_change_def op v apply_change_def pk Let_def update_new_values)
  next
    case other
    then show ?thesis by (simp add: process_change_def op v apply_change_def pk)
  qed
qed

interpretation noria_changes: change_handler "process_change api n" "apply_change api n"
  for api :: "'e engine_api" and n :: "'e noria"
  by unfold_locales (rule process_change_apply)

text \<open>The session a wrapper starts from: all tables of the main database, nothing recorded.\<close>

definition fresh_session :: session where
  "fresh_session = \<lparr>zDb = main_db, bEnableSize = False, bEnable = True, bIndirectAll = False,
     bAutoAttach = True, bImplicitPK = False, sess_rc = SQLITE_OK, xTableFilter = None,
     nMaxChangesetSize = 0, pTable = []\<rparr>"

lemma session_create_attach:
  "map_option (\<lambda>s. snd (sqlite3session_attach s None)) (snd (sqlite3session_create SQLITE_OK main_db)) = Some fresh_session"
  "fst (sqlite3session_create SQLITE_OK main_db) = SQLITE_OK"
  by (simp_all add: sqlite3session_create_def sqlite3session_attach_def fresh_session_def)

lemma enc_changeset_Nil_iff: "enc_changeset ts = [] \<longleftrightarrow> ts = []"
  by (cases ts) (simp_all add: enc_table_def)

lemma ProcessSessionChangeset_applies:
  assumes "m_session n = Some s" "m_has_any_views n" "autocommit conn" "m_handle n = Some e"
    and "sqlite3session_changeset (allocOk conn) False (sessionDb conn) s = Some (SQLITE_OK, enc_changeset ts, s')"
    and "list_all table_wf ts" "ts \<noteq> []"
  shows "ProcessSessionChangeset api conn n = Some (n\<lparr>
      m_handle := Some (fold (apply_change api n) (views ts) e),
      m_session := (if createRc conn = SQLITE_OK then Some fresh_session else None),
      m_buffered_old_rows := (\<lambda>_. None)\<rparr>)"
proof -
  from noria_changes.foreach_content [OF assms(6), of api n e] obtain p'
    where "changeset_foreach (process_change api n) (sqlite3changeset_start (enc_changeset ts)) e =
      Some (SQLITE_DONE, p', fold (apply_change api n) (views ts) e)" by blast
  then show ?thesis
    using assms(1-5) assms(7) enc_changeset_Nil_iff [of ts]
    by (auto simp: ProcessSessionChangeset_def ClearBufferedOldRows_def sqlite3session_create_def
        sqlite3session_attach_def fresh_session_def)
qed


section \<open>The wrapper as a state machine\<close>

text \<open>What no operation changes in a session: the options it was created with.\<close>

definition session_config :: "session \<Rightarrow> session" where
  "session_config s = s\<lparr>sess_rc := SQLITE_OK, nMaxChangesetSize := 0, pTable := []\<rparr>"

lemma session_config_updates [simp]:
  "session_config (s\<lparr>sess_rc := r\<rparr>) = session_config s"
  "session_config (s\<lparr>nMaxChangesetSize := k\<rparr>) = session_config s"
  "session_config (s\<lparr>pTable := ts\<rparr>) = session_config s"
  by (simp_all add: session_config_def)

lemma sessionInitTable_config: "sessionInitTable api s t = (b, s', t') \<Longrightarrow> session_config s' = session_config s"
  by (auto simp: sessionInitTable_def Let_def split: if_splits sum.splits)

lemma sessionReinitTable_config: "sessionReinitTable api s t = (r, s', t') \<Longrightarrow> session_config s' = session_config s"
  by (auto simp: sessionReinitTable_def Let_def split: if_splits sum.splits)

lemma sessionUpdateChanges_config: "sessionUpdateChanges api s t = (r, s', t') \<Longrightarrow> session_config s' = session_config s"
  by (auto simp: sessionUpdateChanges_def Let_def split: if_splits sum.splits)

lemmas session_config_steps = sessionInitTable_config sessionReinitTable_config sessionUpdateChanges_config

lemma sessionPreupdateOneChange_config:
  "sessionPreupdateOneChange api oom bw hook opc k s t = Some (s', t') \<Longrightarrow> session_config s' = session_config s"
  unfolding sessionPreupdateOneChange_def Let_def
  by (fastforce simp: bind_eq_Some_conv dest: session_config_steps split: if_splits prod.splits)

lemma sessionFindTable_config: "session_config (fst (sessionFindTable s z)) = session_config s"
  by (auto simp: sessionFindTable_def sqlite3session_attach_def split: option.splits if_splits)

lemma xPreUpdate_session_config:
  assumes "xPreUpdate_session api oom bw hook opc db z k1 k2 s = Some s'"
  shows "session_config s' = session_config s"
proof -
  obtain s1 f where f: "sessionFindTable s z = (s1, f)" by (cases "sessionFindTable s z")
  then have "session_config s1 = session_config s" using sessionFindTable_config [of s z] by simp
  with f assms show ?thesis
    unfolding xPreUpdate_session_def Let_def
    by (auto simp: bind_eq_Some_conv split: if_splits option.splits dest!: sessionPreupdateOneChange_config)
qed

lemma generate_tables_config:
  "generate_tables ra oom db bp s ts st = Some (b, r, s', ts') \<Longrightarrow> session_config s' = session_config s"
proof (induction ts arbitrary: s st b r s' ts')
  case (Cons t ts)
  obtain b0 r0 where st: "st = (b0, r0)" by (cases st)
  have tab: "session_config s2 = session_config s1" if "generate_table ra oom db bp s1 t b1 = Some (b2, r2, s2, t2)" for s1 b1 b2 r2 s2 t2
    using that unfolding generate_table_def Let_def
    by (auto simp: bind_eq_Some_conv dest!: session_config_steps split: if_splits prod.splits)
  show ?case using Cons.prems Cons.IH tab
    by (fastforce simp: st bind_eq_Some_conv split: if_splits)
next
  case Nil
  then show ?case by (cases st) simp
qed

lemma sqlite3session_changeset_config:
  "sqlite3session_changeset ra oom db s = Some (r, bs, s') \<Longrightarrow> session_config s' = session_config s"
  by (auto simp: sqlite3session_changeset_def sessionGenerateChangeset_def bind_eq_Some_conv
      dest!: generate_tables_config split: if_splits)

text \<open>
  The operations, in any order: those of the class, and SQLite recording a change in the
  session between them.
\<close>

inductive noria_step :: "'e engine_api \<Rightarrow> 'e noria \<Rightarrow> 'e noria \<Rightarrow> bool" for api where
  register_view: "noria_step api n (snd (RegisterView api conn sql n))"
| notify_change: "NotifyChange api conn n = Some n' \<Longrightarrow> noria_step api n n'"
| flush: "Flush api conn n = Some (r, n') \<Longrightarrow> noria_step api n n'"
| lookup: "noria_step api n (snd (Lookup api n v ks))"
| lookup_or_upquery: "noria_step api n (snd (LookupOrUpquery api conn n v ks))"
| queue_insert: "noria_step api n (snd (QueueInsert api n t vs))"
| queue_delete: "noria_step api n (snd (QueueDelete api n t vs))"
| queue_update: "noria_step api n (snd (QueueUpdate api n t vs ws))"
| queue_invalidate: "noria_step api n (snd (QueueInvalidateById api n i))"
| hook: "noria_step api n (PreUpdateHookCallback api k old opc t rowid n)"
| disable: "noria_step api n (Disable n)"
| enable: "noria_step api n (Enable n)"
| record_change: "m_session n = Some s \<Longrightarrow>
    xPreUpdate_session sapi oom bw hk opc db z k1 k2 s = Some s' \<Longrightarrow> noria_step api n (n\<lparr>m_session := Some s'\<rparr>)"

inductive noria_reach :: "'e engine_api \<Rightarrow> 'e noria \<Rightarrow> bool" for api where
  reach_new: "noria_reach api (Noria_new api db)"
| reach_step: "noria_reach api n \<Longrightarrow> noria_step api n n' \<Longrightarrow> noria_reach api n'"

text \<open>
  An enabled wrapper has an engine, views are only registered with an engine, and a session
  exists only once there are views; it records all tables of the main database.
\<close>

definition noria_inv :: "'e noria \<Rightarrow> bool" where
  "noria_inv n \<longleftrightarrow>
     (m_enabled n \<longrightarrow> m_handle n \<noteq> None) \<and> (m_has_any_views n \<longrightarrow> m_handle n \<noteq> None) \<and>
     (\<forall>s. m_session n = Some s \<longrightarrow> m_has_any_views n \<and> m_db n \<and> session_config s = fresh_session)"

lemma fresh_session_config [simp]: "session_config fresh_session = fresh_session"
  by (simp add: session_config_def fresh_session_def)

lemma RegisterTableSchema_fields:
  "m_session (RegisterTableSchema api conn t n) = m_session n" "m_db (RegisterTableSchema api conn t n) = m_db n"
  "m_has_any_views (RegisterTableSchema api conn t n) = m_has_any_views n"
  "m_enabled (RegisterTableSchema api conn t n) = m_enabled n"
  "m_handle n \<noteq> None \<Longrightarrow> m_handle (RegisterTableSchema api conn t n) \<noteq> None"
  by (auto simp: RegisterTableSchema_def Let_def split: option.splits)

lemma RegisterTablesFromSql_inv: "noria_inv n \<Longrightarrow> noria_inv (RegisterTablesFromSql api conn sql n)"
proof -
  have "noria_inv (RegisterTableSchema api conn t n)" if "noria_inv n" for t n
    using that RegisterTableSchema_fields [where api = api and conn = conn and t = t and n = n]
    unfolding noria_inv_def by auto
  then have "noria_inv (fold (RegisterTableSchema api conn) ts n)" if "noria_inv n" for ts
    using that by (induction ts arbitrary: n) auto
  then show "noria_inv n \<Longrightarrow> noria_inv (RegisterTablesFromSql api conn sql n)"
    by (simp add: RegisterTablesFromSql_def)
qed

lemma EnsureSession_inv:
  "noria_inv n \<Longrightarrow> m_has_any_views n \<Longrightarrow> noria_inv (EnsureSession conn n)"
  by (auto simp: noria_inv_def EnsureSession_def sqlite3session_create_def sqlite3session_attach_def
      fresh_session_def session_config_def)

lemma noria_inv_handle:
  "noria_inv n \<Longrightarrow> noria_inv (n\<lparr>m_handle := Some e\<rparr>)"
  "noria_inv n \<Longrightarrow> noria_inv (n\<lparr>m_handle := Some e, m_has_any_views := True\<rparr>)"
  by (simp_all add: noria_inv_def)

lemma RegisterView_inv: "noria_inv n \<Longrightarrow> noria_inv (snd (RegisterView api conn sql n))"
  using RegisterTablesFromSql_inv [of n api conn sql]
  by (auto simp: RegisterView_def Let_def split: prod.split intro: EnsureSession_inv noria_inv_handle)

lemma ProcessSessionChangeset_inv:
  assumes "noria_inv n" "ProcessSessionChangeset api conn n = Some n'"
  shows "noria_inv n'"
proof (cases "m_session n")
  case None
  then show ?thesis using assms by (simp add: ProcessSessionChangeset_def)
next
  case (Some s)
  show ?thesis
  proof (cases "m_has_any_views n \<and> autocommit conn")
    case True
    then obtain r bs s' where cs: "sqlite3session_changeset (allocOk conn) False (sessionDb conn) s = Some (r, bs, s')"
      using assms(2) Some by (auto simp: ProcessSessionChangeset_def bind_eq_Some_conv)
    have "session_config s' = fresh_session"
      using sqlite3session_changeset_config [OF cs] assms(1) Some by (simp add: noria_inv_def)
    then show ?thesis
      using assms Some True cs
      by (auto simp: ProcessSessionChangeset_def noria_inv_def ClearBufferedOldRows_def bind_eq_Some_conv
          sqlite3session_create_def sqlite3session_attach_def fresh_session_def session_config_def split: if_splits)
  next
    case False
    then have "n' = n" using assms(2) Some by (auto simp: ProcessSessionChangeset_def split: if_splits)
    then show ?thesis using assms(1) by simp
  qed
qed

lemma engine_call_inv: "noria_inv n \<Longrightarrow> noria_inv (snd (engine_call f n))"
  by (auto simp: engine_call_def noria_inv_handle split: prod.split)

lemma Flush_inv:
  assumes "noria_inv n" "Flush api conn n = Some (r, n')"
  shows "noria_inv n'"
proof (cases "IsEnabled n")
  case True
  then obtain n1 where n1: "ProcessSessionChangeset api conn n = Some n1"
    using assms(2) by (cases "ProcessSessionChangeset api conn n") (simp_all add: Flush_def)
  then have "n' = n1\<lparr>m_handle := Some (snd (noria_flush api (the (m_handle n1))))\<rparr>"
    using True assms(2) by (simp add: Flush_def split_beta)
  then show ?thesis using ProcessSessionChangeset_inv [OF assms(1) n1] by (simp add: noria_inv_handle)
qed (use assms in \<open>simp add: Flush_def\<close>)

lemma flag_inv: "noria_inv n \<Longrightarrow> noria_inv (Disable n)" "noria_inv n \<Longrightarrow> noria_inv (Enable n)"
  by (simp_all add: noria_inv_def Disable_def Enable_def)

lemma hook_inv: "noria_inv n \<Longrightarrow> noria_inv (PreUpdateHookCallback api k old opc t rowid n)"
  by (simp add: PreUpdateHookCallback_def CaptureOldRow_def noria_inv_def split: option.split)

lemma noria_step_inv: "noria_step api n n' \<Longrightarrow> noria_inv n \<Longrightarrow> noria_inv n'"
proof (induction rule: noria_step.induct)
  case (notify_change conn n n')
  then show ?case using ProcessSessionChangeset_inv by (auto simp: NotifyChange_def)
next
  case (record_change n s sapi oom bw hk opc db z k1 k2 s')
  then show ?case using xPreUpdate_session_config by (fastforce simp: noria_inv_def)
next
  case (flush conn n r n')
  then show ?case by (rule Flush_inv [rotated])
qed (simp_all add: RegisterView_inv engine_call_inv flag_inv hook_inv Lookup_def LookupOrUpquery_def
    QueueInsert_def QueueDelete_def QueueUpdate_def QueueInvalidateById_def)

lemma noria_reach_inv: "noria_reach api n \<Longrightarrow> noria_inv n"
proof (induction rule: noria_reach.induct)
  case (reach_new db)
  show ?case by (simp add: Noria_new_def noria_inv_def)
qed (rule noria_step_inv)

section \<open>A session in error\<close>

lemma session_error_processed:
  assumes "m_session n = Some s" "sess_rc s \<noteq> SQLITE_OK"
  shows "ProcessSessionChangeset api conn n \<in> {Some n, Some (ClearBufferedOldRows n)}"
proof -
  have "ClearBufferedOldRows (n\<lparr>m_session := Some s\<rparr>) = ClearBufferedOldRows n"
    using assms(1) by (cases n) (simp add: ClearBufferedOldRows_def)
  then show ?thesis using assms
    by (simp add: ProcessSessionChangeset_def sqlite3session_changeset_def sessionGenerateChangeset_def)
qed

lemma session_error_kept:
  "noria_step api n n' \<Longrightarrow> m_session n = Some s \<Longrightarrow> sess_rc s \<noteq> SQLITE_OK \<Longrightarrow> m_session n' = Some s"
proof (induction rule: noria_step.induct)
  case (register_view n conn sql)
  have "m_session (fold (RegisterTableSchema api conn) ts n) = m_session n" for ts n
    by (induction ts arbitrary: n) (simp_all add: RegisterTableSchema_fields)
  then show ?case using register_view
    by (auto simp: RegisterView_def Let_def RegisterTablesFromSql_def EnsureSession_def split: prod.split)
next
  case (notify_change conn n n')
  then show ?case using session_error_processed [of n s api conn] by (auto simp: NotifyChange_def ClearBufferedOldRows_def)
next
  case (flush conn n r n')
  then show ?case using session_error_processed [of n s api conn]
    by (auto simp: Flush_def ClearBufferedOldRows_def split_beta split: if_splits)
next
  case (record_change n s' sapi oom bw hk opc db z k1 k2 s'')
  then show ?case by (simp add: xPreUpdate_session_def)
qed (simp_all add: engine_call_def Lookup_def LookupOrUpquery_def QueueInsert_def QueueDelete_def QueueUpdate_def
    QueueInvalidateById_def Disable_def Enable_def PreUpdateHookCallback_def CaptureOldRow_def split: prod.split option.split)

section \<open>Example\<close>

text \<open>An engine that only notes what it is told, with a view on the table t.\<close>

datatype engine_event =
    EvInsert bytes "noria_value list"
  | EvDelete bytes "noria_value list"
  | EvUpdate bytes "noria_value list" "noria_value list"

definition example_engine :: "engine_event list engine_api" where
  "example_engine = \<lparr>noria_create = Some [], noria_register_view = (\<lambda>e _. (0, e)),
     noria_register_table_schema = (\<lambda>e _ _. e), noria_has_view = (\<lambda>_ _. 0),
     noria_table_has_views = (\<lambda>_ t. if t = [0x74] then 1 else 0), noria_get_table_id = (\<lambda>_ _. 0),
     noria_queue_invalidate_by_id = (\<lambda>e _. (0, e)),
     noria_lookup = (\<lambda>e _ _. (\<lparr>found = 0, row_count = 0, rows = None\<rparr>, e)),
     noria_lookup_or_upquery = (\<lambda>_ e _ _. (\<lparr>found = 0, row_count = 0, rows = None\<rparr>, e)),
     noria_apply_insert = (\<lambda>e t vs. e @ [EvInsert t vs]), noria_apply_delete = (\<lambda>e t vs. e @ [EvDelete t vs]),
     noria_apply_update = (\<lambda>e t vs ws. e @ [EvUpdate t vs ws]),
     noria_queue_insert = (\<lambda>e t vs. (0, e @ [EvInsert t vs])), noria_queue_delete = (\<lambda>e t vs. (0, e @ [EvDelete t vs])),
     noria_queue_update = (\<lambda>e t vs ws. (0, e @ [EvUpdate t vs ws])), noria_flush = (\<lambda>e. (0, e)),
     noria_get_stats = (\<lambda>_. \<lparr>cache_hits = 0, cache_misses = 0, total_rows = 0, view_count = 0, node_count = 0,
       memory_bytes = 0, max_memory_bytes = 0, eviction_count = 0, bytes_evicted = 0\<rparr>)\<rparr>"

definition example_connection :: "session_db \<Rightarrow> connection" where
  "example_connection db = \<lparr>autocommit = True, createRc = SQLITE_OK, sessionDb = db, allocOk = (\<lambda>_. True),
     query = (\<lambda>_ _. None), pragmaColumns = (\<lambda>_. None)\<rparr>"

definition example_noria :: "session \<Rightarrow> engine_event list noria" where
  "example_noria s = \<lparr>m_handle = Some [], m_db = True, m_session = Some s, m_enabled = True, m_has_any_views = True,
     m_buffered_old_rows = (\<lambda>_. None)\<rparr>"

lemma example_register: "snd (RegisterView example_engine (example_connection db) [] (Noria_new example_engine True)) =
    example_noria fresh_session"
  by (simp add: RegisterView_def RegisterTablesFromSql_def tables_from_sql_def from_tables_def join_tables.simps
      find_from.simps example_engine_def Noria_new_def IsEnabled_def EnsureSession_def example_connection_def
      sqlite3session_create_def sqlite3session_attach_def fresh_session_def example_noria_def)

lemma example_reach: "noria_reach example_engine (example_noria fresh_session)"
  using reach_step [OF reach_new noria_step.register_view] example_register by metis

section \<open>Properties\<close>

text \<open>C8: however the operations of the wrapper and the recording of changes by SQLite are
  interleaved, an enabled wrapper has an engine handle, views exist only with a handle, and a
  session exists only when there are views and a database; it was created for all tables of
  the main database and keeps these options.  So no operation uses a null handle.\<close>

theorem noria_invariant:
  assumes "noria_reach api n"
  shows "noria_inv n"
  using noria_reach_inv [OF assms] .

theorem noria_invariant_witness: "noria_inv (example_noria fresh_session)"
  using noria_invariant [OF example_reach] .

text \<open>C15: once the session is in an error state it stays there: no operation of the wrapper and no
  change recorded by SQLite replaces it, so from then on no change of the database is delivered
  to the engine, although views stay registered.\<close>

theorem session_error_final:
  assumes "(noria_step api)\<^sup>*\<^sup>* n n'" and "m_session n = Some s" and "sess_rc s \<noteq> SQLITE_OK"
  shows "m_session n' = Some s \<and>
    ProcessSessionChangeset api conn n' \<in> {Some n', Some (ClearBufferedOldRows n')}"
proof -
  have "m_session n' = Some s"
    using assms by (induction rule: rtranclp_induct) (simp_all add: session_error_kept)
  then show ?thesis using session_error_processed assms(3) by blast
qed

theorem session_error_final_witness:
  "m_session (example_noria (fresh_session\<lparr>sess_rc := SQLITE_SCHEMA\<rparr>)) = Some (fresh_session\<lparr>sess_rc := SQLITE_SCHEMA\<rparr>) \<and>
   (\<forall>conn. ProcessSessionChangeset example_engine conn (Disable (example_noria (fresh_session\<lparr>sess_rc := SQLITE_SCHEMA\<rparr>))) \<in>
     {Some (Disable (example_noria (fresh_session\<lparr>sess_rc := SQLITE_SCHEMA\<rparr>))),
      Some (ClearBufferedOldRows (Disable (example_noria (fresh_session\<lparr>sess_rc := SQLITE_SCHEMA\<rparr>))))})"
  using session_error_final [OF r_into_rtranclp [of "noria_step example_engine", OF noria_step.disable],
      of "example_noria (fresh_session\<lparr>sess_rc := SQLITE_SCHEMA\<rparr>)"]
  by (simp add: example_noria_def)

end
