(* ===== verification/Connection.thy ===== *)
theory Connection
  imports Binder NoriaBridge
begin

text \<open>
  The objects of the addon: \<open>Database\<close>, \<open>Statement\<close>, \<open>StatementIterator\<close> and \<open>Backup\<close> of objects/, with
  the macros of util/macros.cpp and util/query-macros.cpp that guard their methods.

  One connection is modelled, with the objects made from it; objects are referred to by
  numbers.  A method takes its arguments and the state and gives what it returns or throws and
  the new state, or \<open>None\<close> if it does not return or is undefined.  SQLite is a parameter: the
  functions the methods call on the state \<open>'q\<close> of the connection.
\<close>

section \<open>Objects\<close>

text \<open>\<open>Statement\<close> with its \<open>Extras\<close>; \<open>st_sql\<close> is what \<open>sqlite3_sql\<close> gives.\<close>

record statement =
  st_handle :: vdbe
  st_sql :: "bytes option"
  st_alive :: bool
  st_locked :: bool
  st_bound :: bool
  st_has_bind_map :: bool
  st_bind_map :: bind_map
  st_safe_ints :: bool
  st_mode :: row_mode
  st_returns_data :: bool
  st_noria_view_id :: int
  st_column_names :: "js_string list"
  st_stmt_type :: statement_type
  st_table_name :: bytes
  st_table_id :: int

record statement_iterator =
  si_stmt :: nat
  si_bound :: bool
  si_safe_ints :: bool
  si_mode :: row_mode
  si_alive :: bool
  si_logged :: bool

record backup =
  bk_alive :: bool
  bk_unlink :: bool

text \<open>
  \<open>Database\<close>: its fields, and the objects that exist.  \<open>d_registered\<close> says that the connection is in
  \<open>addon->dbs\<close>; \<open>d_next_id\<close> is the counter of the addon.
\<close>

record ('q, 'e) database =
  d_handle :: 'q
  d_open :: bool
  d_busy :: bool
  d_safe_ints :: bool
  d_unsafe_mode :: bool
  d_was_js_error :: bool
  d_has_logger :: bool
  d_iterators :: u16
  d_stmts :: "nat list"
  d_backups :: "nat list"
  d_noria :: "'e noria option"
  d_registered :: bool
  d_next_id :: nat
  d_next_iterator :: nat
  d_statement :: "nat \<Rightarrow> statement option"
  d_iterator :: "nat \<Rightarrow> statement_iterator option"
  d_backup :: "nat \<Rightarrow> backup option"

section \<open>The environment\<close>

text \<open>What \<open>sqlite3_create_function_v2\<close>, \<open>sqlite3_create_window_function\<close> and \<open>sqlite3_create_module_v2\<close>
  are asked to register: name, number of arguments, flags, the handling of integers and, for an
  aggregate, whether there is an inverse.\<close>

datatype registration =
    RegisterFunction bytes int u32 bool
  | RegisterAggregate bytes int u32 bool bool
  | RegisterTable bytes bool

text \<open>
  SQLite, V8 and the engine.  \<open>e_step\<close> gives the result code, the statement afterwards, the
  connection, whether JavaScript code called meanwhile has thrown, and what the hooks on
  the changes made have done to the Noria wrapper.  \<open>e_prepare\<close> gives the statement, if the text
  has one, and the rest of the text.  \<open>e_logger\<close> says that the logger throws.
\<close>

record ('q, 'e) env =
  e_v8 :: v8_api
  e_engine :: "'e engine_api"
  e_conn :: "'q \<Rightarrow> connection"
  e_step :: "'q \<Rightarrow> vdbe \<Rightarrow> rc \<times> vdbe \<times> 'q \<times> bool \<times> ('e noria \<Rightarrow> 'e noria)"
  e_reset :: "'q \<Rightarrow> vdbe \<Rightarrow> rc \<times> vdbe \<times> 'q"
  e_finalize :: "'q \<Rightarrow> vdbe \<Rightarrow> rc \<times> 'q"
  e_prepare :: "'q \<Rightarrow> bytes \<Rightarrow> bool \<Rightarrow> rc \<times> (vdbe \<times> bytes option) option \<times> bytes \<times> 'q \<times> bool"
  e_logger :: "'q \<Rightarrow> vdbe \<Rightarrow> bool"
  e_total_changes :: "'q \<Rightarrow> int"
  e_changes :: "'q \<Rightarrow> int"
  e_last_insert_rowid :: "'q \<Rightarrow> u64"
  e_errmsg :: "'q \<Rightarrow> bytes"
  e_extended_errcode :: "'q \<Rightarrow> rc"
  e_register :: "'q \<Rightarrow> registration \<Rightarrow> rc \<times> 'q \<times> bool"
  e_load_extension :: "'q \<Rightarrow> bytes \<Rightarrow> bytes option \<Rightarrow> rc \<times> bytes \<times> 'q"
  e_serialize :: "'q \<Rightarrow> bytes \<Rightarrow> bytes option \<times> int"
  e_defensive :: "'q \<Rightarrow> bool \<Rightarrow> 'q"
  e_backup_open :: "'q \<Rightarrow> bytes \<Rightarrow> bytes \<Rightarrow> js_error option \<times> 'q"
  e_backup_step :: "'q \<Rightarrow> nat \<Rightarrow> int \<Rightarrow> rc \<times> int \<times> int \<times> 'q"
  e_errstr :: "rc \<Rightarrow> bytes"
  e_column_info :: "vdbe \<Rightarrow> nat \<Rightarrow> bytes option list"

section \<open>Results\<close>

datatype outcome = Throws js_error | Returns js_value | ReturnsThis | ReturnsNew nat

text \<open>The guards of a method, in order.\<close>

fun first_error :: "js_error option list \<Rightarrow> js_error option" where
  "first_error [] = None"
| "first_error (Some e # es) = Some e"
| "first_error (None # es) = first_error es"

definition require :: "bool \<Rightarrow> js_error \<Rightarrow> js_error option" where
  "require ok e = (if ok then None else Some e)"

definition REQUIRE_DATABASE_OPEN :: "('q, 'e) database \<Rightarrow> js_error option" where
  "REQUIRE_DATABASE_OPEN d = require (d_open d) (TypeError (lit ''The database connection is not open''))"

definition REQUIRE_DATABASE_NOT_BUSY :: "('q, 'e) database \<Rightarrow> js_error option" where
  "REQUIRE_DATABASE_NOT_BUSY d =
     require (\<not> d_busy d) (TypeError (lit ''This database connection is busy executing a query''))"

definition REQUIRE_DATABASE_NO_ITERATORS :: "('q, 'e) database \<Rightarrow> js_error option" where
  "REQUIRE_DATABASE_NO_ITERATORS d =
     require (d_iterators d = 0) (TypeError (lit ''This database connection is busy executing a query''))"

definition REQUIRE_DATABASE_NO_ITERATORS_UNLESS_UNSAFE :: "('q, 'e) database \<Rightarrow> js_error option" where
  "REQUIRE_DATABASE_NO_ITERATORS_UNLESS_UNSAFE d =
     (if \<not> d_unsafe_mode d then REQUIRE_DATABASE_NO_ITERATORS d else None)"

definition REQUIRE_STATEMENT_NOT_LOCKED :: "statement \<Rightarrow> js_error option" where
  "REQUIRE_STATEMENT_NOT_LOCKED s =
     require (\<not> st_locked s) (TypeError (lit ''This statement is busy executing a query''))"

definition REQUIRE_STATEMENT_RETURNS_DATA :: "statement \<Rightarrow> js_error option" where
  "REQUIRE_STATEMENT_RETURNS_DATA s =
     require (st_returns_data s) (TypeError (lit ''This statement does not return data. Use run() instead''))"

definition DOES_NOT_MUTATE :: "statement \<Rightarrow> ('q, 'e) database \<Rightarrow> js_error option list" where
  "DOES_NOT_MUTATE s d = [REQUIRE_STATEMENT_NOT_LOCKED s]"

definition DOES_MUTATE :: "statement \<Rightarrow> ('q, 'e) database \<Rightarrow> js_error option list" where
  "DOES_MUTATE s d = [REQUIRE_STATEMENT_NOT_LOCKED s, REQUIRE_DATABASE_NO_ITERATORS_UNLESS_UNSAFE d]"

abbreviation USHRT_MAX :: u16 where "USHRT_MAX \<equiv> 0xffff"

definition DOES_ADD_ITERATOR :: "statement \<Rightarrow> ('q, 'e) database \<Rightarrow> js_error option list" where
  "DOES_ADD_ITERATOR s d =
     DOES_NOT_MUTATE s d @
     [require (d_iterators d \<noteq> USHRT_MAX) (RangeError (lit ''Too many active database iterators''))]"

text \<open>\<open>REQUIRE_ARGUMENT_*\<close>: argument \<open>i\<close> exists and is of the type; \<open>m\<close> is the message.\<close>

definition require_argument :: "js_value list \<Rightarrow> nat \<Rightarrow> (js_value \<Rightarrow> bool) \<Rightarrow> string \<Rightarrow> js_error option" where
  "require_argument info i is_type m = require (i < length info \<and> is_type (info ! i)) (TypeError (lit m))"

definition IsString :: "js_value \<Rightarrow> bool" where
  "IsString v \<longleftrightarrow> (case v of JsString _ \<Rightarrow> True | _ \<Rightarrow> False)"

definition IsBoolean :: "js_value \<Rightarrow> bool" where
  "IsBoolean v \<longleftrightarrow> (case v of JsBoolean _ \<Rightarrow> True | _ \<Rightarrow> False)"

definition IsFunction :: "js_value \<Rightarrow> bool" where
  "IsFunction v \<longleftrightarrow> (case v of JsFunction _ \<Rightarrow> True | _ \<Rightarrow> False)"

definition IsObject :: "js_value \<Rightarrow> bool" where
  "IsObject v \<longleftrightarrow>
     (case v of JsObject _ _ \<Rightarrow> True | JsArray _ \<Rightarrow> True | JsFunction _ \<Rightarrow> True | JsBuffer _ \<Rightarrow> True | _ \<Rightarrow> False)"

text \<open>A number that is a 32-bit signed integer, negative zero excluded.\<close>

definition int32_value :: "js_value \<Rightarrow> int option" where
  "int32_value v =
     (case v of
        JsNumber d \<Rightarrow>
          (case int64_of_double d of
             Some i \<Rightarrow> if d = double_of_int i \<and> - (2 ^ 31) \<le> i \<and> i < 2 ^ 31 then Some i else None
           | None \<Rightarrow> None)
      | _ \<Rightarrow> None)"

definition IsInt32 :: "js_value \<Rightarrow> bool" where
  "IsInt32 v \<longleftrightarrow> int32_value v \<noteq> None"

fun string_arg :: "js_value \<Rightarrow> js_string" where
  "string_arg (JsString s) = s"
| "string_arg _ = []"

fun bool_arg :: "js_value \<Rightarrow> bool" where
  "bool_arg (JsBoolean b) = b"
| "bool_arg _ = False"

definition int32_arg :: "js_value \<Rightarrow> int" where
  "int32_arg v = the (int32_value v)"

section \<open>Helpers of the database\<close>

definition set_statement :: "nat \<Rightarrow> statement \<Rightarrow> ('q, 'e) database \<Rightarrow> ('q, 'e) database" where
  "set_statement i s d = d\<lparr>d_statement := (d_statement d)(i \<mapsto> s)\<rparr>"

text \<open>The error of the connection, unless the exception of JavaScript code is already pending.\<close>

definition ThrowDatabaseError :: "('q, 'e) env \<Rightarrow> ('q, 'e) database \<Rightarrow> outcome \<times> ('q, 'e) database" where
  "ThrowDatabaseError env d =
     (if d_was_js_error d then (Throws UserException, d\<lparr>d_was_js_error := False\<rparr>)
      else (Throws (SqliteError (e_errmsg env (d_handle d)) (e_extended_errcode env (d_handle d))), d))"

definition Log :: "('q, 'e) env \<Rightarrow> vdbe \<Rightarrow> ('q, 'e) database \<Rightarrow> bool \<times> ('q, 'e) database" where
  "Log env p d =
     (if \<not> d_has_logger d then (False, d)
      else let r = e_logger env (d_handle d) p in (r, d\<lparr>d_was_js_error := r\<rparr>))"

text \<open>\<open>sqlite3_step\<close> and \<open>sqlite3_reset\<close> on the handle of a statement.\<close>

definition do_step :: "('q, 'e) env \<Rightarrow> nat \<Rightarrow> statement \<Rightarrow> ('q, 'e) database \<Rightarrow> rc \<times> statement \<times> ('q, 'e) database" where
  "do_step env i s d =
     (case e_step env (d_handle d) (st_handle s) of
        (rc, p, q, js, hooks) \<Rightarrow>
          let s = s\<lparr>st_handle := p\<rparr>
          in (rc, s, set_statement i s (d\<lparr>d_handle := q, d_was_js_error := d_was_js_error d \<or> js,
                d_noria := map_option hooks (d_noria d)\<rparr>)))"

definition do_reset :: "('q, 'e) env \<Rightarrow> nat \<Rightarrow> statement \<Rightarrow> ('q, 'e) database \<Rightarrow> rc \<times> statement \<times> ('q, 'e) database" where
  "do_reset env i s d =
     (case e_reset env (d_handle d) (st_handle s) of
        (rc, p, q) \<Rightarrow>
          let s = s\<lparr>st_handle := p\<rparr> in (rc, s, set_statement i s (d\<lparr>d_handle := q\<rparr>)))"

definition clear_unless_bound :: "nat \<Rightarrow> bool \<Rightarrow> ('q, 'e) database \<Rightarrow> ('q, 'e) database" where
  "clear_unless_bound i bound d =
     (if bound then d
      else case d_statement d i of
             Some s \<Rightarrow> set_statement i (s\<lparr>st_handle := sqlite3_clear_bindings (st_handle s)\<rparr>) d
           | None \<Rightarrow> d)"

definition STATEMENT_THROW_LOGIC :: "('q, 'e) env \<Rightarrow> nat \<Rightarrow> bool \<Rightarrow> ('q, 'e) database \<Rightarrow> outcome \<times> ('q, 'e) database" where
  "STATEMENT_THROW_LOGIC env i bound d =
     (case ThrowDatabaseError env d of (r, d) \<Rightarrow> (r, clear_unless_bound i bound d))"

definition STATEMENT_RETURN_LOGIC :: "nat \<Rightarrow> bool \<Rightarrow> js_value \<Rightarrow> ('q, 'e) database \<Rightarrow> outcome \<times> ('q, 'e) database" where
  "STATEMENT_RETURN_LOGIC i bound v d = (Returns v, clear_unless_bound i bound d)"

definition STATEMENT_THROW :: "('q, 'e) env \<Rightarrow> nat \<Rightarrow> bool \<Rightarrow> ('q, 'e) database \<Rightarrow> outcome \<times> ('q, 'e) database" where
  "STATEMENT_THROW env i bound d = STATEMENT_THROW_LOGIC env i bound (d\<lparr>d_busy := False\<rparr>)"

definition STATEMENT_RETURN :: "nat \<Rightarrow> bool \<Rightarrow> js_value \<Rightarrow> ('q, 'e) database \<Rightarrow> outcome \<times> ('q, 'e) database" where
  "STATEMENT_RETURN i bound v d = STATEMENT_RETURN_LOGIC i bound v (d\<lparr>d_busy := False\<rparr>)"

text \<open>
  The start of a method of a statement: an outcome if the method ends here.  The guards are
  those of the method; the parameters are bound unless the statement is bound for good.
\<close>

definition STATEMENT_START_LOGIC ::
  "('q, 'e) env \<Rightarrow> js_error option list \<Rightarrow> (statement \<Rightarrow> ('q, 'e) database \<Rightarrow> js_error option list) \<Rightarrow> nat \<Rightarrow> js_value list \<Rightarrow>
    statement \<Rightarrow> ('q, 'e) database \<Rightarrow> outcome option \<times> statement \<times> ('q, 'e) database" where
  "STATEMENT_START_LOGIC env returns_check mutate_check i info s d =
     (case first_error (returns_check @ [REQUIRE_DATABASE_OPEN d, REQUIRE_DATABASE_NOT_BUSY d] @ mutate_check s d) of
        Some e \<Rightarrow> (Some (Throws e), s, d)
      | None \<Rightarrow>
          if \<not> st_bound s then
            let b = STATEMENT_BIND (e_v8 env) info (st_handle s) (st_has_bind_map s) (st_bind_map s);
                s = s\<lparr>st_handle := b_handle b, st_has_bind_map := b_has_bind_map b, st_bind_map := b_bind_map b\<rparr>
            in (if b_success b then None else Some (Throws (the (b_thrown b))), s, set_statement i s d)
          else if info \<noteq> [] then
            (Some (Throws (TypeError (lit ''This statement already has bound parameters''))), s, d)
          else (None, s, d))"

definition STATEMENT_START ::
  "('q, 'e) env \<Rightarrow> js_error option list \<Rightarrow> (statement \<Rightarrow> ('q, 'e) database \<Rightarrow> js_error option list) \<Rightarrow> nat \<Rightarrow> js_value list \<Rightarrow>
    statement \<Rightarrow> ('q, 'e) database \<Rightarrow> outcome option \<times> statement \<times> ('q, 'e) database" where
  "STATEMENT_START env returns_check mutate_check i info s d =
     (case STATEMENT_START_LOGIC env returns_check mutate_check i info s d of
        (Some r, s, d) \<Rightarrow> (Some r, s, d)
      | (None, s, d) \<Rightarrow>
          (case Log env (st_handle s) (d\<lparr>d_busy := True\<rparr>) of
             (True, d) \<Rightarrow> (case STATEMENT_THROW env i (st_bound s) d of (r, d) \<Rightarrow> (Some r, s, d))
           | (False, d) \<Rightarrow> (None, s, d)))"

section \<open>Noria values and JavaScript values\<close>

text \<open>
  \<open>V8ToNoriaKey\<close> (and \<open>V8ToNoriaValue\<close> of noria.cpp, which differs only in who keeps the text): \<open>None\<close> if
  the number cannot be cast to an integer.  A bigint is cut to 64 bits, and a value of another
  type leaves the zeroed structure, a null.  Texts and buffers are shorter than 2 GiB, as their
  lengths are kept in an \<open>int\<close>.
\<close>

definition V8ToNoriaKey :: "v8_api \<Rightarrow> js_value \<Rightarrow> noria_value option" where
  "V8ToNoriaKey v8 val =
     (case val of
        JsNull \<Rightarrow> Some NORIA_NULL
      | JsUndefined \<Rightarrow> Some NORIA_NULL
      | JsNumber d \<Rightarrow>
          map_option (\<lambda>i. if double_eq d (double_of_int i) then NORIA_INTEGER (word_of_int i) else NORIA_FLOAT d)
            (int64_of_double d)
      | JsBigInt n \<Rightarrow> Some (NORIA_INTEGER (word_of_int n))
      | JsString s \<Rightarrow> Some (NORIA_TEXT (utf8_value v8 s))
      | JsBuffer b \<Rightarrow> Some (NORIA_BLOB b)
      | _ \<Rightarrow> Some NORIA_NULL)"

definition NoriaValueToV8 :: "v8_api \<Rightarrow> bool \<Rightarrow> noria_value \<Rightarrow> js_value" where
  "NoriaValueToV8 v8 safe_ints nv =
     (case nv of
        NORIA_NULL \<Rightarrow> JsNull
      | NORIA_INTEGER i \<Rightarrow> if safe_ints then JsBigInt (sint i) else JsNumber (double_of_int (sint i))
      | NORIA_FLOAT r \<Rightarrow> JsNumber r
      | NORIA_TEXT z \<Rightarrow> JsString (string_from_utf8 v8 z)
      | NORIA_BLOB z \<Rightarrow> JsBuffer z)"

definition RowColumnCount :: "noria_value list list option \<Rightarrow> nat \<Rightarrow> nat" where
  "RowColumnCount rs i = (case rs of Some rs \<Rightarrow> if i < length rs then length (rs ! i) else 0 | None \<Rightarrow> 0)"

definition GetValue :: "noria_value list list option \<Rightarrow> nat \<Rightarrow> nat \<Rightarrow> noria_value option" where
  "GetValue rs i j =
     (case rs of
        Some rs \<Rightarrow> if i < length rs \<and> j < length (rs ! i) then Some (rs ! i ! j) else None
      | None \<Rightarrow> None)"

definition NoriaRowToJS :: "v8_api \<Rightarrow> noria_value list list option \<Rightarrow> nat \<Rightarrow> js_string list \<Rightarrow> bool \<Rightarrow> js_value" where
  "NoriaRowToJS v8 rs row_index column_names safe_ints =
     (let col_count = RowColumnCount rs row_index
      in if col_count = 0 then JsNull
         else Object_New (zip column_names
                (map (\<lambda>i. case GetValue rs row_index i of
                            Some nv \<Rightarrow> NoriaValueToV8 v8 safe_ints nv | None \<Rightarrow> JsNull) [0..<col_count])))"

text \<open>
  The keys of a lookup: the arguments, arrays flattened, as far as there are parameters; the
  other keys are nulls.  An element whose access throws ends the process (\<open>None\<close>).
\<close>

definition key_arguments :: "js_value list \<Rightarrow> js_value option list" where
  "key_arguments info = concat (map (\<lambda>a. case a of JsArray es \<Rightarrow> es | _ \<Rightarrow> [Some a]) info)"

fun keys_of :: "v8_api \<Rightarrow> js_value option list \<Rightarrow> noria_value list option" where
  "keys_of v8 [] = Some []"
| "keys_of v8 (None # as) = None"
| "keys_of v8 (Some a # as) = do { k \<leftarrow> V8ToNoriaKey v8 a; ks \<leftarrow> keys_of v8 as; Some (k # ks) }"

definition lookup_keys :: "v8_api \<Rightarrow> nat \<Rightarrow> js_value list \<Rightarrow> noria_value list option" where
  "lookup_keys v8 param_count info = do {
     ks \<leftarrow> keys_of v8 (take param_count (key_arguments info));
     Some (ks @ replicate (param_count - length ks) NORIA_NULL)
   }"

section \<open>Statements\<close>

definition Statement_new :: "('q, 'e) database \<Rightarrow> vdbe \<Rightarrow> bytes option \<Rightarrow> bool \<Rightarrow> statement" where
  "Statement_new d p sql returns_data =
     \<lparr>st_handle = p, st_sql = sql, st_alive = True, st_locked = False, st_bound = False, st_has_bind_map = False,
      st_bind_map = BindMap_new, st_safe_ints = d_safe_ints d, st_mode = FLAT, st_returns_data = returns_data,
      st_noria_view_id = -1, st_column_names = [], st_stmt_type = STMT_OTHER, st_table_name = [], st_table_id = -1\<rparr>"

definition AddStatement :: "nat \<Rightarrow> ('q, 'e) database \<Rightarrow> ('q, 'e) database" where
  "AddStatement i d = d\<lparr>d_stmts := d_stmts d @ [i]\<rparr>"

definition RemoveStatement :: "nat \<Rightarrow> ('q, 'e) database \<Rightarrow> ('q, 'e) database" where
  "RemoveStatement i d = d\<lparr>d_stmts := removeAll i (d_stmts d)\<rparr>"

definition Statement_CloseHandles :: "nat \<Rightarrow> ('q, 'e) database \<Rightarrow> ('q, 'e) database" where
  "Statement_CloseHandles i d =
     (case d_statement d i of
        Some s \<Rightarrow> if st_alive s then set_statement i (s\<lparr>st_alive := False\<rparr>) d else d
      | None \<Rightarrow> d)"

definition Statement_delete :: "nat \<Rightarrow> ('q, 'e) database \<Rightarrow> ('q, 'e) database" where
  "Statement_delete i d =
     (case d_statement d i of
        Some s \<Rightarrow> Statement_CloseHandles i (if st_alive s then RemoveStatement i d else d)
      | None \<Rightarrow> d)"

definition CacheColumnNames :: "v8_api \<Rightarrow> statement \<Rightarrow> statement" where
  "CacheColumnNames v8 s =
     s\<lparr>st_column_names := map (column_key v8 (st_handle s)) [0..<sqlite3_column_count (st_handle s)]\<rparr>"

definition TryRegisterNoriaView ::
  "('q, 'e) env \<Rightarrow> statement \<Rightarrow> ('q, 'e) database \<Rightarrow> statement \<times> ('q, 'e) database" where
  "TryRegisterNoriaView env s d =
     (if \<not> st_returns_data s then (s, d)
      else if st_noria_view_id s \<ge> 0 then (s, d)
      else case d_noria d of
             None \<Rightarrow> (s, d)
           | Some n \<Rightarrow>
               if \<not> IsEnabled n then (s, d)
               else case st_sql s of
                      None \<Rightarrow> (s, d)
                    | Some sql \<Rightarrow>
                        (case RegisterView (e_engine env) (e_conn env (d_handle d)) sql n of
                           (view_id, n) \<Rightarrow>
                             (if view_id \<ge> 0 then CacheColumnNames (e_v8 env) (s\<lparr>st_noria_view_id := view_id\<rparr>) else s,
                              d\<lparr>d_noria := Some n\<rparr>)))"

definition NotifyCdc :: "('q, 'e) env \<Rightarrow> ('q, 'e) database \<Rightarrow> ('q, 'e) database option" where
  "NotifyCdc env d =
     (case d_noria d of
        None \<Rightarrow> Some d
      | Some n \<Rightarrow>
          if \<not> HasAnyViews n then Some d
          else do {
            n \<leftarrow> NotifyChange (e_engine env) (e_conn env (d_handle d)) n;
            Some (d\<lparr>d_noria := Some n\<rparr>)
          })"

definition run_result :: "('q, 'e) env \<Rightarrow> bool \<Rightarrow> int \<Rightarrow> u64 \<Rightarrow> js_value" where
  "run_result env safe_ints changes rowid =
     Object_New [(string_from_utf8 (e_v8 env) (lit ''changes''), JsNumber (double_of_int changes)),
       (string_from_utf8 (e_v8 env) (lit ''lastInsertRowid''),
        if safe_ints then JsBigInt (sint rowid) else JsNumber (double_of_int (sint rowid)))]"

text \<open>Whether \<open>run()\<close> notifies the wrapper: rows changed by a statement of a known kind, or the end of a
  transaction.\<close>

definition cdc_needed :: "statement \<Rightarrow> int \<Rightarrow> bool \<Rightarrow> bool \<Rightarrow> bool" where
  "cdc_needed s changes autocommit_before autocommit_after \<longleftrightarrow>
     (changes > 0 \<and> st_table_id s \<noteq> -2 \<and> st_stmt_type s \<in> {STMT_INSERT, STMT_UPDATE, STMT_DELETE}) \<or>
     (\<not> autocommit_before \<and> autocommit_after)"

definition JS_run :: "('q, 'e) env \<Rightarrow> nat \<Rightarrow> js_value list \<Rightarrow> ('q, 'e) database \<Rightarrow> (outcome \<times> ('q, 'e) database) option" where
  "JS_run env i info d = do {
     s \<leftarrow> d_statement d i;
     case STATEMENT_START env [] DOES_MUTATE i info s d of
       (Some r, s, d) \<Rightarrow> Some (r, d)
     | (None, s, d) \<Rightarrow> do {
         let total_changes_before = e_total_changes env (d_handle d);
         let autocommit_before = autocommit (e_conn env (d_handle d));
         let (_, s, d) = do_step env i s d;
         let (rc, s, d) = do_reset env i s d;
         if rc = SQLITE_OK then do {
           let changes = (if e_total_changes env (d_handle d) = total_changes_before then 0 else e_changes env (d_handle d));
           let rowid = e_last_insert_rowid env (d_handle d);
           let autocommit_after = autocommit (e_conn env (d_handle d));
           d \<leftarrow> (if cdc_needed s changes autocommit_before autocommit_after then NotifyCdc env d else Some d);
           Some (STATEMENT_RETURN i (st_bound s) (run_result env (st_safe_ints s) changes rowid) d)
         }
         else Some (STATEMENT_THROW env i (st_bound s) d)
       }
   }"

text \<open>An answer from the engine: the value to return, or \<open>None\<close> if SQLite has to be asked.\<close>

definition TryNoriaGet ::
  "('q, 'e) env \<Rightarrow> js_value list \<Rightarrow> bool \<Rightarrow> statement \<Rightarrow> ('q, 'e) database \<Rightarrow> (js_value option \<times> ('q, 'e) database) option" where
  "TryNoriaGet env info consistent_read s d =
     (if st_noria_view_id s < 0 then Some (None, d)
      else if st_mode s \<noteq> FLAT then Some (None, d)
      else case d_noria d of
             None \<Rightarrow> Some (None, d)
           | Some n \<Rightarrow>
               if \<not> IsEnabled n then Some (None, d)
               else do {
                 n \<leftarrow> (if consistent_read then map_option snd (Flush (e_engine env) (e_conn env (d_handle d)) n) else Some n);
                 keys \<leftarrow> lookup_keys (e_v8 env) (sqlite3_bind_parameter_count (st_handle s)) info;
                 let (result, n) = LookupOrUpquery (e_engine env) (e_conn env (d_handle d)) n (st_noria_view_id s) keys;
                 let d = d\<lparr>d_noria := Some n\<rparr>;
                 if found result = 0 \<and> row_count result = 0 then Some (None, d)
                 else if row_count result = 0 then Some (Some JsUndefined, d)
                 else Some (Some (NoriaRowToJS (e_v8 env) (rows result) 0 (st_column_names s) (st_safe_ints s)), d)
               })"

definition TryNoriaAll ::
  "('q, 'e) env \<Rightarrow> js_value list \<Rightarrow> bool \<Rightarrow> statement \<Rightarrow> ('q, 'e) database \<Rightarrow> (js_value option \<times> ('q, 'e) database) option" where
  "TryNoriaAll env info consistent_read s d =
     (if st_noria_view_id s < 0 then Some (None, d)
      else if st_mode s \<noteq> FLAT then Some (None, d)
      else case d_noria d of
             None \<Rightarrow> Some (None, d)
           | Some n \<Rightarrow>
               if \<not> IsEnabled n then Some (None, d)
               else do {
                 n \<leftarrow> (if consistent_read then map_option snd (Flush (e_engine env) (e_conn env (d_handle d)) n) else Some n);
                 let keys = replicate (sqlite3_bind_parameter_count (st_handle s)) NORIA_NULL;
                 let (result, n) = LookupOrUpquery (e_engine env) (e_conn env (d_handle d)) n (st_noria_view_id s) keys;
                 let d = d\<lparr>d_noria := Some n\<rparr>;
                 if found result = 0 \<and> row_count result = 0 then Some (None, d)
                 else Some (Some (JsArray (map (\<lambda>i. Some (NoriaRowToJS (e_v8 env) (rows result) i (st_column_names s) (st_safe_ints s)))
                              [0..<nat (row_count result)])), d)
               })"

definition JS_get :: "('q, 'e) env \<Rightarrow> nat \<Rightarrow> js_value list \<Rightarrow> ('q, 'e) database \<Rightarrow> (outcome \<times> ('q, 'e) database) option" where
  "JS_get env i info d = do {
     s \<leftarrow> d_statement d i;
     case STATEMENT_START env [REQUIRE_STATEMENT_RETURNS_DATA s] DOES_NOT_MUTATE i info s d of
       (Some r, s, d) \<Rightarrow> Some (r, d)
     | (None, s, d) \<Rightarrow> do {
         (answer, d) \<leftarrow> TryNoriaGet env info False s d;
         case answer of
           Some v \<Rightarrow> Some (Returns v, (clear_unless_bound i (st_bound s) d)\<lparr>d_busy := False\<rparr>)
         | None \<Rightarrow>
             let (status, s, d) = do_step env i s d;
                 v = GetRowJS (e_v8 env) (st_handle s) (st_safe_ints s) (st_mode s);
                 (_, s, d) = do_reset env i s d
             in Some (if status = SQLITE_ROW then STATEMENT_RETURN i (st_bound s) v d
                      else if status = SQLITE_DONE then STATEMENT_RETURN i (st_bound s) JsUndefined d
                      else STATEMENT_THROW env i (st_bound s) d)
       }
   }"

text \<open>The loops of \<open>JS_all\<close>, with the row builder for flat rows; a statement may give rows for ever.\<close>

partial_function (option) all_rows ::
  "('q, 'e) env \<Rightarrow> nat \<Rightarrow> row_builder \<Rightarrow> js_value list \<Rightarrow> statement \<Rightarrow> ('q, 'e) database \<Rightarrow>
    (js_value list \<times> statement \<times> ('q, 'e) database) option" where
  "all_rows env i rb acc s d =
     (case do_step env i s d of
        (rc, s, d) \<Rightarrow>
          if rc \<noteq> SQLITE_ROW then Some (acc, s, d)
          else if st_mode s = FLAT then
            (case RowBuilder_GetRowJS (e_v8 env) (st_handle s) rb of
               (row, rb) \<Rightarrow> all_rows env i rb (acc @ [row]) s d)
          else all_rows env i rb (acc @ [GetRowJS (e_v8 env) (st_handle s) (st_safe_ints s) (st_mode s)]) s d)"

definition JS_all :: "('q, 'e) env \<Rightarrow> nat \<Rightarrow> js_value list \<Rightarrow> ('q, 'e) database \<Rightarrow> (outcome \<times> ('q, 'e) database) option" where
  "JS_all env i info d = do {
     s \<leftarrow> d_statement d i;
     case STATEMENT_START env [REQUIRE_STATEMENT_RETURNS_DATA s] DOES_NOT_MUTATE i info s d of
       (Some r, s, d) \<Rightarrow> Some (r, d)
     | (None, s, d) \<Rightarrow> do {
         (rows, s, d) \<leftarrow> all_rows env i (RowBuilder_new (st_safe_ints s)) [] s d;
         let (rc, s, d) = do_reset env i s d;
         if rc = SQLITE_OK \<and> length rows \<le> 0xffffffff
         then Some (STATEMENT_RETURN i (st_bound s) (JsArray (map Some rows)) d)
         else if rc = SQLITE_OK
         then Some (Throws (RangeError (lit ''Array overflow (too many rows returned)'')),
                snd (STATEMENT_THROW env i (st_bound s) (d\<lparr>d_was_js_error := True\<rparr>)))
         else Some (STATEMENT_THROW env i (st_bound s) d)
       }
   }"

definition JS_bind :: "('q, 'e) env \<Rightarrow> nat \<Rightarrow> js_value list \<Rightarrow> ('q, 'e) database \<Rightarrow> (outcome \<times> ('q, 'e) database) option" where
  "JS_bind env i info d = do {
     s \<leftarrow> d_statement d i;
     Some (case first_error [require (\<not> st_bound s) (TypeError (lit ''The bind() method can only be invoked once per statement object'')),
                REQUIRE_DATABASE_OPEN d, REQUIRE_DATABASE_NOT_BUSY d, REQUIRE_STATEMENT_NOT_LOCKED s] of
             Some e \<Rightarrow> (Throws e, d)
           | None \<Rightarrow>
               let b = STATEMENT_BIND (e_v8 env) info (st_handle s) (st_has_bind_map s) (st_bind_map s);
                   s = s\<lparr>st_handle := b_handle b, st_has_bind_map := b_has_bind_map b, st_bind_map := b_bind_map b\<rparr>
               in if b_success b then (ReturnsThis, set_statement i (s\<lparr>st_bound := True\<rparr>) d)
                  else (Throws (the (b_thrown b)), set_statement i s d))
   }"

text \<open>The common part of \<open>pluck()\<close>, \<open>expand()\<close> and \<open>raw()\<close>.\<close>

definition set_mode :: "js_error \<Rightarrow> row_mode \<Rightarrow> nat \<Rightarrow> js_value list \<Rightarrow> ('q, 'e) database \<Rightarrow> (outcome \<times> ('q, 'e) database) option" where
  "set_mode no_data target i info d = do {
     s \<leftarrow> d_statement d i;
     Some (case first_error ([require (st_returns_data s) no_data, REQUIRE_DATABASE_NOT_BUSY d, REQUIRE_STATEMENT_NOT_LOCKED s] @
                (if info \<noteq> [] then [require_argument info 0 IsBoolean ''Expected first argument to be a boolean''] else [])) of
             Some e \<Rightarrow> (Throws e, d)
           | None \<Rightarrow>
               let use = (info = [] \<or> bool_arg (info ! 0))
               in (ReturnsThis, set_statement i
                     (s\<lparr>st_mode := (if use then target else if st_mode s = target then FLAT else st_mode s)\<rparr>) d))
   }"

definition JS_pluck :: "nat \<Rightarrow> js_value list \<Rightarrow> ('q, 'e) database \<Rightarrow> (outcome \<times> ('q, 'e) database) option" where
  "JS_pluck = set_mode (TypeError (lit ''The pluck() method is only for statements that return data'')) PLUCK"

definition JS_expand :: "nat \<Rightarrow> js_value list \<Rightarrow> ('q, 'e) database \<Rightarrow> (outcome \<times> ('q, 'e) database) option" where
  "JS_expand = set_mode (TypeError (lit ''The expand() method is only for statements that return data'')) EXPAND"

definition JS_raw :: "nat \<Rightarrow> js_value list \<Rightarrow> ('q, 'e) database \<Rightarrow> (outcome \<times> ('q, 'e) database) option" where
  "JS_raw = set_mode (TypeError (lit ''The raw() method is only for statements that return data'')) RAW"

definition JS_safeIntegers :: "nat \<Rightarrow> js_value list \<Rightarrow> ('q, 'e) database \<Rightarrow> (outcome \<times> ('q, 'e) database) option" where
  "JS_safeIntegers i info d = do {
     s \<leftarrow> d_statement d i;
     Some (case first_error ([REQUIRE_DATABASE_NOT_BUSY d, REQUIRE_STATEMENT_NOT_LOCKED s] @
                (if info \<noteq> [] then [require_argument info 0 IsBoolean ''Expected first argument to be a boolean''] else [])) of
             Some e \<Rightarrow> (Throws e, d)
           | None \<Rightarrow> (ReturnsThis, set_statement i (s\<lparr>st_safe_ints := (info = [] \<or> bool_arg (info ! 0))\<rparr>) d))
   }"

definition column_object :: "('q, 'e) env \<Rightarrow> vdbe \<Rightarrow> nat \<Rightarrow> js_value" where
  "column_object env p i =
     Object_New (zip (map (\<lambda>k. string_from_utf8 (e_v8 env) (lit k)) [''name'', ''column'', ''table'', ''database'', ''type''])
       (map (\<lambda>z. case z of None \<Rightarrow> JsNull | Some z \<Rightarrow> JsString (string_from_utf8 (e_v8 env) z)) (e_column_info env p i)))"

definition JS_columns :: "('q, 'e) env \<Rightarrow> nat \<Rightarrow> ('q, 'e) database \<Rightarrow> (outcome \<times> ('q, 'e) database) option" where
  "JS_columns env i d = do {
     s \<leftarrow> d_statement d i;
     Some (case first_error [require (st_returns_data s) (TypeError (lit ''The columns() method is only for statements that return data'')),
                REQUIRE_DATABASE_OPEN d, REQUIRE_DATABASE_NOT_BUSY d] of
             Some e \<Rightarrow> (Throws e, d)
           | None \<Rightarrow> (Returns (JsArray (map (\<lambda>j. Some (column_object env (st_handle s) j))
                               [0..<sqlite3_column_count (st_handle s)])), d))
   }"

definition JS_busy :: "statement \<Rightarrow> bool" where
  "JS_busy s \<longleftrightarrow> st_alive s \<and> st_locked s"

section \<open>Iterators\<close>

definition StatementIterator_new :: "('q, 'e) database \<Rightarrow> nat \<Rightarrow> statement \<Rightarrow> bool \<Rightarrow> statement_iterator" where
  "StatementIterator_new d i s bound =
     \<lparr>si_stmt = i, si_bound = bound, si_safe_ints = st_safe_ints s, si_mode = st_mode s, si_alive = True,
      si_logged = (\<not> d_has_logger d)\<rparr>"

definition JS_iterate :: "('q, 'e) env \<Rightarrow> nat \<Rightarrow> js_value list \<Rightarrow> ('q, 'e) database \<Rightarrow> (outcome \<times> ('q, 'e) database) option" where
  "JS_iterate env i info d = do {
     s \<leftarrow> d_statement d i;
     Some (case STATEMENT_START_LOGIC env [REQUIRE_STATEMENT_RETURNS_DATA s] DOES_ADD_ITERATOR i info s d of
             (Some r, s, d) \<Rightarrow> (r, d)
           | (None, s, d) \<Rightarrow>
               (ReturnsNew (d_next_iterator d),
                (set_statement i (s\<lparr>st_locked := True\<rparr>) d)\<lparr>
                  d_iterators := d_iterators d + 1,
                  d_iterator := (d_iterator d)(d_next_iterator d \<mapsto> StatementIterator_new d i s (st_bound s)),
                  d_next_iterator := d_next_iterator d + 1\<rparr>))
   }"

definition NewRecord :: "('q, 'e) env \<Rightarrow> js_value \<Rightarrow> bool \<Rightarrow> js_value" where
  "NewRecord env v done =
     Object_New [(string_from_utf8 (e_v8 env) (lit ''value''), v),
       (string_from_utf8 (e_v8 env) (lit ''done''), JsBoolean done)]"

definition DoneRecord :: "('q, 'e) env \<Rightarrow> js_value" where
  "DoneRecord env = NewRecord env JsUndefined True"

definition Cleanup :: "('q, 'e) env \<Rightarrow> nat \<Rightarrow> statement_iterator \<Rightarrow> statement \<Rightarrow> ('q, 'e) database \<Rightarrow> ('q, 'e) database" where
  "Cleanup env j it s d =
     (let d = d\<lparr>d_iterator := (d_iterator d)(j \<mapsto> it\<lparr>si_alive := False\<rparr>), d_iterators := d_iterators d - 1\<rparr>
      in snd (snd (do_reset env (si_stmt it) (s\<lparr>st_locked := False\<rparr>) d)))"

definition Return :: "('q, 'e) env \<Rightarrow> nat \<Rightarrow> statement_iterator \<Rightarrow> statement \<Rightarrow> ('q, 'e) database \<Rightarrow> outcome \<times> ('q, 'e) database" where
  "Return env j it s d = STATEMENT_RETURN_LOGIC (si_stmt it) (si_bound it) (DoneRecord env) (Cleanup env j it s d)"

definition Throw :: "('q, 'e) env \<Rightarrow> nat \<Rightarrow> statement_iterator \<Rightarrow> statement \<Rightarrow> ('q, 'e) database \<Rightarrow> outcome \<times> ('q, 'e) database" where
  "Throw env j it s d = STATEMENT_THROW_LOGIC env (si_stmt it) (si_bound it) (Cleanup env j it s d)"

definition Next :: "('q, 'e) env \<Rightarrow> nat \<Rightarrow> statement_iterator \<Rightarrow> statement \<Rightarrow> ('q, 'e) database \<Rightarrow> outcome \<times> ('q, 'e) database" where
  "Next env j it s d =
     (let d = d\<lparr>d_busy := True\<rparr>;
          (thrown, it, d) =
            (if si_logged it then (False, it, d)
             else let it = it\<lparr>si_logged := True\<rparr>;
                      (t, d) = Log env (st_handle s) (d\<lparr>d_iterator := (d_iterator d)(j \<mapsto> it)\<rparr>)
                  in (t, it, d))
      in if thrown then Throw env j it s (d\<lparr>d_busy := False\<rparr>)
         else let (status, s, d) = do_step env (si_stmt it) s d;
                  d = d\<lparr>d_busy := False\<rparr>
              in if status = SQLITE_ROW then
                   (Returns (NewRecord env (GetRowJS (e_v8 env) (st_handle s) (si_safe_ints it) (si_mode it)) False), d)
                 else if status = SQLITE_DONE then Return env j it s d
                 else Throw env j it s d)"

definition JS_next :: "('q, 'e) env \<Rightarrow> nat \<Rightarrow> ('q, 'e) database \<Rightarrow> (outcome \<times> ('q, 'e) database) option" where
  "JS_next env j d = do {
     it \<leftarrow> d_iterator d j;
     case REQUIRE_DATABASE_NOT_BUSY d of
       Some e \<Rightarrow> Some (Throws e, d)
     | None \<Rightarrow>
         if si_alive it then do { s \<leftarrow> d_statement d (si_stmt it); Some (Next env j it s d) }
         else Some (Returns (DoneRecord env), d)
   }"

definition JS_return :: "('q, 'e) env \<Rightarrow> nat \<Rightarrow> ('q, 'e) database \<Rightarrow> (outcome \<times> ('q, 'e) database) option" where
  "JS_return env j d = do {
     it \<leftarrow> d_iterator d j;
     case REQUIRE_DATABASE_NOT_BUSY d of
       Some e \<Rightarrow> Some (Throws e, d)
     | None \<Rightarrow>
         if si_alive it then do { s \<leftarrow> d_statement d (si_stmt it); Some (Return env j it s d) }
         else Some (Returns (DoneRecord env), d)
   }"

section \<open>The database\<close>

definition Database_new :: "('q, 'e) env \<Rightarrow> 'q \<Rightarrow> js_value \<Rightarrow> ('q, 'e) database" where
  "Database_new env q logger =
     \<lparr>d_handle = q, d_open = True, d_busy = False, d_safe_ints = False, d_unsafe_mode = False,
      d_was_js_error = False, d_has_logger = IsFunction logger, d_iterators = 0, d_stmts = [], d_backups = [],
      d_noria = Some (Noria_new (e_engine env) True), d_registered = True, d_next_id = 0, d_next_iterator = 0,
      d_statement = (\<lambda>_. None), d_iterator = (\<lambda>_. None), d_backup = (\<lambda>_. None)\<rparr>"

definition Backup_CloseHandles :: "nat \<Rightarrow> ('q, 'e) database \<Rightarrow> ('q, 'e) database" where
  "Backup_CloseHandles i d =
     (case d_backup d i of
        Some b \<Rightarrow> if bk_alive b then d\<lparr>d_backup := (d_backup d)(i \<mapsto> b\<lparr>bk_alive := False\<rparr>)\<rparr> else d
      | None \<Rightarrow> d)"

definition CloseHandles :: "('q, 'e) database \<Rightarrow> ('q, 'e) database" where
  "CloseHandles d =
     (if d_open d then
        (fold Backup_CloseHandles (d_backups d) (fold Statement_CloseHandles (d_stmts d) (d\<lparr>d_open := False\<rparr>)))
          \<lparr>d_stmts := [], d_backups := [], d_noria := None\<rparr>
      else d)"

definition Database_delete :: "('q, 'e) database \<Rightarrow> ('q, 'e) database" where
  "Database_delete d = (CloseHandles (if d_open d then d\<lparr>d_registered := False\<rparr> else d))\<lparr>d_noria := None\<rparr>"

definition prepare_checks :: "js_value list \<Rightarrow> js_error option list" where
  "prepare_checks info =
     [require_argument info 0 IsString ''Expected first argument to be a string'',
      require_argument info 1 IsObject ''Expected second argument to be an object'',
      require_argument info 2 IsBoolean ''Expected third argument to be a boolean'']"

text \<open>\<open>Statement::JS_new\<close> with the arguments of \<open>prepare\<close>.\<close>

definition Statement_JS_new :: "('q, 'e) env \<Rightarrow> js_string \<Rightarrow> bool \<Rightarrow> ('q, 'e) database \<Rightarrow> outcome \<times> ('q, 'e) database" where
  "Statement_JS_new env source pragmaMode d =
     (case first_error ([REQUIRE_DATABASE_OPEN d, REQUIRE_DATABASE_NOT_BUSY d] @
                        (if pragmaMode then [REQUIRE_DATABASE_NO_ITERATORS_UNLESS_UNSAFE d] else [])) of
        Some e \<Rightarrow> (Throws e, d)
      | None \<Rightarrow>
          (case e_prepare env (d_handle d) (utf8_value (e_v8 env) source) (\<not> pragmaMode) of
             (rc, handle, tail, q, js) \<Rightarrow>
               let d = d\<lparr>d_handle := q, d_was_js_error := d_was_js_error d \<or> js\<rparr>
               in if rc \<noteq> SQLITE_OK then ThrowDatabaseError env d
                  else case handle of
                         None \<Rightarrow> (Throws (RangeError (lit ''The supplied SQL string contains no statements'')), d)
                       | Some (p, sql) \<Rightarrow>
                           if \<not> tail_scan tail then
                             (Throws (RangeError (lit ''The supplied SQL string contains more than one statement'')),
                              d\<lparr>d_handle := snd (e_finalize env (d_handle d) p)\<rparr>)
                           else
                             let returns_data = (sqlite3_column_count p \<ge> 1 \<or> pragmaMode);
                                 i = d_next_id d;
                                 s = Statement_new d p sql returns_data;
                                 d = AddStatement i (d\<lparr>d_next_id := d_next_id d + 1\<rparr>);
                                 (s, d) = (if returns_data \<and> \<not> pragmaMode then TryRegisterNoriaView env s d else (s, d));
                                 s = (if \<not> returns_data
                                      then case DetectStatementType (st_sql s) of
                                             (ty, name) \<Rightarrow> s\<lparr>st_stmt_type := ty, st_table_name := name\<rparr>
                                      else s)
                             in (ReturnsNew i, set_statement i s d)))"

definition JS_prepare :: "('q, 'e) env \<Rightarrow> js_value list \<Rightarrow> ('q, 'e) database \<Rightarrow> (outcome \<times> ('q, 'e) database) option" where
  "JS_prepare env info d =
     Some (case first_error (prepare_checks info) of
             Some e \<Rightarrow> (Throws e, d)
           | None \<Rightarrow> Statement_JS_new env (string_arg (info ! 0)) (bool_arg (info ! 2)) d)"

text \<open>\<open>exec()\<close>: stepping through the rows of a statement, and the loop over the statements.\<close>

definition exec_step :: "('q, 'e) env \<Rightarrow> vdbe \<Rightarrow> ('q, 'e) database \<Rightarrow> rc \<times> vdbe \<times> ('q, 'e) database" where
  "exec_step env p d =
     (case e_step env (d_handle d) p of
        (rc, p, q, js, hooks) \<Rightarrow>
          (rc, p, d\<lparr>d_handle := q, d_was_js_error := d_was_js_error d \<or> js, d_noria := map_option hooks (d_noria d)\<rparr>))"

partial_function (option) exec_rows :: "('q, 'e) env \<Rightarrow> vdbe \<Rightarrow> ('q, 'e) database \<Rightarrow> (vdbe \<times> ('q, 'e) database) option" where
  "exec_rows env p d =
     (case exec_step env p d of
        (rc, p, d) \<Rightarrow> if rc = SQLITE_ROW then exec_rows env p d else Some (p, d))"

definition exec_prepare :: "('q, 'e) env \<Rightarrow> bytes \<Rightarrow> ('q, 'e) database \<Rightarrow> rc \<times> vdbe option \<times> bytes \<times> ('q, 'e) database" where
  "exec_prepare env sql d =
     (case e_prepare env (d_handle d) (dropWhile IS_SKIPPED sql) False of
        (rc, handle, tail, q, js) \<Rightarrow>
          (rc, map_option fst handle, tail, d\<lparr>d_handle := q, d_was_js_error := d_was_js_error d \<or> js\<rparr>))"

definition exec_finalize :: "('q, 'e) env \<Rightarrow> vdbe \<Rightarrow> ('q, 'e) database \<Rightarrow> rc \<times> ('q, 'e) database" where
  "exec_finalize env p d = (case e_finalize env (d_handle d) p of (rc, q) \<Rightarrow> (rc, d\<lparr>d_handle := q\<rparr>))"

partial_function (option) exec_loop :: "('q, 'e) env \<Rightarrow> bytes \<Rightarrow> ('q, 'e) database \<Rightarrow> (rc \<times> ('q, 'e) database) option" where
  "exec_loop env sql d =
     (case exec_prepare env sql d of
        (status, handle, tail, d) \<Rightarrow>
          (case handle of
             None \<Rightarrow> Some (status, d)
           | Some p \<Rightarrow>
               (case Log env p d of
                  (thrown, d) \<Rightarrow>
                    if thrown then Some (SQLITE_CODE (-1), snd (exec_finalize env p d))
                    else do {
                      (p, d) \<leftarrow> exec_rows env p d;
                      case exec_finalize env p d of
                        (status, d) \<Rightarrow> if status \<noteq> SQLITE_OK then Some (status, d) else exec_loop env tail d
                    })))"

definition JS_exec :: "('q, 'e) env \<Rightarrow> js_value list \<Rightarrow> ('q, 'e) database \<Rightarrow> (outcome \<times> ('q, 'e) database) option" where
  "JS_exec env info d =
     (case first_error [require_argument info 0 IsString ''Expected first argument to be a string'', REQUIRE_DATABASE_OPEN d,
             REQUIRE_DATABASE_NOT_BUSY d, REQUIRE_DATABASE_NO_ITERATORS_UNLESS_UNSAFE d] of
        Some e \<Rightarrow> Some (Throws e, d)
      | None \<Rightarrow> do {
          (status, d) \<leftarrow> exec_loop env (utf8_value (e_v8 env) (string_arg (info ! 0))) (d\<lparr>d_busy := True\<rparr>);
          let d = d\<lparr>d_busy := False\<rparr>;
          if status = SQLITE_OK then
            (case d_noria d of
               None \<Rightarrow> Some (Returns JsUndefined, d)
             | Some n \<Rightarrow> do {
                 n \<leftarrow> NotifyChange (e_engine env) (e_conn env (d_handle d)) n;
                 Some (Returns JsUndefined, d\<lparr>d_noria := Some n\<rparr>)
               })
          else Some (ThrowDatabaseError env d)
        })"

definition JS_close :: "('q, 'e) database \<Rightarrow> (outcome \<times> ('q, 'e) database) option" where
  "JS_close d =
     Some (if d_open d then
             case first_error [REQUIRE_DATABASE_NOT_BUSY d, REQUIRE_DATABASE_NO_ITERATORS d] of
               Some e \<Rightarrow> (Throws e, d)
             | None \<Rightarrow> (Returns JsUndefined, CloseHandles (d\<lparr>d_registered := False\<rparr>))
           else (Returns JsUndefined, d))"

definition flag_argument :: "js_value list \<Rightarrow> js_error + bool" where
  "flag_argument info =
     (if info = [] then Inr True
      else case require_argument info 0 IsBoolean ''Expected first argument to be a boolean'' of
             Some e \<Rightarrow> Inl e
           | None \<Rightarrow> Inr (bool_arg (info ! 0)))"

definition JS_defaultSafeIntegers :: "js_value list \<Rightarrow> ('q, 'e) database \<Rightarrow> (outcome \<times> ('q, 'e) database) option" where
  "JS_defaultSafeIntegers info d =
     Some (case flag_argument info of
             Inl e \<Rightarrow> (Throws e, d) | Inr b \<Rightarrow> (Returns JsUndefined, d\<lparr>d_safe_ints := b\<rparr>))"

text \<open>There is no check that the connection is open; a closed one must not be used (\<open>None\<close>).\<close>

definition JS_unsafeMode :: "('q, 'e) env \<Rightarrow> js_value list \<Rightarrow> ('q, 'e) database \<Rightarrow> (outcome \<times> ('q, 'e) database) option" where
  "JS_unsafeMode env info d =
     (case flag_argument info of
        Inl e \<Rightarrow> Some (Throws e, d)
      | Inr b \<Rightarrow>
          if d_open d
          then Some (Returns JsUndefined, d\<lparr>d_unsafe_mode := b, d_handle := e_defensive env (d_handle d) (\<not> b)\<rparr>)
          else None)"

definition JS_open :: "('q, 'e) database \<Rightarrow> bool" where
  "JS_open d = d_open d"

definition JS_inTransaction :: "('q, 'e) env \<Rightarrow> ('q, 'e) database \<Rightarrow> bool" where
  "JS_inTransaction env d \<longleftrightarrow> d_open d \<and> \<not> autocommit (e_conn env (d_handle d))"

definition database_checks :: "('q, 'e) database \<Rightarrow> js_error option list" where
  "database_checks d = [REQUIRE_DATABASE_OPEN d, REQUIRE_DATABASE_NOT_BUSY d, REQUIRE_DATABASE_NO_ITERATORS d]"

definition JS_serialize :: "('q, 'e) env \<Rightarrow> js_value list \<Rightarrow> ('q, 'e) database \<Rightarrow> (outcome \<times> ('q, 'e) database) option" where
  "JS_serialize env info d =
     Some (case first_error (require_argument info 0 IsString ''Expected first argument to be a string'' # database_checks d) of
             Some e \<Rightarrow> (Throws e, d)
           | None \<Rightarrow>
               (case e_serialize env (d_handle d) (utf8_value (e_v8 env) (string_arg (info ! 0))) of
                  (data, len) \<Rightarrow>
                    if data = None \<and> len \<noteq> 0 then (Throws (PlainError (lit ''Out of memory'')), d)
                    else (Returns (JsBuffer (case data of Some z \<Rightarrow> z | None \<Rightarrow> [])), d)))"

text \<open>Registering a function, an aggregate or a virtual table.  Integers are handled as the argument
  says, or as the database does if it is 2 or more.\<close>

definition function_mask :: "bool \<Rightarrow> bool \<Rightarrow> u32" where
  "function_mask deterministic direct_only =
     1 OR (if deterministic then 0x800 else 0) OR (if direct_only then 0x80000 else 0)"

definition resolve_safe_ints :: "int \<Rightarrow> ('q, 'e) database \<Rightarrow> bool" where
  "resolve_safe_ints safe_ints d = (if safe_ints < 2 then safe_ints \<noteq> 0 else d_safe_ints d)"

definition register :: "('q, 'e) env \<Rightarrow> registration \<Rightarrow> ('q, 'e) database \<Rightarrow> outcome \<times> ('q, 'e) database" where
  "register env r d =
     (case e_register env (d_handle d) r of
        (rc, q, js) \<Rightarrow>
          let d = d\<lparr>d_handle := q, d_was_js_error := d_was_js_error d \<or> js\<rparr>
          in if rc \<noteq> SQLITE_OK then ThrowDatabaseError env d else (Returns JsUndefined, d))"

definition JS_function :: "('q, 'e) env \<Rightarrow> js_value list \<Rightarrow> ('q, 'e) database \<Rightarrow> (outcome \<times> ('q, 'e) database) option" where
  "JS_function env info d =
     Some (case first_error ([require_argument info 0 IsFunction ''Expected first argument to be a function'',
                require_argument info 1 IsString ''Expected second argument to be a string'',
                require_argument info 2 IsInt32 ''Expected third argument to be a 32-bit signed integer'',
                require_argument info 3 IsInt32 ''Expected fourth argument to be a 32-bit signed integer'',
                require_argument info 4 IsBoolean ''Expected fifth argument to be a boolean'',
                require_argument info 5 IsBoolean ''Expected sixth argument to be a boolean''] @ database_checks d) of
             Some e \<Rightarrow> (Throws e, d)
           | None \<Rightarrow>
               register env (RegisterFunction (utf8_value (e_v8 env) (string_arg (info ! 1))) (int32_arg (info ! 2))
                 (function_mask (bool_arg (info ! 4)) (bool_arg (info ! 5))) (resolve_safe_ints (int32_arg (info ! 3)) d)) d)"

definition JS_aggregate :: "('q, 'e) env \<Rightarrow> js_value list \<Rightarrow> ('q, 'e) database \<Rightarrow> (outcome \<times> ('q, 'e) database) option" where
  "JS_aggregate env info d =
     Some (case first_error ([require_argument info 0 (\<lambda>_. True) ''Expected a first argument'',
                require_argument info 1 IsFunction ''Expected second argument to be a function'',
                require_argument info 2 (\<lambda>_. True) ''Expected a third argument'',
                require_argument info 3 (\<lambda>_. True) ''Expected a fourth argument'',
                require_argument info 4 IsString ''Expected fifth argument to be a string'',
                require_argument info 5 IsInt32 ''Expected sixth argument to be a 32-bit signed integer'',
                require_argument info 6 IsInt32 ''Expected seventh argument to be a 32-bit signed integer'',
                require_argument info 7 IsBoolean ''Expected eighth argument to be a boolean'',
                require_argument info 8 IsBoolean ''Expected ninth argument to be a boolean''] @ database_checks d) of
             Some e \<Rightarrow> (Throws e, d)
           | None \<Rightarrow>
               register env (RegisterAggregate (utf8_value (e_v8 env) (string_arg (info ! 4))) (int32_arg (info ! 5))
                 (function_mask (bool_arg (info ! 7)) (bool_arg (info ! 8))) (resolve_safe_ints (int32_arg (info ! 6)) d)
                 (IsFunction (info ! 2))) d)"

definition JS_table :: "('q, 'e) env \<Rightarrow> js_value list \<Rightarrow> ('q, 'e) database \<Rightarrow> (outcome \<times> ('q, 'e) database) option" where
  "JS_table env info d =
     Some (case first_error ([require_argument info 0 IsFunction ''Expected first argument to be a function'',
                require_argument info 1 IsString ''Expected second argument to be a string'',
                require_argument info 2 IsBoolean ''Expected third argument to be a boolean''] @ database_checks d) of
             Some e \<Rightarrow> (Throws e, d)
           | None \<Rightarrow>
               (case register env (RegisterTable (utf8_value (e_v8 env) (string_arg (info ! 1))) (bool_arg (info ! 2)))
                       (d\<lparr>d_busy := True\<rparr>) of
                  (r, d) \<Rightarrow> (r, d\<lparr>d_busy := False\<rparr>)))"

definition JS_loadExtension :: "('q, 'e) env \<Rightarrow> js_value list \<Rightarrow> ('q, 'e) database \<Rightarrow> (outcome \<times> ('q, 'e) database) option" where
  "JS_loadExtension env info d =
     Some (case first_error ([require_argument info 0 IsString ''Expected first argument to be a string''] @
                (if length info > 1 then [require_argument info 1 IsString ''Expected second argument to be a string''] else []) @
                database_checks d) of
             Some e \<Rightarrow> (Throws e, d)
           | None \<Rightarrow>
               (case e_load_extension env (d_handle d) (utf8_value (e_v8 env) (string_arg (info ! 0)))
                       (if length info > 1 then Some (utf8_value (e_v8 env) (string_arg (info ! 1))) else None) of
                  (rc, error, q) \<Rightarrow>
                    (if rc \<noteq> SQLITE_OK then Throws (SqliteError error rc) else Returns JsUndefined, d\<lparr>d_handle := q\<rparr>)))"

definition stats_object :: "('q, 'e) env \<Rightarrow> cache_stats \<Rightarrow> js_value" where
  "stats_object env st =
     Object_New [(string_from_utf8 (e_v8 env) (lit ''cacheHits''), JsNumber (double_of_int (uint (cache_hits st)))),
       (string_from_utf8 (e_v8 env) (lit ''cacheMisses''), JsNumber (double_of_int (uint (cache_misses st)))),
       (string_from_utf8 (e_v8 env) (lit ''totalRows''), JsNumber (double_of_int (uint (total_rows st)))),
       (string_from_utf8 (e_v8 env) (lit ''viewCount''), JsNumber (double_of_int (view_count st))),
       (string_from_utf8 (e_v8 env) (lit ''nodeCount''), JsNumber (double_of_int (node_count st)))]"

definition JS_cacheStats :: "('q, 'e) env \<Rightarrow> ('q, 'e) database \<Rightarrow> (outcome \<times> ('q, 'e) database) option" where
  "JS_cacheStats env d =
     (case REQUIRE_DATABASE_OPEN d of
        Some e \<Rightarrow> Some (Throws e, d)
      | None \<Rightarrow> do { n \<leftarrow> d_noria d; Some (Returns (stats_object env (GetStats (e_engine env) n)), d) })"

definition JS_flushCache :: "('q, 'e) env \<Rightarrow> ('q, 'e) database \<Rightarrow> (outcome \<times> ('q, 'e) database) option" where
  "JS_flushCache env d =
     (case first_error [REQUIRE_DATABASE_OPEN d, REQUIRE_DATABASE_NOT_BUSY d] of
        Some e \<Rightarrow> Some (Throws e, d)
      | None \<Rightarrow> do {
          n \<leftarrow> d_noria d;
          (_, n) \<leftarrow> Flush (e_engine env) (e_conn env (d_handle d)) n;
          Some (Returns JsUndefined, d\<lparr>d_noria := Some n\<rparr>)
        })"

section \<open>Backups\<close>

definition AddBackup :: "nat \<Rightarrow> ('q, 'e) database \<Rightarrow> ('q, 'e) database" where
  "AddBackup i d = d\<lparr>d_backups := d_backups d @ [i]\<rparr>"

definition RemoveBackup :: "nat \<Rightarrow> ('q, 'e) database \<Rightarrow> ('q, 'e) database" where
  "RemoveBackup i d = d\<lparr>d_backups := removeAll i (d_backups d)\<rparr>"

text \<open>\<open>backup()\<close> with \<open>Backup::JS_new\<close>; opening the file and \<open>sqlite3_backup_init\<close> are one step.\<close>

definition JS_backup :: "('q, 'e) env \<Rightarrow> js_value list \<Rightarrow> ('q, 'e) database \<Rightarrow> (outcome \<times> ('q, 'e) database) option" where
  "JS_backup env info d =
     Some (case first_error [require_argument info 0 IsObject ''Expected first argument to be an object'',
                require_argument info 1 IsString ''Expected second argument to be a string'',
                require_argument info 2 IsString ''Expected third argument to be a string'',
                require_argument info 3 IsBoolean ''Expected fourth argument to be a boolean'',
                REQUIRE_DATABASE_OPEN d, REQUIRE_DATABASE_NOT_BUSY d] of
             Some e \<Rightarrow> (Throws e, d)
           | None \<Rightarrow>
               (case e_backup_open env (d_handle d) (utf8_value (e_v8 env) (string_arg (info ! 2)))
                       (utf8_value (e_v8 env) (string_arg (info ! 1))) of
                  (Some e, q) \<Rightarrow> (Throws e, d\<lparr>d_handle := q\<rparr>)
                | (None, q) \<Rightarrow>
                    (ReturnsNew (d_next_id d),
                     AddBackup (d_next_id d) (d\<lparr>d_handle := q, d_next_id := d_next_id d + 1,
                       d_backup := (d_backup d)(d_next_id d \<mapsto> \<lparr>bk_alive = True, bk_unlink = bool_arg (info ! 3)\<rparr>)\<rparr>))))"

text \<open>
  A busy connection or a closed backup is excluded by an assertion only, which a release build does not check.  The two
  methods are not reachable from a function called by a query: lib/methods/backup.js keeps the object to itself
  and calls them from \<open>setImmediate\<close>.  The model stops there (\<open>None\<close>), and says nothing of what a
  release build would do with a violated assertion.
\<close>

definition JS_transfer :: "('q, 'e) env \<Rightarrow> nat \<Rightarrow> js_value list \<Rightarrow> ('q, 'e) database \<Rightarrow> (outcome \<times> ('q, 'e) database) option" where
  "JS_transfer env i info d = do {
     b \<leftarrow> d_backup d i;
     case first_error [require_argument info 0 IsInt32 ''Expected first argument to be a 32-bit signed integer'', REQUIRE_DATABASE_OPEN d] of
       Some e \<Rightarrow> Some (Throws e, d)
     | None \<Rightarrow>
         if d_busy d \<or> \<not> bk_alive b then None
         else case e_backup_step env (d_handle d) i (int32_arg (info ! 0)) of
                (status, total_pages, remaining_pages, q) \<Rightarrow>
                  let d = d\<lparr>d_handle := q\<rparr>
                  in if status \<in> {SQLITE_OK, SQLITE_DONE, SQLITE_BUSY} then
                       Some (Returns (Object_New
                               [(string_from_utf8 (e_v8 env) (lit ''totalPages''), JsNumber (double_of_int total_pages)),
                                (string_from_utf8 (e_v8 env) (lit ''remainingPages''), JsNumber (double_of_int remaining_pages))]),
                             if status = SQLITE_DONE then d\<lparr>d_backup := (d_backup d)(i \<mapsto> b\<lparr>bk_unlink := False\<rparr>)\<rparr> else d)
                     else Some (Throws (SqliteError (e_errstr env status) status), d)
   }"

definition Backup_JS_close :: "nat \<Rightarrow> ('q, 'e) database \<Rightarrow> (outcome \<times> ('q, 'e) database) option" where
  "Backup_JS_close i d = do {
     b \<leftarrow> d_backup d i;
     if d_busy d then None
     else Some (ReturnsThis, Backup_CloseHandles i (if bk_alive b then RemoveBackup i d else d))
   }"

definition Backup_delete :: "nat \<Rightarrow> ('q, 'e) database \<Rightarrow> ('q, 'e) database" where
  "Backup_delete i d =
     (case d_backup d i of
        Some b \<Rightarrow> Backup_CloseHandles i (if bk_alive b then RemoveBackup i d else d)
      | None \<Rightarrow> d)"

section \<open>All methods\<close>

datatype api_call =
    CallRun nat "js_value list" | CallGet nat "js_value list" | CallAll nat "js_value list"
  | CallIterate nat "js_value list" | CallNext nat | CallReturn nat | CallBind nat "js_value list"
  | CallPluck nat "js_value list" | CallExpand nat "js_value list" | CallRaw nat "js_value list"
  | CallSafeIntegers nat "js_value list" | CallColumns nat
  | CallPrepare "js_value list" | CallExec "js_value list" | CallClose
  | CallDefaultSafeIntegers "js_value list" | CallUnsafeMode "js_value list" | CallSerialize "js_value list"
  | CallFunction "js_value list" | CallAggregate "js_value list" | CallTable "js_value list"
  | CallLoadExtension "js_value list" | CallCacheStats | CallFlushCache
  | CallBackup "js_value list" | CallTransfer nat "js_value list" | CallBackupClose nat

fun invoke :: "('q, 'e) env \<Rightarrow> api_call \<Rightarrow> ('q, 'e) database \<Rightarrow> (outcome \<times> ('q, 'e) database) option" where
  "invoke env (CallRun i info) d = JS_run env i info d"
| "invoke env (CallGet i info) d = JS_get env i info d"
| "invoke env (CallAll i info) d = JS_all env i info d"
| "invoke env (CallIterate i info) d = JS_iterate env i info d"
| "invoke env (CallNext j) d = JS_next env j d"
| "invoke env (CallReturn j) d = JS_return env j d"
| "invoke env (CallBind i info) d = JS_bind env i info d"
| "invoke env (CallPluck i info) d = JS_pluck i info d"
| "invoke env (CallExpand i info) d = JS_expand i info d"
| "invoke env (CallRaw i info) d = JS_raw i info d"
| "invoke env (CallSafeIntegers i info) d = JS_safeIntegers i info d"
| "invoke env (CallColumns i) d = JS_columns env i d"
| "invoke env (CallPrepare info) d = JS_prepare env info d"
| "invoke env (CallExec info) d = JS_exec env info d"
| "invoke env CallClose d = JS_close d"
| "invoke env (CallDefaultSafeIntegers info) d = JS_defaultSafeIntegers info d"
| "invoke env (CallUnsafeMode info) d = JS_unsafeMode env info d"
| "invoke env (CallSerialize info) d = JS_serialize env info d"
| "invoke env (CallFunction info) d = JS_function env info d"
| "invoke env (CallAggregate info) d = JS_aggregate env info d"
| "invoke env (CallTable info) d = JS_table env info d"
| "invoke env (CallLoadExtension info) d = JS_loadExtension env info d"
| "invoke env CallCacheStats d = JS_cacheStats env d"
| "invoke env CallFlushCache d = JS_flushCache env d"
| "invoke env (CallBackup info) d = JS_backup env info d"
| "invoke env (CallTransfer i info) d = JS_transfer env i info d"
| "invoke env (CallBackupClose i) d = Backup_JS_close i d"

end
