(* ===== verification/ConnectionFrame.thy ===== *)
theory ConnectionFrame
  imports Connection
begin

text \<open>
  What the guards of the methods achieve while a query runs, the invariant of a connection with
  its objects, and the methods that leave the objects as they are.
\<close>

section \<open>Guards\<close>

lemma first_error_None: "first_error es = None \<longleftrightarrow> set es \<subseteq> {None}"
  by (induction es rule: first_error.induct) auto

lemma first_error_append:
  "first_error (as @ bs) = (case first_error as of Some e \<Rightarrow> Some e | None \<Rightarrow> first_error bs)"
  by (induction as rule: first_error.induct) auto

lemma require_None [simp]: "require ok e = None \<longleftrightarrow> ok"
  by (simp add: require_def)

lemma require_simps [simp]: "require True e = None" "require False e = Some e"
  by (simp_all add: require_def)

lemma guard_None [simp]:
  "REQUIRE_DATABASE_OPEN d = None \<longleftrightarrow> d_open d"
  "REQUIRE_DATABASE_NOT_BUSY d = None \<longleftrightarrow> \<not> d_busy d"
  "REQUIRE_DATABASE_NO_ITERATORS d = None \<longleftrightarrow> d_iterators d = 0"
  "REQUIRE_STATEMENT_NOT_LOCKED s = None \<longleftrightarrow> \<not> st_locked s"
  "REQUIRE_STATEMENT_RETURNS_DATA s = None \<longleftrightarrow> st_returns_data s"
  by (simp_all add: REQUIRE_DATABASE_OPEN_def REQUIRE_DATABASE_NOT_BUSY_def REQUIRE_DATABASE_NO_ITERATORS_def
      REQUIRE_STATEMENT_NOT_LOCKED_def REQUIRE_STATEMENT_RETURNS_DATA_def)

lemma START_LOGIC_guarded:
  assumes "d_busy d \<or> \<not> d_open d \<or> st_locked s" "\<forall>s d. REQUIRE_STATEMENT_NOT_LOCKED s \<in> set (mutate s d)"
  shows "\<exists>e. STATEMENT_START_LOGIC env rc mutate i info s d = (Some (Throws e), s, d)"
proof -
  have m: "REQUIRE_STATEMENT_NOT_LOCKED s \<in> set (mutate s d)" using assms(2) by blast
  have "first_error (rc @ [REQUIRE_DATABASE_OPEN d, REQUIRE_DATABASE_NOT_BUSY d] @ mutate s d) \<noteq> None"
  proof
    assume "first_error (rc @ [REQUIRE_DATABASE_OPEN d, REQUIRE_DATABASE_NOT_BUSY d] @ mutate s d) = None"
    then have "d_open d" "\<not> d_busy d" "set (mutate s d) \<subseteq> {None}" by (simp_all add: first_error_None)
    moreover have "\<not> st_locked s" using m calculation(3) guard_None(4) [of s] by auto
    ultimately show False using assms(1) by simp
  qed
  then obtain e where "first_error (rc @ [REQUIRE_DATABASE_OPEN d, REQUIRE_DATABASE_NOT_BUSY d] @ mutate s d) = Some e"
    by (meson not_None_eq)
  then show ?thesis unfolding STATEMENT_START_LOGIC_def by simp
qed

lemma mutate_checks_locked [simp]:
  "REQUIRE_STATEMENT_NOT_LOCKED s \<in> set (DOES_MUTATE s d)" "REQUIRE_STATEMENT_NOT_LOCKED s \<in> set (DOES_NOT_MUTATE s d)"
  "REQUIRE_STATEMENT_NOT_LOCKED s \<in> set (DOES_ADD_ITERATOR s d)"
  by (simp_all add: DOES_MUTATE_def DOES_NOT_MUTATE_def DOES_ADD_ITERATOR_def)

lemma START_guarded:
  assumes "d_busy d \<or> \<not> d_open d \<or> st_locked s" "\<forall>s d. REQUIRE_STATEMENT_NOT_LOCKED s \<in> set (mutate s d)"
  shows "\<exists>e. STATEMENT_START env rc mutate i info s d = (Some (Throws e), s, d)"
  using START_LOGIC_guarded [OF assms, of env rc i info] by (auto simp: STATEMENT_START_def)

text \<open>A guard in a list that fails ends the method.\<close>

lemma first_error_fails: "x \<in> set es \<Longrightarrow> x \<noteq> None \<Longrightarrow> \<exists>e. first_error es = Some e"
  using first_error_None [of es] by auto

section \<open>While a query runs\<close>

definition setting_call :: "api_call \<Rightarrow> bool" where
  "setting_call c \<longleftrightarrow> (case c of CallDefaultSafeIntegers _ \<Rightarrow> True | CallUnsafeMode _ \<Rightarrow> True | _ \<Rightarrow> False)"

lemma guarded_calls:
  assumes "d_busy d \<or> \<not> d_open d \<or> st_locked s" "d_statement d i = Some s"
  shows "\<exists>e. JS_run env i info d = Some (Throws e, d)" "\<exists>e. JS_get env i info d = Some (Throws e, d)"
    "\<exists>e. JS_all env i info d = Some (Throws e, d)" "\<exists>e. JS_iterate env i info d = Some (Throws e, d)"
proof -
  obtain e1 e2 e3 where
    "STATEMENT_START env [] DOES_MUTATE i info s d = (Some (Throws e1), s, d)"
    "STATEMENT_START env [REQUIRE_STATEMENT_RETURNS_DATA s] DOES_NOT_MUTATE i info s d = (Some (Throws e2), s, d)"
    "STATEMENT_START_LOGIC env [REQUIRE_STATEMENT_RETURNS_DATA s] DOES_ADD_ITERATOR i info s d = (Some (Throws e3), s, d)"
    using START_guarded [OF assms(1), of DOES_MUTATE env "[]" i info]
      START_guarded [OF assms(1), of DOES_NOT_MUTATE env "[REQUIRE_STATEMENT_RETURNS_DATA s]" i info]
      START_LOGIC_guarded [OF assms(1), of DOES_ADD_ITERATOR env "[REQUIRE_STATEMENT_RETURNS_DATA s]" i info] by auto
  with assms(2) show "\<exists>e. JS_run env i info d = Some (Throws e, d)" "\<exists>e. JS_get env i info d = Some (Throws e, d)"
    "\<exists>e. JS_all env i info d = Some (Throws e, d)" "\<exists>e. JS_iterate env i info d = Some (Throws e, d)"
    by (simp_all add: JS_run_def JS_get_def JS_all_def JS_iterate_def)
qed

lemma busy_statement_calls:
  assumes "d_busy d"
  shows "JS_run env i info d = Some (r, d') \<Longrightarrow> d' = d" "JS_get env i info d = Some (r, d') \<Longrightarrow> d' = d"
    "JS_all env i info d = Some (r, d') \<Longrightarrow> d' = d" "JS_iterate env i info d = Some (r, d') \<Longrightarrow> d' = d"
proof -
  have none: "d_statement d i = None \<Longrightarrow> JS_run env i info d = None \<and> JS_get env i info d = None \<and>
    JS_all env i info d = None \<and> JS_iterate env i info d = None"
    by (simp add: JS_run_def JS_get_def JS_all_def JS_iterate_def)
  show "JS_run env i info d = Some (r, d') \<Longrightarrow> d' = d" "JS_get env i info d = Some (r, d') \<Longrightarrow> d' = d"
    "JS_all env i info d = Some (r, d') \<Longrightarrow> d' = d" "JS_iterate env i info d = Some (r, d') \<Longrightarrow> d' = d"
    using none guarded_calls [OF disjI1 [OF assms], of i _ env info] by (cases "d_statement d i"; auto)+
qed

lemma guardedD:
  "(case g of None \<Rightarrow> B | Some e \<Rightarrow> (Throws e, d)) = (r, d') \<Longrightarrow> g = None \<or> d' = d"
  "(case g of None \<Rightarrow> B' | Some e \<Rightarrow> Some (Throws e, d)) = Some (r, d') \<Longrightarrow> g = None \<or> d' = d"
  by (auto split: option.split_asm)

lemma busy_call_unchanged:
  assumes busy: "d_busy d" and c: "\<not> setting_call c" and r: "invoke env c d = Some (r, d')"
  shows "d' = d"
proof (cases c)
  case (CallRun i info) then show ?thesis using r busy_statement_calls [OF busy, of env] by simp
next
  case (CallGet i info) then show ?thesis using r busy_statement_calls [OF busy, of env] by simp
next
  case (CallAll i info) then show ?thesis using r busy_statement_calls [OF busy, of env] by simp
next
  case (CallIterate i info) then show ?thesis using r busy_statement_calls [OF busy, of env] by simp
next
  case CallCacheStats then show ?thesis using r
    by (auto simp: JS_cacheStats_def bind_eq_Some_conv split: option.split_asm)
next
  case CallClose then show ?thesis using r busy
    by (auto simp: JS_close_def first_error_None dest!: guardedD split: if_splits)
next
  case (CallPrepare info) then show ?thesis using r busy
    by (auto simp: JS_prepare_def Statement_JS_new_def first_error_None dest!: guardedD split: option.split_asm)
next
  case (CallTransfer i info) then show ?thesis using r busy
    by (auto simp: JS_transfer_def bind_eq_Some_conv split: option.split_asm)
qed (use r c busy in
    \<open>auto simp: setting_call_def JS_next_def JS_return_def JS_bind_def JS_pluck_def JS_expand_def JS_raw_def set_mode_def
      JS_safeIntegers_def JS_columns_def JS_exec_def JS_serialize_def JS_function_def JS_aggregate_def JS_table_def
      JS_loadExtension_def JS_cacheStats_def JS_flushCache_def JS_backup_def Backup_JS_close_def database_checks_def
      first_error_None bind_eq_Some_conv dest!: guardedD\<close>)

section \<open>What SQLite promises\<close>

text \<open>
  The documented behaviour the invariant relies on: running a statement keeps its parameters;
  changes reach the wrapper through its hooks only; after an exception in JavaScript code the step
  fails, and so does the following reset or finalize, likewise for preparing and registering; a
  failed prepare gives no statement, and the named parameters of a statement are numbered from 1.
\<close>

definition env_ok :: "('q, 'e) env \<Rightarrow> bool" where
  "env_ok env \<longleftrightarrow>
     (\<forall>q p rc p' q' js f. e_step env q p = (rc, p', q', js, f) \<longrightarrow>
        pVList p' = pVList p \<and> length (aVar p') = length (aVar p) \<and> (\<forall>n. (noria_step (e_engine env))\<^sup>*\<^sup>* n (f n)) \<and>
        (js \<longrightarrow> rc \<noteq> SQLITE_ROW \<and> rc \<noteq> SQLITE_DONE \<and> fst (e_reset env q' p') \<noteq> SQLITE_OK \<and> fst (e_finalize env q' p') \<noteq> SQLITE_OK)) \<and>
     (\<forall>q p rc p' q'. e_reset env q p = (rc, p', q') \<longrightarrow> pVList p' = pVList p \<and> length (aVar p') = length (aVar p)) \<and>
     (\<forall>q z b rc h tail q' js. e_prepare env q z b = (rc, h, tail, q', js) \<longrightarrow>
        (js \<longrightarrow> rc \<noteq> SQLITE_OK) \<and> (rc \<noteq> SQLITE_OK \<longrightarrow> h = None) \<and>
        (\<forall>p sql. h = Some (p, sql) \<longrightarrow> vlist_ok (pVList p) (length (aVar p)))) \<and>
     (\<forall>q r rc q' js. e_register env q r = (rc, q', js) \<longrightarrow> js \<longrightarrow> rc \<noteq> SQLITE_OK)"

lemma env_step:
  assumes "env_ok env" "e_step env q p = (rc, p', q', js, f)"
  shows "pVList p' = pVList p" "length (aVar p') = length (aVar p)" "(noria_step (e_engine env))\<^sup>*\<^sup>* n (f n)"
    "js \<Longrightarrow> rc \<noteq> SQLITE_ROW \<and> rc \<noteq> SQLITE_DONE \<and> fst (e_reset env q' p') \<noteq> SQLITE_OK \<and> fst (e_finalize env q' p') \<noteq> SQLITE_OK"
  using assms(1) [unfolded env_ok_def, THEN conjunct1, rule_format, OF assms(2)] by simp_all

lemma env_reset:
  assumes "env_ok env" "e_reset env q p = (rc, p', q')"
  shows "pVList p' = pVList p" "length (aVar p') = length (aVar p)"
  using assms unfolding env_ok_def by blast+

lemma env_prepare:
  assumes "env_ok env" "e_prepare env q z b = (rc, h, tail, q', js)"
  shows "js \<Longrightarrow> rc \<noteq> SQLITE_OK" "rc \<noteq> SQLITE_OK \<Longrightarrow> h = None" "h = Some (p, sql) \<Longrightarrow> vlist_ok (pVList p) (length (aVar p))"
  using assms unfolding env_ok_def by blast+

lemma env_register: "env_ok env \<Longrightarrow> e_register env q r = (rc, q', js) \<Longrightarrow> js \<Longrightarrow> rc \<noteq> SQLITE_OK"
  unfolding env_ok_def by blast

section \<open>The invariant\<close>

text \<open>The statement of each live iterator, and the state of statements and backups.\<close>

definition owner :: "('q, 'e) database \<Rightarrow> nat \<Rightarrow> nat option" where
  "owner d j = (case d_iterator d j of Some it \<Rightarrow> if si_alive it then Some (si_stmt it) else None | None \<Rightarrow> None)"

definition locked :: "('q, 'e) database \<Rightarrow> nat \<Rightarrow> bool" where
  "locked d i \<longleftrightarrow> (case d_statement d i of Some s \<Rightarrow> st_locked s | None \<Rightarrow> False)"

definition alive :: "('q, 'e) database \<Rightarrow> nat \<Rightarrow> bool" where
  "alive d i \<longleftrightarrow> (case d_statement d i of Some s \<Rightarrow> st_alive s | None \<Rightarrow> False)"

definition backup_alive :: "('q, 'e) database \<Rightarrow> nat \<Rightarrow> bool" where
  "backup_alive d i \<longleftrightarrow> (case d_backup d i of Some b \<Rightarrow> bk_alive b | None \<Rightarrow> False)"

text \<open>
  The live statements and backups are those the database lists, so that closing reaches each; a
  statement is locked exactly while one live iterator runs over it, and the counter of iterators is
  their number.  All statements of an open database live, and a closed one lists nothing.
\<close>

definition objects_ok :: "('q, 'e) database \<Rightarrow> bool" where
  "objects_ok d \<longleftrightarrow>
     Collect (alive d) = set (d_stmts d) \<and> distinct (d_stmts d) \<and>
     Collect (locked d) = ran (owner d) \<and> Collect (locked d) \<subseteq> Collect (alive d) \<and>
     inj_on (owner d) (dom (owner d)) \<and> card (dom (owner d)) = unat (d_iterators d) \<and>
     dom (d_iterator d) \<subseteq> {..<d_next_iterator d} \<and> dom (d_statement d) \<union> dom (d_backup d) \<subseteq> {..<d_next_id d} \<and>
     Collect (backup_alive d) = set (d_backups d) \<and> distinct (d_backups d) \<and>
     d_registered d = d_open d \<and>
     (if d_open d then Collect (alive d) = dom (d_statement d) else d_stmts d = [] \<and> d_backups d = [])"

definition stmt_params :: "v8_api \<Rightarrow> statement \<Rightarrow> bool" where
  "stmt_params v8 s \<longleftrightarrow> params_ok v8 (st_handle s) (st_has_bind_map s) (st_bind_map s)"

definition all_params :: "v8_api \<Rightarrow> ('q, 'e) database \<Rightarrow> bool" where
  "all_params v8 d \<longleftrightarrow> (\<forall>i s. d_statement d i = Some s \<longrightarrow> stmt_params v8 s)"

definition quiet :: "('q, 'e) database \<Rightarrow> bool" where
  "quiet d \<longleftrightarrow> \<not> d_busy d \<and> \<not> d_was_js_error d"

definition noria_ok :: "('q, 'e) env \<Rightarrow> ('q, 'e) database \<Rightarrow> bool" where
  "noria_ok env d \<longleftrightarrow>
     (case d_noria d of Some n \<Rightarrow> d_open d \<and> noria_reach (e_engine env) n | None \<Rightarrow> \<not> d_open d)"

definition conn_inv :: "('q, 'e) env \<Rightarrow> ('q, 'e) database \<Rightarrow> bool" where
  "conn_inv env d \<longleftrightarrow> objects_ok d \<and> all_params (e_v8 env) d \<and> quiet d \<and> noria_ok env d"

lemma noria_ok_cong: "d_noria d' = d_noria d \<Longrightarrow> d_open d' = d_open d \<Longrightarrow> noria_ok env d' = noria_ok env d"
  by (simp add: noria_ok_def split: option.split)

subsection \<open>Steps that keep the objects\<close>

definition kept :: "('q, 'e) env \<Rightarrow> ('q, 'e) database \<Rightarrow> ('q, 'e) database \<Rightarrow> bool" where
  "kept env d d' \<longleftrightarrow>
     d_open d' = d_open d \<and> d_registered d' = d_registered d \<and> d_iterators d' = d_iterators d \<and> d_stmts d' = d_stmts d \<and>
     d_backups d' = d_backups d \<and> d_next_id d' = d_next_id d \<and> d_next_iterator d' = d_next_iterator d \<and>
     dom (d_iterator d') = dom (d_iterator d) \<and> owner d' = owner d \<and> alive d' = alive d \<and> locked d' = locked d \<and>
     backup_alive d' = backup_alive d \<and> dom (d_statement d') = dom (d_statement d) \<and> dom (d_backup d') = dom (d_backup d) \<and>
     (all_params (e_v8 env) d \<longrightarrow> all_params (e_v8 env) d') \<and>
     rel_option (noria_step (e_engine env))\<^sup>*\<^sup>* (d_noria d) (d_noria d')"

lemma kept_refl [simp]: "kept env d d"
  by (simp add: kept_def option.rel_refl)

lemma rel_option_steps:
  "rel_option R\<^sup>*\<^sup>* a b \<Longrightarrow> rel_option R\<^sup>*\<^sup>* b c \<Longrightarrow> rel_option R\<^sup>*\<^sup>* a c"
  by (cases a; cases b; cases c) auto

lemma kept_trans [trans]: "kept env d d' \<Longrightarrow> kept env d' d'' \<Longrightarrow> kept env d d''"
  unfolding kept_def by (elim conjE, intro conjI) (simp_all add: rel_option_steps [of _ "d_noria d" "d_noria d'" "d_noria d''"])

lemma noria_reach_steps: "(noria_step api)\<^sup>*\<^sup>* n n' \<Longrightarrow> noria_reach api n \<Longrightarrow> noria_reach api n'"
  by (induction rule: rtranclp_induct) (auto intro: reach_step)

lemma kept_objects: "kept env d d' \<Longrightarrow> objects_ok d' = objects_ok d"
  unfolding kept_def objects_ok_def by (elim conjE) (simp only:)

lemma kept_inv: "kept env d d' \<Longrightarrow> conn_inv env d \<Longrightarrow> quiet d' \<Longrightarrow> conn_inv env d'"
  unfolding conn_inv_def kept_def [of env d d'] using kept_objects [of env d d']
  by (cases "d_noria d"; cases "d_noria d'") (auto simp: noria_ok_def kept_def dest: noria_reach_steps)

text \<open>The views of the objects depend on the maps only.\<close>

lemma view_cong:
  "d_iterator d' = d_iterator d \<Longrightarrow> owner d' = owner d" "d_statement d' = d_statement d \<Longrightarrow> alive d' = alive d"
  "d_statement d' = d_statement d \<Longrightarrow> locked d' = locked d" "d_backup d' = d_backup d \<Longrightarrow> backup_alive d' = backup_alive d"
  "d_statement d' = d_statement d \<Longrightarrow> all_params v8 d' = all_params v8 d"
  by (auto simp: owner_def alive_def locked_def backup_alive_def all_params_def fun_eq_iff)

lemma kept_frame:
  assumes "d_open d' = d_open d" "d_registered d' = d_registered d" "d_iterators d' = d_iterators d" "d_stmts d' = d_stmts d"
    "d_backups d' = d_backups d" "d_next_id d' = d_next_id d" "d_next_iterator d' = d_next_iterator d"
    "d_iterator d' = d_iterator d" "d_statement d' = d_statement d" "d_backup d' = d_backup d"
    "rel_option (noria_step (e_engine env))\<^sup>*\<^sup>* (d_noria d) (d_noria d')"
  shows "kept env d d'"
  unfolding kept_def using assms view_cong [of d' d] by simp

text \<open>Changing a statement but not whether it lives or is locked.\<close>

lemma kept_statement:
  assumes "d_statement d i = Some s" "st_alive s' = st_alive s" "st_locked s' = st_locked s"
    and "stmt_params (e_v8 env) s \<Longrightarrow> stmt_params (e_v8 env) s'"
  shows "kept env d (set_statement i s' d)"
proof -
  let ?d = "set_statement i s' d"
  have st: "d_statement ?d = (d_statement d)(i \<mapsto> s')" by (simp add: set_statement_def)
  have 1: "dom (d_statement ?d) = dom (d_statement d)" unfolding st using assms(1) by (simp add: domI insert_absorb)
  have 2: "owner ?d = owner d" "backup_alive ?d = backup_alive d"
    by (rule view_cong; simp add: set_statement_def)+
  have 3: "alive ?d = alive d" "locked ?d = locked d"
    unfolding alive_def locked_def st using assms(1-3) by (simp_all add: fun_eq_iff)
  have 4: "all_params (e_v8 env) ?d" if "all_params (e_v8 env) d"
  proof -
    have "stmt_params (e_v8 env) s'" using that assms(1,4) unfolding all_params_def by blast
    then show ?thesis using that unfolding all_params_def st by simp
  qed
  have 5: "rel_option (noria_step (e_engine env))\<^sup>*\<^sup>* (d_noria d) (d_noria d)" by (simp add: option.rel_refl)
  show ?thesis unfolding kept_def
    by (intro conjI impI 1 2 3 4) (simp_all add: set_statement_def 5)
qed

lemma params_handle:
  "pVList p' = pVList (st_handle s) \<Longrightarrow> length (aVar p') = length (aVar (st_handle s)) \<Longrightarrow>
   stmt_params v8 s \<Longrightarrow> stmt_params v8 (s\<lparr>st_handle := p'\<rparr>)"
  by (simp add: stmt_params_def params_ok_def)

lemma do_step_kept:
  assumes "env_ok env" "d_statement d i = Some s" "do_step env i s d = (rc, s', d')"
  shows "kept env d d' \<and> d_statement d' i = Some s' \<and> st_bound s' = st_bound s \<and> st_mode s' = st_mode s \<and> st_safe_ints s' = st_safe_ints s \<and>
    d_busy d' = d_busy d \<and>
    (\<not> d_was_js_error d \<longrightarrow> d_was_js_error d' \<longrightarrow>
       rc \<noteq> SQLITE_ROW \<and> rc \<noteq> SQLITE_DONE \<and> fst (e_reset env (d_handle d') (st_handle s')) \<noteq> SQLITE_OK)"
proof -
  obtain p q js f where e: "e_step env (d_handle d) (st_handle s) = (rc, p, q, js, f)"
    using assms(3) by (auto simp: do_step_def Let_def split: prod.split_asm)
  let ?d = "d\<lparr>d_handle := q, d_was_js_error := d_was_js_error d \<or> js, d_noria := map_option f (d_noria d)\<rparr>"
  have d': "s' = s\<lparr>st_handle := p\<rparr>" "d' = set_statement i s' ?d"
    using assms(3) e by (auto simp: do_step_def Let_def)
  have "kept env d ?d" using env_step(3) [OF assms(1) e]
    by (intro kept_frame) (auto simp: option.rel_map option.rel_refl intro!: option.rel_refl_strong)
  also have "kept env ?d d'" unfolding d'
    using assms(2) env_step(1,2) [OF assms(1) e] by (intro kept_statement [of _ _ s]) (auto intro: params_handle)
  finally show ?thesis using d' env_step(4) [OF assms(1) e] by (auto simp: set_statement_def)
qed

lemma do_reset_kept:
  assumes "env_ok env" "d_statement d i = Some s" "do_reset env i s d = (rc, s', d')"
  shows "kept env d d' \<and> d_statement d' i = Some s' \<and> st_bound s' = st_bound s \<and> st_mode s' = st_mode s \<and> st_safe_ints s' = st_safe_ints s \<and>
    d_busy d' = d_busy d \<and> d_was_js_error d' = d_was_js_error d \<and> rc = fst (e_reset env (d_handle d) (st_handle s))"
proof -
  obtain p q where e: "e_reset env (d_handle d) (st_handle s) = (rc, p, q)"
    using assms(3) by (auto simp: do_reset_def Let_def split: prod.split_asm)
  have d': "s' = s\<lparr>st_handle := p\<rparr>" "d' = set_statement i s' (d\<lparr>d_handle := q\<rparr>)"
    using assms(3) e by (auto simp: do_reset_def Let_def)
  have "kept env d (d\<lparr>d_handle := q\<rparr>)" by (intro kept_frame) (auto simp: option.rel_refl)
  also have "kept env (d\<lparr>d_handle := q\<rparr>) d'" unfolding d'
    using assms(2) env_reset [OF assms(1) e] by (intro kept_statement [of _ _ s]) (auto intro: params_handle)
  finally show ?thesis using d' e by (auto simp: set_statement_def)
qed

lemma clear_kept: "kept env d (clear_unless_bound i b d)"
proof (cases "d_statement d i")
  case (Some s)
  then show ?thesis
    by (auto simp: clear_unless_bound_def sqlite3_clear_bindings_def intro!: kept_statement params_handle)
qed (simp add: clear_unless_bound_def)

lemma clear_flags [simp]:
  "d_busy (clear_unless_bound i b d) = d_busy d" "d_was_js_error (clear_unless_bound i b d) = d_was_js_error d"
  by (auto simp: clear_unless_bound_def set_statement_def split: option.split)

lemma kept_flags [simp]: "kept env d (d\<lparr>d_busy := b\<rparr>)" "kept env d (d\<lparr>d_was_js_error := b\<rparr>)"
  by (rule kept_frame; simp add: option.rel_refl)+

subsection \<open>Methods of statements\<close>

text \<open>What a method of a statement may rely on and has to leave behind.\<close>

definition ended :: "('q, 'e) env \<Rightarrow> ('q, 'e) database \<Rightarrow> ('q, 'e) database \<Rightarrow> bool" where
  "ended env d d' \<longleftrightarrow> kept env d d' \<and> quiet d'"

lemma STATEMENT_THROW_ended: "kept env d d' \<Longrightarrow> ended env d (snd (STATEMENT_THROW env i b d'))"
  unfolding ended_def STATEMENT_THROW_def STATEMENT_THROW_LOGIC_def ThrowDatabaseError_def
  by (auto simp: quiet_def intro: kept_trans [OF _ clear_kept] kept_trans [OF _ kept_flags(1)] kept_trans [OF _ kept_flags(2)])

lemma STATEMENT_RETURN_ended:
  "kept env d d' \<Longrightarrow> \<not> d_was_js_error d' \<Longrightarrow> ended env d (snd (STATEMENT_RETURN i b v d'))"
  unfolding ended_def STATEMENT_RETURN_def STATEMENT_RETURN_LOGIC_def
  by (auto simp: quiet_def intro: kept_trans [OF _ clear_kept] kept_trans [OF _ kept_flags(1)])

lemma bind_params:
  assumes "stmt_params v8 s" "b = STATEMENT_BIND v8 info (st_handle s) (st_has_bind_map s) (st_bind_map s)"
  shows "stmt_params v8 (s\<lparr>st_handle := b_handle b, st_has_bind_map := b_has_bind_map b, st_bind_map := b_bind_map b\<rparr>)"
  using STATEMENT_BIND_params [of v8 "st_handle s" "st_has_bind_map s" "st_bind_map s" info] assms
  by (simp add: stmt_params_def Let_def)

lemma START_LOGIC_kept:
  assumes "STATEMENT_START_LOGIC env rcs mutate i info s d = (r, s', d')" "d_statement d i = Some s"
  shows "kept env d d' \<and> d_statement d' i = Some s' \<and> d_busy d' = d_busy d \<and> d_was_js_error d' = d_was_js_error d \<and>
    st_locked s' = st_locked s \<and> (r = None \<longrightarrow> first_error (rcs @ [REQUIRE_DATABASE_OPEN d, REQUIRE_DATABASE_NOT_BUSY d] @ mutate s d) = None)"
proof (cases "first_error (rcs @ [REQUIRE_DATABASE_OPEN d, REQUIRE_DATABASE_NOT_BUSY d] @ mutate s d)")
  case None
  define b where "b = STATEMENT_BIND (e_v8 env) info (st_handle s) (st_has_bind_map s) (st_bind_map s)"
  define t where "t = s\<lparr>st_handle := b_handle b, st_has_bind_map := b_has_bind_map b, st_bind_map := b_bind_map b\<rparr>"
  have "kept env d (set_statement i t d)"
    by (rule kept_statement [OF assms(2)]) (auto simp: t_def intro: bind_params [OF _ b_def])
  moreover have "s' = t \<and> d' = set_statement i t d \<or> s' = s \<and> d' = d"
    using assms(1) None unfolding STATEMENT_START_LOGIC_def
    by (auto simp: Let_def b_def t_def split: if_splits)
  ultimately show ?thesis using assms(2) None by (auto simp: set_statement_def t_def)
next
  case (Some e)
  then show ?thesis using assms by (auto simp: STATEMENT_START_LOGIC_def)
qed

lemma Log_kept:
  assumes "Log env p d = (t, d')"
  shows "kept env d d' \<and> d_statement d' = d_statement d \<and> d_busy d' = d_busy d \<and> (\<not> d_was_js_error d \<longrightarrow> d_was_js_error d' = t)"
  using assms by (auto simp: Log_def Let_def split: if_splits)

lemma START_kept:
  assumes "STATEMENT_START env rcs mutate i info s d = (r, s', d')" "d_statement d i = Some s" "quiet d"
  shows "kept env d d' \<and> (r = None \<longrightarrow> d_statement d' i = Some s' \<and> \<not> d_was_js_error d') \<and> (r \<noteq> None \<longrightarrow> quiet d')"
proof -
  obtain r1 s1 d1 where l: "STATEMENT_START_LOGIC env rcs mutate i info s d = (r1, s1, d1)" by (metis prod.exhaust)
  note k = START_LOGIC_kept [OF l assms(2)]
  show ?thesis
  proof (cases r1)
    case None
    obtain t d2 where g: "Log env (st_handle s1) (d1\<lparr>d_busy := True\<rparr>) = (t, d2)" by (metis prod.exhaust)
    have "kept env d (d1\<lparr>d_busy := True\<rparr>)" using k by (blast intro: kept_trans kept_flags(1))
    then have k2: "kept env d d2" using Log_kept [OF g] by (blast intro: kept_trans)
    show ?thesis
    proof (cases t)
      case True
      then have "r \<noteq> None \<and> d' = snd (STATEMENT_THROW env i (st_bound s1) d2)"
        using assms(1) l None g by (auto simp: STATEMENT_START_def split: prod.split_asm)
      then show ?thesis using STATEMENT_THROW_ended [OF k2, of i "st_bound s1"] by (auto simp: ended_def)
    next
      case False
      then have "r = None \<and> s' = s1 \<and> d' = d2" using assms(1) l None g by (simp add: STATEMENT_START_def)
      then show ?thesis using k2 k Log_kept [OF g] False assms(3) by (simp add: quiet_def)
    qed
  next
    case (Some e)
    then have "d' = d1 \<and> r \<noteq> None" using assms(1) l by (auto simp: STATEMENT_START_def)
    then show ?thesis using k assms(3) by (auto simp: quiet_def)
  qed
qed

lemma NotifyCdc_kept:
  assumes "NotifyCdc env d = Some d'"
  shows "kept env d d' \<and> d_was_js_error d' = d_was_js_error d"
proof (cases "d_noria d")
  case (Some n)
  show ?thesis
  proof (cases "HasAnyViews n")
    case True
    then obtain n' where "NotifyChange (e_engine env) (e_conn env (d_handle d)) n = Some n'" "d' = d\<lparr>d_noria := Some n'\<rparr>"
      using assms Some by (auto simp: NotifyCdc_def bind_eq_Some_conv)
    then show ?thesis using Some notify_change [of "e_engine env"] by (auto intro!: kept_frame r_into_rtranclp)
  qed (use assms Some in \<open>simp add: NotifyCdc_def\<close>)
qed (use assms in \<open>simp add: NotifyCdc_def\<close>)

lemma JS_run_ended:
  assumes env: "env_ok env" and q: "quiet d" and r: "JS_run env i info d = Some (r, d')"
  shows "ended env d d'"
proof -
  obtain s where s: "d_statement d i = Some s" using r by (auto simp: JS_run_def bind_eq_Some_conv)
  obtain r0 s0 d0 where st: "STATEMENT_START env [] DOES_MUTATE i info s d = (r0, s0, d0)" by (metis prod.exhaust)
  note k0 = START_kept [OF st s q]
  show ?thesis
  proof (cases r0)
    case None
    obtain rc1 s1 d1 where step: "do_step env i s0 d0 = (rc1, s1, d1)" by (metis prod.exhaust)
    obtain rc2 s2 d2 where reset: "do_reset env i s1 d1 = (rc2, s2, d2)" by (metis prod.exhaust)
    have i0: "d_statement d0 i = Some s0" "\<not> d_was_js_error d0" "kept env d d0" using k0 None by simp_all
    note k1 = do_step_kept [OF env i0(1) step]
    then have i1: "d_statement d1 i = Some s1" by simp
    note k2 = do_reset_kept [OF env i1 reset]
    have d2: "kept env d d2" by (rule kept_trans [OF kept_trans [OF i0(3) k1 [THEN conjunct1]] k2 [THEN conjunct1]])
    have js: "rc2 = SQLITE_OK \<Longrightarrow> \<not> d_was_js_error d2" using k1 k2 i0(2) by auto
    show ?thesis
    proof (cases "rc2 = SQLITE_OK")
      case True
      define b v where "b = (\<lambda>c. cdc_needed s2 c (autocommit (e_conn env (d_handle d0))) (autocommit (e_conn env (d_handle d2))))"
        and "v = (\<lambda>c. run_result env (st_safe_ints s2) c (e_last_insert_rowid env (d_handle d2)))"
      obtain c where "(if b c then NotifyCdc env d2 else Some d2) \<bind> (\<lambda>d. Some (STATEMENT_RETURN i (st_bound s2) (v c) d)) = Some (r, d')"
        using r s st None step reset True unfolding JS_run_def b_def v_def by (simp add: Let_def)
      then obtain d3 where d3: "NotifyCdc env d2 = Some d3 \<or> d3 = d2" "STATEMENT_RETURN i (st_bound s2) (v c) d3 = (r, d')"
        by (auto simp: bind_eq_Some_conv split: if_splits)
      have "kept env d d3 \<and> \<not> d_was_js_error d3"
        using d3(1) NotifyCdc_kept [of env d2 d3] d2 js [OF True] by (auto intro: kept_trans)
      then show ?thesis using STATEMENT_RETURN_ended [of env d d3 i "st_bound s2" "v c"] by (simp add: d3(2))
    next
      case False
      then have "(r, d') = STATEMENT_THROW env i (st_bound s2) d2"
        using r s st None step reset by (simp add: JS_run_def Let_def)
      then show ?thesis using STATEMENT_THROW_ended [OF d2, of i "st_bound s2"] by (metis snd_conv)
    qed
  next
    case (Some e)
    then have "d' = d0" using r s st by (auto simp: JS_run_def)
    then show ?thesis using k0 Some by (simp add: ended_def)
  qed
qed

lemma TryNoriaGet_kept:
  assumes "TryNoriaGet env info c s d = Some (v, d')"
  shows "kept env d d' \<and> d_statement d' = d_statement d \<and> d_was_js_error d' = d_was_js_error d"
proof (cases "st_noria_view_id s < 0 \<or> st_mode s \<noteq> FLAT \<or> d_noria d = None \<or> \<not> IsEnabled (the (d_noria d))")
  case True
  then have "d' = d" using assms by (auto simp: TryNoriaGet_def split: option.split_asm if_splits)
  then show ?thesis by simp
next
  case False
  then obtain n where n: "d_noria d = Some n" "IsEnabled n" by auto
  obtain n1 ks where n1: "(if c then map_option snd (Flush (e_engine env) (e_conn env (d_handle d)) n) else Some n) = Some n1"
    and rest: "(let (result, n) = LookupOrUpquery (e_engine env) (e_conn env (d_handle d)) n1 (st_noria_view_id s) ks;
        d = d\<lparr>d_noria := Some n\<rparr> in
        if found result = 0 \<and> row_count result = 0 then Some (None, d)
        else if row_count result = 0 then Some (Some JsUndefined, d)
        else Some (Some (NoriaRowToJS (e_v8 env) (rows result) 0 (st_column_names s) (st_safe_ints s)), d)) = Some (v, d')"
    using assms False n unfolding TryNoriaGet_def by (simp add: bind_eq_Some_conv) blast
  obtain r n2 where l: "LookupOrUpquery (e_engine env) (e_conn env (d_handle d)) n1 (st_noria_view_id s) ks = (r, n2)"
    by (metis prod.exhaust)
  with rest have n2: "LookupOrUpquery (e_engine env) (e_conn env (d_handle d)) n1 (st_noria_view_id s) ks = (r, n2)"
      "d' = d\<lparr>d_noria := Some n2\<rparr>" by (auto simp: Let_def split: if_splits)
  have "(noria_step (e_engine env))\<^sup>*\<^sup>* n n1"
    using n1 by (auto split: if_splits intro!: r_into_rtranclp dest: flush)
  moreover have "noria_step (e_engine env) n1 n2"
    using lookup_or_upquery [of "e_engine env" n1 "e_conn env (d_handle d)" "st_noria_view_id s" ks] n2(1) by simp
  ultimately have "(noria_step (e_engine env))\<^sup>*\<^sup>* n n2" by simp
  then show ?thesis using n(1) n2(2) by (auto intro!: kept_frame)
qed

lemma JS_get_ended:
  assumes env: "env_ok env" and q: "quiet d" and r: "JS_get env i info d = Some (r, d')"
  shows "ended env d d'"
proof -
  obtain s where s: "d_statement d i = Some s" using r by (auto simp: JS_get_def bind_eq_Some_conv)
  obtain r0 s0 d0 where st: "STATEMENT_START env [REQUIRE_STATEMENT_RETURNS_DATA s] DOES_NOT_MUTATE i info s d = (r0, s0, d0)"
    by (metis prod.exhaust)
  note k0 = START_kept [OF st s q]
  show ?thesis
  proof (cases r0)
    case None
    obtain a da where a: "TryNoriaGet env info False s0 d0 = Some (a, da)"
      using r s st None by (auto simp: JS_get_def bind_eq_Some_conv)
    have i0: "d_statement da i = Some s0" "\<not> d_was_js_error da" "kept env d da"
      using k0 None TryNoriaGet_kept [OF a] by (auto intro: kept_trans)
    obtain rc1 s1 d1 where step: "do_step env i s0 da = (rc1, s1, d1)" by (metis prod.exhaust)
    obtain rc2 s2 d2 where reset: "do_reset env i s1 d1 = (rc2, s2, d2)" by (metis prod.exhaust)
    note k1 = do_step_kept [OF env i0(1) step]
    then have i1: "d_statement d1 i = Some s1" by simp
    note k2 = do_reset_kept [OF env i1 reset]
    have d2: "kept env d d2" by (rule kept_trans [OF kept_trans [OF i0(3) k1 [THEN conjunct1]] k2 [THEN conjunct1]])
    have js: "rc1 = SQLITE_ROW \<or> rc1 = SQLITE_DONE \<Longrightarrow> \<not> d_was_js_error d2" using k1 k2 i0(2) by auto
    show ?thesis
    proof (cases a)
      case (Some v)
      then have "d' = (clear_unless_bound i (st_bound s0) da)\<lparr>d_busy := False\<rparr>" using r s st None a by (auto simp: JS_get_def)
      then show ?thesis using i0
        by (auto simp: ended_def quiet_def intro: kept_trans [OF _ kept_flags(1)] kept_trans [OF _ clear_kept])
    next
      case no: None
      have "(if rc1 = SQLITE_ROW
          then STATEMENT_RETURN i (st_bound s2) (GetRowJS (e_v8 env) (st_handle s1) (st_safe_ints s1) (st_mode s1)) d2
          else if rc1 = SQLITE_DONE then STATEMENT_RETURN i (st_bound s2) JsUndefined d2
          else STATEMENT_THROW env i (st_bound s2) d2) = (r, d')"
        using r s st None a no step reset by (simp add: JS_get_def Let_def)
      then show ?thesis
        using STATEMENT_RETURN_ended [OF d2 js, of i "st_bound s2"] STATEMENT_THROW_ended [OF d2, of i "st_bound s2"] by (metis snd_conv)
    qed
  next
    case (Some e)
    then have "d' = d0" using r s st by (auto simp: JS_get_def)
    then show ?thesis using k0 Some by (simp add: ended_def)
  qed
qed

text \<open>The rows of \<open>all()\<close>.\<close>

lemma all_rows_kept:
  assumes "all_rows env i rb acc s d = Some res" "env_ok env" "d_statement d i = Some s" "\<not> d_was_js_error d"
  shows "kept env d (snd (snd res)) \<and> d_statement (snd (snd res)) i = Some (fst (snd res)) \<and>
    (d_was_js_error (snd (snd res)) \<longrightarrow> fst (e_reset env (d_handle (snd (snd res))) (st_handle (fst (snd res)))) \<noteq> SQLITE_OK)"
  using assms
proof (induction rule: all_rows.raw_induct [rotated, consumes 1, case_names step])
  case (step f env i rb acc s d res)
  obtain rc s1 d1 where one: "do_step env i s d = (rc, s1, d1)" by (metis prod.exhaust)
  note k = do_step_kept [OF step(3,4) one]
  show ?case
  proof (cases "rc = SQLITE_ROW")
    case True
    obtain rb' row where f: "f env i rb' (acc @ [row]) s1 d1 = Some res"
      using step(2) one True by (auto split: prod.split_asm if_splits)
    have "\<not> d_was_js_error d1" using k True step(5) by blast
    from step(1) [OF f step(3) _ this] k show ?thesis by (auto intro: kept_trans)
  next
    case False
    then show ?thesis using step(2,5) one k by auto
  qed
qed

lemma JS_all_ended:
  assumes env: "env_ok env" and q: "quiet d" and r: "JS_all env i info d = Some (r, d')"
  shows "ended env d d'"
proof -
  obtain s where s: "d_statement d i = Some s" using r by (cases "d_statement d i") (simp_all add: JS_all_def)
  obtain r0 s0 d0 where st: "STATEMENT_START env [REQUIRE_STATEMENT_RETURNS_DATA s] DOES_NOT_MUTATE i info s d = (r0, s0, d0)"
    by (metis prod.exhaust)
  note k0 = START_kept [OF st s q]
  show ?thesis
  proof (cases r0)
    case None
    have "all_rows env i (RowBuilder_new (st_safe_ints s0)) [] s0 d0 \<noteq> None"
      using r s st None unfolding JS_all_def by (intro notI) simp
    then obtain rs s1 d1 where rows: "all_rows env i (RowBuilder_new (st_safe_ints s0)) [] s0 d0 = Some (rs, s1, d1)"
      by (metis not_None_eq prod.exhaust)
    obtain rc2 s2 d2 where reset: "do_reset env i s1 d1 = (rc2, s2, d2)" by (metis prod.exhaust)
    have k1: "kept env d0 d1" "d_statement d1 i = Some s1"
      "d_was_js_error d1 \<longrightarrow> fst (e_reset env (d_handle d1) (st_handle s1)) \<noteq> SQLITE_OK"
      using all_rows_kept [OF rows env] k0 None by simp_all
    note k2 = do_reset_kept [OF env k1(2) reset]
    have d2: "kept env d d2" by (rule kept_trans [OF kept_trans [OF k0 [THEN conjunct1] k1(1)] k2 [THEN conjunct1]])
    have d3: "kept env d (d2\<lparr>d_was_js_error := True\<rparr>)" by (rule kept_trans [OF d2 kept_flags(2)])
    have js: "rc2 = SQLITE_OK \<Longrightarrow> \<not> d_was_js_error d2" using k1 k2 by auto
    define bound where "bound = (length rs \<le> 0xffffffff)"
    have eq: "(if rc2 = SQLITE_OK \<and> bound then Some (STATEMENT_RETURN i (st_bound s2) (JsArray (map Some rs)) d2)
         else if rc2 = SQLITE_OK
         then Some (Throws (RangeError (lit ''Array overflow (too many rows returned)'')),
                snd (STATEMENT_THROW env i (st_bound s2) (d2\<lparr>d_was_js_error := True\<rparr>)))
         else Some (STATEMENT_THROW env i (st_bound s2) d2)) = Some (r, d')"
      using r s st None rows reset unfolding bound_def JS_all_def by (simp add: Let_def)
    consider "rc2 = SQLITE_OK" "bound" | "rc2 = SQLITE_OK" "\<not> bound" | "rc2 \<noteq> SQLITE_OK" by blast
    then show ?thesis
    proof cases
      case 1
      then show ?thesis using eq STATEMENT_RETURN_ended [OF d2 js, of i "st_bound s2" "JsArray (map Some rs)"] by simp
    next
      case 2
      then show ?thesis using eq STATEMENT_THROW_ended [OF d3, of i "st_bound s2"] by simp
    next
      case 3
      then show ?thesis using eq STATEMENT_THROW_ended [OF d2, of i "st_bound s2"] by simp
    qed
  next
    case (Some e)
    then have "d' = d0" using r s st by (simp add: JS_all_def)
    then show ?thesis using k0 Some by (simp add: ended_def)
  qed
qed

lemma guardedE:
  "(case g of None \<Rightarrow> B | Some e \<Rightarrow> (Throws e, d)) = (r, d') \<Longrightarrow> d' = d \<or> g = None \<and> B = (r, d')"
  "(case g of None \<Rightarrow> B' | Some e \<Rightarrow> Some (Throws e, d)) = Some (r, d') \<Longrightarrow> d' = d \<or> g = None \<and> B' = Some (r, d')"
  by (auto split: option.split_asm)

lemma ended_refl [simp]: "quiet d \<Longrightarrow> ended env d d"
  by (simp add: ended_def)

lemma quiet_updates [simp]:
  "quiet (set_statement i s d) = quiet d" "quiet (d\<lparr>d_handle := q\<rparr>) = quiet d" "quiet (d\<lparr>d_noria := n\<rparr>) = quiet d"
  "quiet (d\<lparr>d_safe_ints := b\<rparr>) = quiet d" "quiet (d\<lparr>d_unsafe_mode := b\<rparr>) = quiet d"
  by (simp_all add: quiet_def set_statement_def)

lemma ended_statement:
  assumes "d_statement d i = Some s" "st_alive s' = st_alive s" "st_locked s' = st_locked s"
    and "stmt_params (e_v8 env) s \<Longrightarrow> stmt_params (e_v8 env) s'" "quiet d"
  shows "ended env d (set_statement i s' d)"
  using kept_statement [OF assms(1-4)] assms(5) by (simp add: ended_def)

lemma ended_frame [simp]:
  "quiet d \<Longrightarrow> ended env d (d\<lparr>d_handle := q\<rparr>)" "quiet d \<Longrightarrow> ended env d (d\<lparr>d_safe_ints := b\<rparr>)"
  "quiet d \<Longrightarrow> ended env d (d\<lparr>d_unsafe_mode := b, d_handle := q\<rparr>)"
  by (auto simp: ended_def option.rel_refl intro!: kept_frame)

lemma JS_bind_ended:
  assumes "quiet d" "JS_bind env i info d = Some (r, d')"
  shows "ended env d d'"
proof -
  obtain s where s: "d_statement d i = Some s" using assms(2) by (auto simp: JS_bind_def bind_eq_Some_conv)
  define b where "b = STATEMENT_BIND (e_v8 env) info (st_handle s) (st_has_bind_map s) (st_bind_map s)"
  define t where "t = s\<lparr>st_handle := b_handle b, st_has_bind_map := b_has_bind_map b, st_bind_map := b_bind_map b\<rparr>"
  have "stmt_params (e_v8 env) s \<Longrightarrow> stmt_params (e_v8 env) t" unfolding t_def by (rule bind_params [OF _ b_def])
  then have "ended env d (set_statement i t d)" "ended env d (set_statement i (t\<lparr>st_bound := True\<rparr>) d)"
    using assms(1) by (intro ended_statement [OF s]; simp add: t_def stmt_params_def)+
  moreover have "d' = d \<or> d' = set_statement i t d \<or> d' = set_statement i (t\<lparr>st_bound := True\<rparr>) d"
    using assms(2) s unfolding JS_bind_def b_def [symmetric] t_def
    by (auto simp: Let_def b_def [symmetric] dest!: guardedE split: if_splits)
  ultimately show ?thesis using assms(1) by auto
qed

lemma setters_ended:
  assumes "quiet d"
  shows "set_mode e m i info d = Some (r, d') \<Longrightarrow> ended env d d'" "JS_safeIntegers i info d = Some (r, d') \<Longrightarrow> ended env d d'"
    "JS_columns env i d = Some (r, d') \<Longrightarrow> ended env d d'"
  using assms by (auto simp: set_mode_def JS_safeIntegers_def JS_columns_def bind_eq_Some_conv Let_def stmt_params_def
      dest!: guardedE intro!: ended_statement)

subsection \<open>Methods of the database\<close>

lemma ThrowDatabaseError_ended:
  assumes "kept env d d'" "\<not> d_busy d'"
  shows "ended env d (snd (ThrowDatabaseError env d'))"
  using assms by (auto simp: ended_def quiet_def ThrowDatabaseError_def intro: kept_trans)

lemma register_ended:
  assumes "env_ok env" "register env reg d = (r, d')" "\<not> d_was_js_error d"
  shows "kept env d d' \<and> d_busy d' = d_busy d \<and> \<not> d_was_js_error d'"
proof -
  obtain rc q js where e: "e_register env (d_handle d) reg = (rc, q, js)" by (metis prod.exhaust)
  have "kept env d (d\<lparr>d_handle := q, d_was_js_error := b\<rparr>)" for b
    by (rule kept_frame) (simp_all add: option.rel_refl)
  then show ?thesis
    using assms(2,3) env_register [OF assms(1) e] e
    by (auto simp: register_def Let_def ThrowDatabaseError_def split: if_splits)
qed

lemma registrations_ended:
  assumes "env_ok env" "quiet d"
  shows "JS_function env info d = Some (r, d') \<Longrightarrow> ended env d d'" "JS_aggregate env info d = Some (r, d') \<Longrightarrow> ended env d d'"
    "JS_serialize env info d = Some (r, d') \<Longrightarrow> ended env d d'"
    "JS_loadExtension env info d = Some (r, d') \<Longrightarrow> ended env d d'"
proof -
  have reg: "register env x d = (r, d') \<Longrightarrow> ended env d d'" for x
    using register_ended [OF assms(1), of x d r d'] assms(2) by (simp add: ended_def quiet_def)
  show "JS_function env info d = Some (r, d') \<Longrightarrow> ended env d d'" "JS_aggregate env info d = Some (r, d') \<Longrightarrow> ended env d d'"
    "JS_serialize env info d = Some (r, d') \<Longrightarrow> ended env d d'"
    "JS_loadExtension env info d = Some (r, d') \<Longrightarrow> ended env d d'"
    unfolding JS_function_def JS_aggregate_def JS_serialize_def JS_loadExtension_def using assms(2) reg
    by (auto dest!: guardedE split: prod.split_asm if_splits)
qed

lemma JS_table_ended:
  assumes "env_ok env" "quiet d" "JS_table env info d = Some (r, d')"
  shows "ended env d d'"
proof (cases "d' = d")
  case False
  obtain x r' d1 where "register env x (d\<lparr>d_busy := True\<rparr>) = (r', d1)" "d' = d1\<lparr>d_busy := False\<rparr>"
    using assms(3) False by (auto simp: JS_table_def dest!: guardedE split: prod.split_asm)
  then show ?thesis using register_ended [OF assms(1), of x "d\<lparr>d_busy := True\<rparr>" r' d1] assms(2)
    by (auto simp: ended_def quiet_def intro: kept_trans [OF kept_flags(1)] kept_trans [OF _ kept_flags(1)])
qed (use assms in simp)

lemma cache_ended:
  assumes "quiet d"
  shows "JS_cacheStats env d = Some (r, d') \<Longrightarrow> ended env d d'" "JS_flushCache env d = Some (r, d') \<Longrightarrow> ended env d d'"
    "JS_defaultSafeIntegers info d = Some (r, d') \<Longrightarrow> ended env d d'" "JS_unsafeMode env info d = Some (r, d') \<Longrightarrow> ended env d d'"
proof -
  show "JS_flushCache env d = Some (r, d') \<Longrightarrow> ended env d d'"
    using assms flush [of "e_engine env"]
    by (auto simp: JS_flushCache_def bind_eq_Some_conv ended_def option.rel_refl dest!: guardedE intro!: kept_frame r_into_rtranclp)
qed (use assms in \<open>auto simp: JS_cacheStats_def JS_defaultSafeIntegers_def JS_unsafeMode_def bind_eq_Some_conv
    dest!: guardedE split: sum.split_asm if_splits\<close>)

lemma exec_step_kept:
  assumes "env_ok env" "exec_step env p d = (rc, p', d')" "\<not> d_was_js_error d"
  shows "kept env d d' \<and> (d_was_js_error d' \<longrightarrow> rc \<noteq> SQLITE_ROW \<and> fst (e_finalize env (d_handle d') p') \<noteq> SQLITE_OK)"
proof -
  obtain q js f where e: "e_step env (d_handle d) p = (rc, p', q, js, f)"
    using assms(2) by (auto simp: exec_step_def split: prod.split_asm)
  have d': "d' = d\<lparr>d_handle := q, d_was_js_error := d_was_js_error d \<or> js, d_noria := map_option f (d_noria d)\<rparr>"
    using assms(2) e by (simp add: exec_step_def)
  have "kept env d d'" unfolding d' using env_step(3) [OF assms(1) e]
    by (intro kept_frame) (auto simp: option.rel_map intro!: option.rel_refl_strong)
  then show ?thesis using env_step(4) [OF assms(1) e] assms(3) d' by auto
qed

lemma exec_rows_kept:
  assumes "exec_rows env p d = Some res" "env_ok env" "\<not> d_was_js_error d"
  shows "kept env d (snd res) \<and>
    (d_was_js_error (snd res) \<longrightarrow> fst (e_finalize env (d_handle (snd res)) (fst res)) \<noteq> SQLITE_OK)"
  using assms
proof (induction rule: exec_rows.raw_induct [rotated, consumes 1, case_names step])
  case (step f env p d res)
  obtain rc p1 d1 where one: "exec_step env p d = (rc, p1, d1)" by (metis prod.exhaust)
  note k = exec_step_kept [OF step(3) one step(4)]
  show ?case
  proof (cases "rc = SQLITE_ROW")
    case True
    then have "f env p1 d1 = Some res" "\<not> d_was_js_error d1" using step(2) one k by auto
    from step(1) [OF this(1) step(3) this(2)] k show ?thesis by (auto intro: kept_trans)
  next
    case False
    then show ?thesis using step(2) one k by auto
  qed
qed

lemma exec_finalize_kept:
  assumes "exec_finalize env p d = (rc, d')"
  shows "kept env d d' \<and> rc = fst (e_finalize env (d_handle d) p) \<and> d_was_js_error d' = d_was_js_error d"
  using assms by (auto simp: exec_finalize_def option.rel_refl split: prod.split_asm intro!: kept_frame)

lemma exec_prepare_kept:
  assumes "env_ok env" "exec_prepare env sql d = (rc, h, tail, d')" "\<not> d_was_js_error d"
  shows "kept env d d' \<and> (d_was_js_error d' \<longrightarrow> rc \<noteq> SQLITE_OK \<and> h = None)"
proof -
  obtain h' q js where e: "e_prepare env (d_handle d) (dropWhile IS_SKIPPED sql) False = (rc, h', tail, q, js)"
    using assms(2) by (auto simp: exec_prepare_def split: prod.split_asm)
  have d': "h = map_option fst h'" "d' = d\<lparr>d_handle := q, d_was_js_error := d_was_js_error d \<or> js\<rparr>"
    using assms(2) e by (auto simp: exec_prepare_def)
  have "kept env d d'" unfolding d' by (rule kept_frame) (simp_all add: option.rel_refl)
  then show ?thesis using env_prepare(1,2) [OF assms(1) e] assms(3) d' by auto
qed

lemma exec_loop_kept:
  assumes "exec_loop env sql d = Some res" "env_ok env" "\<not> d_was_js_error d"
  shows "kept env d (snd res) \<and> (fst res = SQLITE_OK \<longrightarrow> \<not> d_was_js_error (snd res))"
  using assms
proof (induction rule: exec_loop.raw_induct [rotated, consumes 1, case_names step])
  case (step f env sql d res)
  obtain rc h tail d1 where pr: "exec_prepare env sql d = (rc, h, tail, d1)" by (metis prod.exhaust)
  note k1 = exec_prepare_kept [OF step(3) pr step(4)]
  show ?case
  proof (cases h)
    case None
    then show ?thesis using step(2) pr k1 by auto
  next
    case (Some p)
    then have js: "\<not> d_was_js_error d1" using k1 by auto
    obtain t d2 where lg: "Log env p d1 = (t, d2)" by (metis prod.exhaust)
    note k2 = Log_kept [OF lg]
    have d2: "kept env d d2" by (rule kept_trans [OF k1 [THEN conjunct1] k2 [THEN conjunct1]])
    show ?thesis
    proof (cases t)
      case True
      then have "res = (SQLITE_CODE (-1), snd (exec_finalize env p d2))" using step(2) pr Some lg by simp
      then show ?thesis using d2 exec_finalize_kept [of env p d2]
        by (cases "exec_finalize env p d2") (auto intro: kept_trans)
    next
      case False
      then have js2: "\<not> d_was_js_error d2" using k2 js by simp
      have "exec_rows env p d2 \<noteq> None" using step(2) pr Some lg False by (intro notI) simp
      then obtain p3 d3 where rw: "exec_rows env p d2 = Some (p3, d3)" by (metis not_None_eq prod.exhaust)
      obtain rc4 d4 where fin: "exec_finalize env p3 d3 = (rc4, d4)" by (metis prod.exhaust)
      note k3 = exec_rows_kept [OF rw step(3) js2] and k4 = exec_finalize_kept [OF fin]
      have d4: "kept env d d4" using kept_trans [OF kept_trans [OF d2]] k3 k4 by auto
      have js4: "rc4 = SQLITE_OK \<Longrightarrow> \<not> d_was_js_error d4" using k3 k4 by auto
      have eq: "(if rc4 \<noteq> SQLITE_OK then Some (rc4, d4) else f env tail d4) = Some res"
        using step(2) pr Some lg False rw fin by simp
      show ?thesis
      proof (cases "rc4 = SQLITE_OK")
        case True
        then have "f env tail d4 = Some res" using eq by simp
        from step(1) [OF this step(3) js4 [OF True]] d4 show ?thesis by (auto intro: kept_trans)
      qed (use eq d4 in auto)
    qed
  qed
qed

lemma JS_exec_ended:
  assumes env: "env_ok env" and q: "quiet d" and r: "JS_exec env info d = Some (r, d')"
  shows "ended env d d'"
proof (cases "d' = d")
  case False
  define sql where "sql = utf8_value (e_v8 env) (string_arg (info ! 0))"
  have b: "(exec_loop env sql (d\<lparr>d_busy := True\<rparr>) \<bind> (\<lambda>(status, d).
      let d = d\<lparr>d_busy := False\<rparr> in
      if status = SQLITE_OK then
        (case d_noria d of None \<Rightarrow> Some (Returns JsUndefined, d)
         | Some n \<Rightarrow> NotifyChange (e_engine env) (e_conn env (d_handle d)) n \<bind> (\<lambda>n. Some (Returns JsUndefined, d\<lparr>d_noria := Some n\<rparr>)))
      else Some (ThrowDatabaseError env d))) = Some (r, d')"
    using r False unfolding JS_exec_def sql_def [symmetric] by (auto dest!: guardedE)
  then have "exec_loop env sql (d\<lparr>d_busy := True\<rparr>) \<noteq> None" by (intro notI) simp
  then obtain st d1 where l: "exec_loop env sql (d\<lparr>d_busy := True\<rparr>) = Some (st, d1)" by (metis not_None_eq prod.exhaust)
  have k: "kept env (d\<lparr>d_busy := True\<rparr>) d1" "st = SQLITE_OK \<longrightarrow> \<not> d_was_js_error d1"
    using exec_loop_kept [OF l env] q by (simp_all add: quiet_def)
  have k1: "kept env d (d1\<lparr>d_busy := False\<rparr>)"
    by (rule kept_trans [OF kept_trans [OF kept_flags(1) k(1)] kept_flags(1)])
  show ?thesis
  proof (cases "st = SQLITE_OK")
    case True
    then have js: "quiet (d1\<lparr>d_busy := False\<rparr>)" using k(2) by (simp add: quiet_def)
    show ?thesis
    proof (cases "d_noria d1")
      case None
      then have "d' = d1\<lparr>d_busy := False\<rparr>" using b l True by simp
      then show ?thesis using k1 js by (simp add: ended_def)
    next
      case (Some n)
      then obtain n' where n': "NotifyChange (e_engine env) (e_conn env (d_handle d1)) n = Some n'"
        "d' = d1\<lparr>d_busy := False, d_noria := Some n'\<rparr>"
        using b l True by (auto simp: bind_eq_Some_conv)
      have "kept env (d1\<lparr>d_busy := False\<rparr>) d'" unfolding n'(2)
        using Some notify_change [OF n'(1)] by (intro kept_frame) auto
      then show ?thesis using k1 js unfolding n'(2) ended_def quiet_def by (auto intro: kept_trans)
    qed
  next
    case False
    then have "d' = snd (ThrowDatabaseError env (d1\<lparr>d_busy := False\<rparr>))" using b l by (simp add: Let_def)
    then show ?thesis using ThrowDatabaseError_ended [OF k1] by simp
  qed
qed (use q in simp)

end
