(* ===== verification/ConnectionInv.thy ===== *)
theory ConnectionInv
  imports ConnectionFrame
begin

text \<open>
  The methods that make or close statements, iterators and backups, and the invariant of a
  connection over every sequence of calls.
\<close>

section \<open>Iterators\<close>

lemma owner_finite: "objects_ok d \<Longrightarrow> finite (dom (owner d))"
proof -
  assume "objects_ok d"
  then have "dom (d_iterator d) \<subseteq> {..<d_next_iterator d}" by (simp add: objects_ok_def)
  moreover have "dom (owner d) \<subseteq> dom (d_iterator d)" by (auto simp: owner_def split: option.split_asm)
  ultimately show ?thesis by (meson finite_lessThan finite_subset)
qed

definition add_iterator :: "nat \<Rightarrow> statement \<Rightarrow> statement_iterator \<Rightarrow> ('q, 'e) database \<Rightarrow> ('q, 'e) database" where
  "add_iterator i s it d = (set_statement i (s\<lparr>st_locked := True\<rparr>) d)\<lparr>
     d_iterators := d_iterators d + 1, d_iterator := (d_iterator d)(d_next_iterator d \<mapsto> it),
     d_next_iterator := d_next_iterator d + 1\<rparr>"

lemma objects_okD:
  assumes "objects_ok d"
  shows "Collect (alive d) = set (d_stmts d)" "distinct (d_stmts d)" "Collect (locked d) = ran (owner d)"
    "Collect (locked d) \<subseteq> Collect (alive d)" "inj_on (owner d) (dom (owner d))" "card (dom (owner d)) = unat (d_iterators d)"
    "d_iterator d j \<noteq> None \<Longrightarrow> j < d_next_iterator d" "d_statement d i \<noteq> None \<Longrightarrow> i < d_next_id d"
    "d_backup d i \<noteq> None \<Longrightarrow> i < d_next_id d" "Collect (backup_alive d) = set (d_backups d)" "distinct (d_backups d)"
    "d_registered d = d_open d" "d_open d \<Longrightarrow> Collect (alive d) = dom (d_statement d)"
    "\<not> d_open d \<Longrightarrow> d_stmts d = []" "\<not> d_open d \<Longrightarrow> d_backups d = []"
  using assms by (auto simp: objects_ok_def split: if_splits)

lemma fresh_iterator: "objects_ok d \<Longrightarrow> owner d (d_next_iterator d) = None"
  using objects_okD(7) [of d "d_next_iterator d"] by (cases "d_iterator d (d_next_iterator d)") (auto simp: owner_def)

lemma open_alive:
  assumes "objects_ok d" "d_open d" "d_statement d i = Some s"
  shows "st_alive s"
proof -
  have "i \<in> Collect (alive d)" unfolding objects_okD(13) [OF assms(1,2)] using assms(3) by blast
  then show ?thesis using assms(3) by (simp add: alive_def)
qed

lemma locked_iff: "objects_ok d \<Longrightarrow> locked d i \<longleftrightarrow> i \<in> ran (owner d)"
  using objects_okD(3) [of d] by auto

lemma add_iterator_ok:
  assumes ok: "objects_ok d" and s: "d_statement d i = Some s" "\<not> st_locked s" "d_open d"
    and n: "d_iterators d \<noteq> USHRT_MAX" and it: "si_alive it" "si_stmt it = i"
  shows "objects_ok (add_iterator i s it d)"
proof -
  let ?d = "add_iterator i s it d" and ?j = "d_next_iterator d"
  have own: "owner ?d = (owner d)(?j \<mapsto> i)"
    using it by (simp add: owner_def add_iterator_def set_statement_def fun_eq_iff)
  have j: "owner d ?j = None" "?j \<notin> dom (owner d)" using fresh_iterator [OF ok] by auto
  have al: "alive ?d = alive d" "backup_alive ?d = backup_alive d"
    using s(1) by (simp_all add: alive_def backup_alive_def add_iterator_def set_statement_def fun_eq_iff)
  have lk: "Collect (locked ?d) = insert i (Collect (locked d))"
    using s(1) by (auto simp: locked_def add_iterator_def set_statement_def)
  have nl: "i \<notin> ran (owner d)" using locked_iff [OF ok, of i] s by (simp add: locked_def)
  have 1: "inj_on (owner ?d) (dom (owner ?d))"
    unfolding own using objects_okD(5) [OF ok] nl j(1) by (auto simp: inj_on_def dom_def ran_def)
  have 2: "ran (owner ?d) = insert i (ran (owner d))" unfolding own using j(1) by simp
  have "dom (owner ?d) = insert ?j (dom (owner d))" unfolding own by simp
  then have "card (dom (owner ?d)) = Suc (unat (d_iterators d))"
    using objects_okD(6) [OF ok] j(2) owner_finite [OF ok] by simp
  moreover have "unat (d_iterators d + 1) = Suc (unat (d_iterators d))"
  proof -
    have "d_iterators d + 1 \<noteq> 0"
    proof
      assume "d_iterators d + 1 = 0"
      then have "d_iterators d = - 1" by (simp add: eq_neg_iff_add_eq_0)
      with n show False by simp
    qed
    then show ?thesis using unatSuc [of "d_iterators d"] by (simp add: add.commute)
  qed
  ultimately have 3: "card (dom (owner ?d)) = unat (d_iterators ?d)" by (simp add: add_iterator_def)
  have 4: "i \<in> Collect (alive d)" using open_alive [OF ok s(3,1)] s(1) by (simp add: alive_def)
  have 5: "dom (d_statement ?d) = dom (d_statement d)" using s(1) by (auto simp: add_iterator_def set_statement_def)
  have 6: "d_stmts ?d = d_stmts d" "d_backups ?d = d_backups d" "d_backup ?d = d_backup d" "d_open ?d = d_open d"
    "d_registered ?d = d_registered d" "d_next_id ?d = d_next_id d"
    by (simp_all add: add_iterator_def set_statement_def)
  have 7: "dom (d_iterator ?d) \<subseteq> {..<d_next_iterator ?d}"
    using ok by (auto simp: objects_ok_def add_iterator_def set_statement_def)
  show ?thesis using ok [unfolded objects_ok_def] 1 3 4 7 unfolding objects_ok_def al lk 2 5 6
    by (elim conjE, intro conjI; (assumption | blast | (simp; fail)))
qed

definition remove_iterator :: "nat \<Rightarrow> statement_iterator \<Rightarrow> statement \<Rightarrow> ('q, 'e) database \<Rightarrow> ('q, 'e) database" where
  "remove_iterator j it s d = set_statement (si_stmt it) (s\<lparr>st_locked := False\<rparr>)
     (d\<lparr>d_iterator := (d_iterator d)(j \<mapsto> it\<lparr>si_alive := False\<rparr>), d_iterators := d_iterators d - 1\<rparr>)"

lemma remove_iterator_ok:
  assumes ok: "objects_ok d" and it: "d_iterator d j = Some it'" "si_alive it'" "si_stmt it' = si_stmt it"
    and s: "d_statement d (si_stmt it) = Some s"
  shows "objects_ok (remove_iterator j it s d)"
proof -
  let ?d = "remove_iterator j it s d" and ?i = "si_stmt it"
  have j: "owner d j = Some ?i" using it by (simp add: owner_def)
  have own: "owner ?d = (owner d)(j := None)"
    by (simp add: owner_def remove_iterator_def set_statement_def fun_eq_iff)
  have al: "alive ?d = alive d" "backup_alive ?d = backup_alive d"
    using s by (simp_all add: alive_def backup_alive_def remove_iterator_def set_statement_def fun_eq_iff)
  have "locked ?d k \<longleftrightarrow> locked d k \<and> k \<noteq> ?i" for k
    using s by (simp add: locked_def remove_iterator_def set_statement_def)
  then have lk: "Collect (locked ?d) = Collect (locked d) - {?i}" by blast
  have uniq: "owner d k = Some ?i \<Longrightarrow> k = j" for k
    by (rule inj_onD [OF objects_okD(5) [OF ok]]) (use j in \<open>simp_all add: domI\<close>)
  have 1: "inj_on (owner ?d) (dom (owner ?d))"
    unfolding own using objects_okD(5) [OF ok] by (auto simp: inj_on_def dom_def)
  have 2: "ran (owner ?d) = ran (owner d) - {?i}" 
  proof (rule set_eqI)
    fix k
    have "(\<exists>l. ((owner d)(j := None)) l = Some k) \<longleftrightarrow> (\<exists>l. l \<noteq> j \<and> owner d l = Some k)" by auto
    also have "\<dots> \<longleftrightarrow> (\<exists>l. owner d l = Some k) \<and> k \<noteq> ?i" using uniq j by (metis option.inject)
    finally show "k \<in> ran (owner ?d) \<longleftrightarrow> k \<in> ran (owner d) - {?i}" unfolding own by (simp add: ran_def)
  qed
  have dm: "dom (owner ?d) = dom (owner d) - {j}" unfolding own by simp
  have c: "card (dom (owner d)) \<noteq> 0" using j owner_finite [OF ok] by (auto simp: card_eq_0_iff)
  have "card (dom (owner ?d)) = unat (d_iterators d) - 1"
    unfolding dm using j owner_finite [OF ok] objects_okD(6) [OF ok] by (simp add: domI)
  moreover have "unat (d_iterators d - 1) = unat (d_iterators d) - 1"
    using c objects_okD(6) [OF ok] by (intro unat_minus_one) (auto simp: unat_eq_0)
  ultimately have 3: "card (dom (owner ?d)) = unat (d_iterators ?d)" by (simp add: remove_iterator_def set_statement_def)
  have 4: "dom (d_statement ?d) = dom (d_statement d)" using s by (auto simp: remove_iterator_def set_statement_def)
  have 5: "dom (d_iterator ?d) = dom (d_iterator d)" using it(1) by (auto simp: remove_iterator_def set_statement_def)
  have 6: "d_stmts ?d = d_stmts d" "d_backups ?d = d_backups d" "d_backup ?d = d_backup d" "d_open ?d = d_open d"
    "d_registered ?d = d_registered d" "d_next_id ?d = d_next_id d" "d_next_iterator ?d = d_next_iterator d"
    by (simp_all add: remove_iterator_def set_statement_def)
  show ?thesis using ok [unfolded objects_ok_def] 1 3 unfolding objects_ok_def al lk 2 4 5 6
    by (elim conjE, intro conjI; (assumption | blast | (simp; fail)))
qed

lemma kept_object_fields:
  assumes "kept env d d'"
  shows "d_open d' = d_open d" "d_iterators d' = d_iterators d"
  using assms by (simp_all add: kept_def)

lemma JS_iterate_inv:
  assumes inv: "conn_inv env d" and r: "JS_iterate env i info d = Some (r, d')"
  shows "conn_inv env d'"
proof -
  obtain s where s: "d_statement d i = Some s" using r by (auto simp: JS_iterate_def bind_eq_Some_conv)
  obtain r0 s0 d0 where st: "STATEMENT_START_LOGIC env [REQUIRE_STATEMENT_RETURNS_DATA s] DOES_ADD_ITERATOR i info s d = (r0, s0, d0)"
    by (metis prod.exhaust)
  note k = START_LOGIC_kept [OF st s]
  have "quiet d0" using k inv by (simp add: conn_inv_def quiet_def)
  then have inv0: "conn_inv env d0" using kept_inv [of env d d0] k inv by simp
  show ?thesis
  proof (cases r0)
    case None
    then have g: "\<not> st_locked s0" "d_open d0" "d_iterators d0 \<noteq> USHRT_MAX"
      using k kept_object_fields [of env d d0] by (auto simp: first_error_None DOES_ADD_ITERATOR_def DOES_NOT_MUTATE_def)
    define it where "it = StatementIterator_new d0 i s0 (st_bound s0)"
    have it: "si_alive it" "si_stmt it = i" by (simp_all add: it_def StatementIterator_new_def)
    have d': "d' = add_iterator i s0 it d0"
      using r s st None by (simp add: JS_iterate_def add_iterator_def it_def set_statement_def)
    have s0: "d_statement d0 i = Some s0" using k by simp
    have "objects_ok d'" unfolding d' using inv0 s0 g it by (intro add_iterator_ok) (simp_all add: conn_inv_def)
    moreover have "all_params (e_v8 env) d'" using inv0 s0 unfolding d'
      by (auto simp: conn_inv_def all_params_def add_iterator_def set_statement_def stmt_params_def)
    moreover have "d_noria d' = d_noria d0" "d_open d' = d_open d0" "quiet d' = quiet d0"
      by (simp_all add: d' add_iterator_def set_statement_def quiet_def)
    ultimately show ?thesis using inv0 noria_ok_cong [of d' d0 env] by (simp add: conn_inv_def)
  next
    case (Some e)
    then have "d' = d0" using r s st by (simp add: JS_iterate_def)
    then show ?thesis using inv0 by simp
  qed
qed

text \<open>Finishing an iterator.\<close>

lemma Cleanup_kept:
  assumes "env_ok env" "d_statement d (si_stmt it) = Some s"
  shows "kept env (remove_iterator j it s d) (Cleanup env j it s d) \<and>
    d_busy (Cleanup env j it s d) = d_busy d \<and> d_was_js_error (Cleanup env j it s d) = d_was_js_error d"
proof -
  let ?i = "si_stmt it" and ?s = "s\<lparr>st_locked := False\<rparr>"
  let ?d = "d\<lparr>d_iterator := (d_iterator d)(j \<mapsto> it\<lparr>si_alive := False\<rparr>), d_iterators := d_iterators d - 1\<rparr>"
  obtain rc s' d' where r: "do_reset env ?i ?s ?d = (rc, s', d')" by (metis prod.exhaust)
  have r': "do_reset env ?i ?s (set_statement ?i ?s ?d) = (rc, s', d')"
    using r by (simp add: do_reset_def set_statement_def Let_def split: prod.split_asm)
  have "d_statement (set_statement ?i ?s ?d) ?i = Some ?s" by (simp add: set_statement_def)
  note k = do_reset_kept [OF assms(1) this r']
  have c: "Cleanup env j it s d = d'" using r by (simp add: Cleanup_def Let_def)
  show ?thesis unfolding c remove_iterator_def using k by (simp add: set_statement_def)
qed

lemma remove_iterator_inv:
  assumes "objects_ok d" "all_params (e_v8 env) d" "noria_ok env d"
    and "d_iterator d j = Some it'" "si_alive it'" "si_stmt it' = si_stmt it" "d_statement d (si_stmt it) = Some s"
    and "kept env (remove_iterator j it s d) d'" "quiet d'"
  shows "conn_inv env d'"
proof -
  let ?r = "(remove_iterator j it s d)\<lparr>d_busy := False, d_was_js_error := False\<rparr>"
  have k0: "kept env ?r (remove_iterator j it s d)" by (rule kept_frame) (simp_all add: option.rel_refl)
  have k: "kept env ?r d'" by (rule kept_trans [OF k0 assms(8)])
  have "objects_ok (remove_iterator j it s d)" by (rule remove_iterator_ok [OF assms(1,4-7)])
  then have "objects_ok ?r" using kept_objects [OF k0] by simp
  moreover have "all_params (e_v8 env) ?r" using assms(2,7)
    by (auto simp: all_params_def remove_iterator_def set_statement_def stmt_params_def)
  moreover have "noria_ok env ?r = noria_ok env d" by (rule noria_ok_cong) (simp_all add: remove_iterator_def set_statement_def)
  ultimately have "conn_inv env ?r" using assms(3) by (simp add: conn_inv_def quiet_def)
  then show ?thesis using kept_inv [OF k] assms(9) by simp
qed

lemma finish_inv:
  assumes env: "env_ok env" and inv: "objects_ok d" "all_params (e_v8 env) d" "noria_ok env d" "\<not> d_busy d"
    and it: "d_iterator d j = Some it'" "si_alive it'" "si_stmt it' = si_stmt it" "d_statement d (si_stmt it) = Some s"
  shows "Throw env j it s d = (r, d') \<Longrightarrow> conn_inv env d'"
    "\<not> d_was_js_error d \<Longrightarrow> Return env j it s d = (r, d') \<Longrightarrow> conn_inv env d'"
proof -
  note k = Cleanup_kept [OF env it(4), of j]
  let ?c = "Cleanup env j it s d"
  have c: "conn_inv env d'" if "kept env ?c d'" "quiet d'" for d'
    using remove_iterator_inv [OF inv(1-3) it kept_trans [OF k [THEN conjunct1] that(1)] that(2)] .
  have t: "kept env ?c (snd (STATEMENT_THROW_LOGIC env i b ?c)) \<and> quiet (snd (STATEMENT_THROW_LOGIC env i b ?c))" for i b
    using k inv(4) by (auto simp: STATEMENT_THROW_LOGIC_def ThrowDatabaseError_def quiet_def
      intro: kept_trans [OF kept_flags(2) clear_kept] clear_kept)
  show "Throw env j it s d = (r, d') \<Longrightarrow> conn_inv env d'"
    using c [OF t [THEN conjunct1] t [THEN conjunct2], of "si_stmt it" "si_bound it"] by (simp add: Throw_def)
  have u: "kept env ?c (snd (STATEMENT_RETURN_LOGIC i b v ?c)) \<and> quiet (snd (STATEMENT_RETURN_LOGIC i b v ?c))"
    if "\<not> d_was_js_error d" for i b v
    using k inv(4) that by (auto simp: STATEMENT_RETURN_LOGIC_def quiet_def intro: clear_kept)
  show "\<not> d_was_js_error d \<Longrightarrow> Return env j it s d = (r, d') \<Longrightarrow> conn_inv env d'"
    using c [OF u [THEN conjunct1] u [THEN conjunct2], of "si_stmt it" "si_bound it" "DoneRecord env"] by (simp add: Return_def)
qed

lemma kept_iterator:
  assumes "d_iterator d j = Some it" "si_alive it' = si_alive it" "si_stmt it' = si_stmt it"
  shows "kept env d (d\<lparr>d_iterator := (d_iterator d)(j \<mapsto> it')\<rparr>)"
proof -
  let ?d = "d\<lparr>d_iterator := (d_iterator d)(j \<mapsto> it')\<rparr>"
  have "owner ?d = owner d" using assms by (simp add: owner_def fun_eq_iff)
  moreover have "dom (d_iterator ?d) = dom (d_iterator d)" using assms(1) by auto
  moreover have "alive ?d = alive d" "locked ?d = locked d" "backup_alive ?d = backup_alive d" "all_params v8 ?d = all_params v8 d" for v8
    by (rule view_cong; simp)+
  ultimately show ?thesis unfolding kept_def by (simp add: option.rel_refl)
qed

lemma iterator_kept:
  "do_step env i s d = (rc, s', d') \<Longrightarrow> d_iterator d' = d_iterator d" "Log env p d = (t, d') \<Longrightarrow> d_iterator d' = d_iterator d"
  by (auto simp: do_step_def set_statement_def Log_def Let_def split: prod.split_asm if_splits)

lemma inv_parts:
  assumes "kept env d d'" "conn_inv env d"
  shows "objects_ok d'" "all_params (e_v8 env) d'" "noria_ok env d'"
proof -
  have "kept env d (d'\<lparr>d_busy := False, d_was_js_error := False\<rparr>)"
    by (rule kept_trans [OF assms(1)], rule kept_frame) (simp_all add: option.rel_refl)
  from kept_inv [OF this assms(2)] have c: "conn_inv env (d'\<lparr>d_busy := False, d_was_js_error := False\<rparr>)" by (simp add: quiet_def)
  have k: "kept env (d'\<lparr>d_busy := False, d_was_js_error := False\<rparr>) d'" by (rule kept_frame) (simp_all add: option.rel_refl)
  show "objects_ok d'" "all_params (e_v8 env) d'"
    using c kept_objects [OF k] k by (simp_all add: conn_inv_def kept_def)
  show "noria_ok env d'" using c noria_ok_cong [of "d'\<lparr>d_busy := False, d_was_js_error := False\<rparr>" d' env] by (simp add: conn_inv_def)
qed

lemma Next_inv:
  assumes env: "env_ok env" and inv: "conn_inv env d" and it: "d_iterator d j = Some it" "si_alive it"
    and s: "d_statement d (si_stmt it) = Some s" and r: "Next env j it s d = (r, d')"
  shows "conn_inv env d'"
proof -
  define lg where "lg = (if si_logged it then (False, it, d\<lparr>d_busy := True\<rparr>)
     else let it = it\<lparr>si_logged := True\<rparr>;
              (t, d) = Log env (st_handle s) (d\<lparr>d_busy := True, d_iterator := (d_iterator (d\<lparr>d_busy := True\<rparr>))(j \<mapsto> it)\<rparr>)
          in (t, it, d))"
  obtain t it1 d1 where l: "lg = (t, it1, d1)" by (metis prod.exhaust)
  have q: "\<not> d_was_js_error d" using inv by (simp add: conn_inv_def quiet_def)
  have k1: "kept env d d1 \<and> d_statement d1 = d_statement d \<and> d_iterator d1 j = Some it1 \<and> si_alive it1 \<and> si_stmt it1 = si_stmt it \<and>
    d_was_js_error d1 = t"
  proof (cases "si_logged it")
    case True
    then show ?thesis using l it q unfolding lg_def by auto
  next
    case False
    let ?it = "it\<lparr>si_logged := True\<rparr>"
    let ?d = "d\<lparr>d_busy := True, d_iterator := (d_iterator d)(j \<mapsto> ?it)\<rparr>"
    have g: "Log env (st_handle s) ?d = (t, d1)" "it1 = ?it" using l False unfolding lg_def by (auto simp: Let_def split: prod.split_asm)
    have "kept env (d\<lparr>d_busy := True\<rparr>) ?d"
      using kept_iterator [of "d\<lparr>d_busy := True\<rparr>" j it ?it env] it(1) by simp
    then have "kept env d ?d" by (rule kept_trans [OF kept_flags(1)])
    then have "kept env d d1" using Log_kept [OF g(1)] by (blast intro: kept_trans)
    then show ?thesis using Log_kept [OF g(1)] iterator_kept(2) [OF g(1)] g(2) it(2) q by simp
  qed
  have s1: "d_statement d1 (si_stmt it1) = Some s" using k1 s by simp
  have N: "(if t then Throw env j it1 s (d1\<lparr>d_busy := False\<rparr>)
      else let (status, s, d) = do_step env (si_stmt it1) s d1; d = d\<lparr>d_busy := False\<rparr>
        in if status = SQLITE_ROW then (Returns (NewRecord env (GetRowJS (e_v8 env) (st_handle s) (si_safe_ints it1) (si_mode it1)) False), d)
           else if status = SQLITE_DONE then Return env j it1 s d else Throw env j it1 s d) = (r, d')"
    using r [unfolded Next_def, unfolded Let_def [of "d\<lparr>d_busy := True\<rparr>"], folded lg_def] unfolding l by simp
  show ?thesis
  proof (cases t)
    case True
    have "kept env d (d1\<lparr>d_busy := False\<rparr>)" by (rule kept_trans [OF k1 [THEN conjunct1] kept_flags(1)])
    note p = inv_parts [OF this inv]
    show ?thesis by (rule finish_inv(1) [OF env p, of j it1]) (use k1 s1 N True in simp_all)
  next
    case False
    obtain st s2 d2 where step: "do_step env (si_stmt it1) s d1 = (st, s2, d2)" by (metis prod.exhaust)
    note k2 = do_step_kept [OF env s1 step]
    let ?d = "d2\<lparr>d_busy := False\<rparr>"
    have k3: "kept env d ?d" by (rule kept_trans [OF kept_trans [OF k1 [THEN conjunct1] k2 [THEN conjunct1]] kept_flags(1)])
    note p = inv_parts [OF k3 inv]
    have i2: "d_iterator ?d j = Some it1" "si_alive it1" "si_stmt it1 = si_stmt it1" "d_statement ?d (si_stmt it1) = Some s2"
      using iterator_kept(1) [OF step] k1 k2 by simp_all
    have js: "st = SQLITE_ROW \<or> st = SQLITE_DONE \<Longrightarrow> \<not> d_was_js_error ?d" using k1 k2 False by auto
    consider "st = SQLITE_ROW" | "st = SQLITE_DONE" | "st \<noteq> SQLITE_ROW" "st \<noteq> SQLITE_DONE" by blast
    then show ?thesis
    proof cases
      case 1
      then have "d' = ?d" using N False step by simp
      then show ?thesis using p js 1 by (simp add: conn_inv_def quiet_def)
    next
      case 2
      then have "Return env j it1 s2 ?d = (r, d')" using N False step by simp
      from finish_inv(2) [OF env p _ i2 js this] 2 show ?thesis by simp
    next
      case 3
      then have "Throw env j it1 s2 ?d = (r, d')" using N False step by simp
      from finish_inv(1) [OF env p _ i2 this] show ?thesis by simp
    qed
  qed
qed

lemma iterator_call_inv:
  assumes env: "env_ok env" and inv: "conn_inv env d"
  shows "JS_next env j d = Some (r, d') \<Longrightarrow> conn_inv env d'" "JS_return env j d = Some (r, d') \<Longrightarrow> conn_inv env d'"
proof -
  have q: "\<not> d_busy d" "\<not> d_was_js_error d" using inv by (simp_all add: conn_inv_def quiet_def)
  then have nb: "REQUIRE_DATABASE_NOT_BUSY d = None" by simp
  note p = inv_parts [OF kept_refl inv]
  have dead: "JS_next env j d = Some (Returns (DoneRecord env), d)" "JS_return env j d = Some (Returns (DoneRecord env), d)"
    if "d_iterator d j = Some it" "\<not> si_alive it" for it
    using that by (simp_all add: JS_next_def JS_return_def nb del: guard_None)
  have live: "JS_next env j d = map_option (\<lambda>s. Next env j it s d) (d_statement d (si_stmt it))"
      "JS_return env j d = map_option (\<lambda>s. Return env j it s d) (d_statement d (si_stmt it))"
    if "d_iterator d j = Some it" "si_alive it" for it
    using that by (cases "d_statement d (si_stmt it)"; simp add: JS_next_def JS_return_def nb del: guard_None)+
  have none: "JS_next env j d = None" "JS_return env j d = None" if "d_iterator d j = None"
    using that by (simp_all add: JS_next_def JS_return_def)
  show "JS_next env j d = Some (r, d') \<Longrightarrow> conn_inv env d'"
  proof (cases "d_iterator d j")
    case (Some it)
    assume "JS_next env j d = Some (r, d')"
    then show ?thesis using dead(1) [OF Some] live(1) [OF Some] Next_inv [OF env inv Some] inv by (cases "si_alive it") auto
  qed (simp add: none)
  show "JS_return env j d = Some (r, d') \<Longrightarrow> conn_inv env d'"
  proof (cases "d_iterator d j")
    case (Some it)
    assume "JS_return env j d = Some (r, d')"
    then show ?thesis using dead(2) [OF Some] live(2) [OF Some] finish_inv(2) [OF env p q(1) Some _ refl _ q(2)] inv
      by (cases "si_alive it") auto
  qed (simp add: none)
qed

section \<open>Making and closing\<close>

definition add_statement :: "statement \<Rightarrow> 'e noria option \<Rightarrow> ('q, 'e) database \<Rightarrow> ('q, 'e) database" where
  "add_statement s n d = set_statement (d_next_id d) s
     (d\<lparr>d_next_id := d_next_id d + 1, d_stmts := d_stmts d @ [d_next_id d], d_noria := n\<rparr>)"

lemma fresh_id:
  assumes "objects_ok d"
  shows "d_statement d (d_next_id d) = None" "d_backup d (d_next_id d) = None"
    "d_next_id d \<notin> set (d_stmts d)" "d_next_id d \<notin> set (d_backups d)"
proof -
  show n: "d_statement d (d_next_id d) = None" "d_backup d (d_next_id d) = None"
    using objects_okD(8,9) [OF assms, of "d_next_id d"] by (metis less_irrefl)+
  show "d_next_id d \<notin> set (d_stmts d)" "d_next_id d \<notin> set (d_backups d)"
    unfolding objects_okD(1,10) [OF assms, symmetric] using n by (simp_all add: alive_def backup_alive_def)
qed

lemma add_statement_ok:
  assumes ok: "objects_ok d" and "d_open d" "st_alive s" "\<not> st_locked s"
  shows "objects_ok (add_statement s n d)"
proof -
  let ?d = "add_statement s n d" and ?i = "d_next_id d"
  have st: "d_statement ?d = (d_statement d)(?i \<mapsto> s)" by (simp add: add_statement_def set_statement_def)
  have "alive ?d k \<longleftrightarrow> alive d k \<or> k = ?i" "locked ?d k \<longleftrightarrow> locked d k" for k
    using assms(3,4) fresh_id(1) [OF ok] by (simp_all add: alive_def locked_def st)
  then have al: "Collect (alive ?d) = insert ?i (Collect (alive d))" and lk: "locked ?d = locked d" by (blast, simp add: fun_eq_iff)
  have v: "owner ?d = owner d" "backup_alive ?d = backup_alive d"
    by (rule view_cong; simp add: add_statement_def set_statement_def)+
  have f: "set (d_stmts ?d) = insert ?i (set (d_stmts d))" "distinct (d_stmts ?d)" "d_backups ?d = d_backups d" "d_backup ?d = d_backup d"
    "d_open ?d = d_open d" "d_registered ?d = d_registered d" "d_next_id ?d = Suc ?i" "d_next_iterator ?d = d_next_iterator d"
    "d_iterator ?d = d_iterator d" "d_iterators ?d = d_iterators d" "dom (d_statement ?d) = insert ?i (dom (d_statement d))"
    using fresh_id(3) [OF ok] objects_okD(2) [OF ok] by (auto simp: add_statement_def set_statement_def)
  have sub: "dom (d_statement d) \<union> dom (d_backup d) \<subseteq> {..<?i}" using ok by (simp add: objects_ok_def)
  have 1: "insert ?i (Collect (alive d)) = insert ?i (set (d_stmts d))" using objects_okD(1) [OF ok] by simp
  have 2: "Collect (locked d) \<subseteq> insert ?i (Collect (alive d))" using objects_okD(4) [OF ok] by blast
  have 3: "insert ?i (dom (d_statement d)) \<union> dom (d_backup d) \<subseteq> {..<Suc ?i}" using sub by (auto intro: less_SucI)
  have 4: "if d_open d then insert ?i (Collect (alive d)) = insert ?i (dom (d_statement d)) else d_stmts ?d = [] \<and> d_backups d = []"
    using assms(2) objects_okD(13) [OF ok] by simp
  show ?thesis unfolding objects_ok_def al lk v f(1,3-)
    using ok [unfolded objects_ok_def] by (elim conjE) (intro conjI 1 2 3 4 f(2); assumption)
qed

lemma TryRegister_kept:
  assumes "TryRegisterNoriaView env s d = (s', d')"
  shows "d' = d\<lparr>d_noria := d_noria d'\<rparr> \<and> rel_option (noria_step (e_engine env))\<^sup>*\<^sup>* (d_noria d) (d_noria d') \<and>
    st_alive s' = st_alive s \<and> st_locked s' = st_locked s \<and> stmt_params v8 s' = stmt_params v8 s"
proof (cases "d' = d \<and> s' = s")
  case False
  then obtain n sql where n: "d_noria d = Some n" "st_sql s = Some sql" "st_returns_data s" "\<not> 0 \<le> st_noria_view_id s" "IsEnabled n"
    using assms by (auto simp: TryRegisterNoriaView_def split: if_splits option.split_asm)
  obtain v n' where v: "RegisterView (e_engine env) (e_conn env (d_handle d)) sql n = (v, n')" by (metis prod.exhaust)
  have "noria_step (e_engine env) n n'"
    using register_view [of "e_engine env" n "e_conn env (d_handle d)" sql] v by simp
  moreover have "d' = d\<lparr>d_noria := Some n'\<rparr>"
      "s' = (if v \<ge> 0 then CacheColumnNames (e_v8 env) (s\<lparr>st_noria_view_id := v\<rparr>) else s)"
    using assms n v by (auto simp: TryRegisterNoriaView_def)
  ultimately show ?thesis using n(1) by (auto simp: CacheColumnNames_def stmt_params_def)
qed (simp add: option.rel_refl)

lemma add_statement_inv:
  assumes "conn_inv env d" "d_open d" "st_alive s" "\<not> st_locked s" "stmt_params (e_v8 env) s"
    and "rel_option (noria_step (e_engine env))\<^sup>*\<^sup>* (d_noria d) n"
  shows "conn_inv env (add_statement s n d)"
proof -
  have ok: "objects_ok d" "all_params (e_v8 env) d" "quiet d" "noria_ok env d" using assms(1) by (simp_all add: conn_inv_def)
  have "noria_ok env (add_statement s n d)"
    using ok(4) assms(2,6) by (cases "d_noria d"; cases n)
      (auto simp: noria_ok_def add_statement_def set_statement_def dest: noria_reach_steps)
  moreover have "all_params (e_v8 env) (add_statement s n d)"
    using ok(2) assms(5) by (auto simp: all_params_def add_statement_def set_statement_def)
  moreover have "quiet (add_statement s n d)" using ok(3) by (simp add: quiet_def add_statement_def set_statement_def)
  ultimately show ?thesis using add_statement_ok [OF ok(1) assms(2-4)] by (simp add: conn_inv_def)
qed

lemma ended_inv: "ended env d d' \<Longrightarrow> conn_inv env d \<Longrightarrow> conn_inv env d'"
  using kept_inv by (auto simp: ended_def)

lemma Statement_JS_new_inv:
  assumes env: "env_ok env" and inv: "conn_inv env d" and r: "Statement_JS_new env src pragma d = (r, d')"
  shows "conn_inv env d'"
proof (cases "d' = d")
  case False
  then have g: "d_open d" using r by (auto simp: Statement_JS_new_def first_error_None dest!: guardedE)
  have q: "quiet d" using inv by (simp add: conn_inv_def)
  obtain rc h tail q' js where e: "e_prepare env (d_handle d) (utf8_value (e_v8 env) src) (\<not> pragma) = (rc, h, tail, q', js)"
    by (metis prod.exhaust)
  define d1 where "d1 = d\<lparr>d_handle := q', d_was_js_error := d_was_js_error d \<or> js\<rparr>"
  have k1: "kept env d d1" unfolding d1_def by (rule kept_frame) (simp_all add: option.rel_refl)
  have nb: "\<not> d_busy d1" using q by (simp add: d1_def quiet_def)
  have body: "(if rc \<noteq> SQLITE_OK then ThrowDatabaseError env d1
      else case h of None \<Rightarrow> (Throws (RangeError (lit ''The supplied SQL string contains no statements'')), d1)
        | Some (p, sql) \<Rightarrow>
           if \<not> tail_scan tail then (Throws (RangeError (lit ''The supplied SQL string contains more than one statement'')),
             d1\<lparr>d_handle := snd (e_finalize env (d_handle d1) p)\<rparr>)
           else let returns_data = (sqlite3_column_count p \<ge> 1 \<or> pragma); i = d_next_id d1; s = Statement_new d1 p sql returns_data;
               d = AddStatement i (d1\<lparr>d_next_id := d_next_id d1 + 1\<rparr>);
               (s, d) = (if returns_data \<and> \<not> pragma then TryRegisterNoriaView env s d else (s, d));
               s = (if \<not> returns_data then case DetectStatementType (st_sql s) of (ty, name) \<Rightarrow> s\<lparr>st_stmt_type := ty, st_table_name := name\<rparr> else s)
             in (ReturnsNew i, set_statement i s d)) = (r, d')"
    using r False e unfolding Statement_JS_new_def d1_def by (auto simp: Let_def dest!: guardedE)
  show ?thesis
  proof (cases "rc = SQLITE_OK")
    case False
    then have "d' = snd (ThrowDatabaseError env d1)" using body by simp
    then show ?thesis using ThrowDatabaseError_ended [OF k1 nb] ended_inv inv by blast
  next
    case ok: True
    have js: "\<not> js" using env_prepare(1) [OF env e] ok by blast
    have q1: "quiet d1" using q js by (simp add: d1_def quiet_def)
    have inv1: "conn_inv env d1" by (rule kept_inv [OF k1 inv q1])
    show ?thesis
    proof (cases h)
      case None
      then show ?thesis using body ok inv1 by simp
    next
      case (Some ps)
      obtain p sql where h: "h = Some (p, sql)" using Some by (cases ps) auto
      show ?thesis
      proof (cases "tail_scan tail")
        case False
        then have "d' = d1\<lparr>d_handle := snd (e_finalize env (d_handle d1) p)\<rparr>" using body ok h by simp
        then show ?thesis using ended_inv [OF ended_frame(1) inv1] q1 by simp
      next
        case True
        define rd where "rd = (sqlite3_column_count p \<ge> 1 \<or> pragma)"
        define s0 where "s0 = Statement_new d1 p sql rd"
        define d2 where "d2 = AddStatement (d_next_id d1) (d1\<lparr>d_next_id := d_next_id d1 + 1\<rparr>)"
        obtain s1 d3 where t: "(if rd \<and> \<not> pragma then TryRegisterNoriaView env s0 d2 else (s0, d2)) = (s1, d3)" by (metis prod.exhaust)
        define s2 where "s2 = (if \<not> rd then case DetectStatementType (st_sql s1) of (ty, name) \<Rightarrow> s1\<lparr>st_stmt_type := ty, st_table_name := name\<rparr> else s1)"
        have "(case (if rd \<and> \<not> pragma then TryRegisterNoriaView env s0 d2 else (s0, d2)) of (s, d) \<Rightarrow>
            (ReturnsNew (d_next_id d1), set_statement (d_next_id d1)
              (if \<not> rd then case DetectStatementType (st_sql s) of (ty, name) \<Rightarrow> s\<lparr>st_stmt_type := ty, st_table_name := name\<rparr> else s) d)) = (r, d')"
          using body ok h True unfolding s0_def d2_def rd_def Let_def by simp
        then have d': "d' = set_statement (d_next_id d1) s2 d3" unfolding t s2_def by simp
        have k: "d3 = d2\<lparr>d_noria := d_noria d3\<rparr> \<and> rel_option (noria_step (e_engine env))\<^sup>*\<^sup>* (d_noria d2) (d_noria d3) \<and>
          st_alive s1 = st_alive s0 \<and> st_locked s1 = st_locked s0 \<and> stmt_params (e_v8 env) s1 = stmt_params (e_v8 env) s0"
          using t TryRegister_kept [of env s0 d2 s1 d3 "e_v8 env"] by (auto simp: option.rel_refl split: if_splits)
        have s0: "st_alive s0" "\<not> st_locked s0" "stmt_params (e_v8 env) s0"
          using env_prepare(3) [OF env e h] by (simp_all add: s0_def Statement_new_def stmt_params_def params_ok_def)
        have s2: "st_alive s2" "\<not> st_locked s2" "stmt_params (e_v8 env) s2"
          using k s0 by (auto simp: s2_def stmt_params_def split: prod.split)
        define n where "n = d_noria d3"
        have d3: "d3 = d2\<lparr>d_noria := n\<rparr>" using k by (simp add: n_def)
        have "d' = add_statement s2 n d1" unfolding d' d3 d2_def AddStatement_def add_statement_def by simp
        moreover have "d_open d1" using g by (simp add: d1_def)
        moreover have "rel_option (noria_step (e_engine env))\<^sup>*\<^sup>* (d_noria d1) n" using k by (simp add: n_def d2_def AddStatement_def)
        ultimately show ?thesis using add_statement_inv [OF inv1 _ s2] by simp
      qed
    qed
  qed
qed (use inv in simp)

text \<open>Closing.\<close>

definition mark :: "('a \<Rightarrow> 'a) \<Rightarrow> nat set \<Rightarrow> (nat \<Rightarrow> 'a option) \<Rightarrow> nat \<Rightarrow> 'a option" where
  "mark f K m k = (if k \<in> K then map_option f (m k) else m k)"

lemma mark_simps:
  "mark f {} m = m" "m i = Some x \<Longrightarrow> mark f {i} m = m(i \<mapsto> f x)" "m i = None \<Longrightarrow> mark f {i} m = m"
  by (auto simp: mark_def fun_eq_iff)

lemma mark_mark: "(\<And>x. f (f x) = f x) \<Longrightarrow> mark f K (mark f {i} m) = mark f (insert i K) m"
  by (auto simp: mark_def fun_eq_iff option.map_comp o_def)

lemma close_statement: "Statement_CloseHandles i d = d\<lparr>d_statement := mark (st_alive_update (\<lambda>_. False)) {i} (d_statement d)\<rparr>"
proof (cases "d_statement d i")
  case (Some s)
  show ?thesis
  proof (cases "st_alive s")
    case True
    then show ?thesis by (simp add: Statement_CloseHandles_def Some set_statement_def mark_simps(2) [of "d_statement d", OF Some])
  next
    case False
    then have "s\<lparr>st_alive := False\<rparr> = s" by (cases s) simp
    then have "mark (st_alive_update (\<lambda>_. False)) {i} (d_statement d) = d_statement d"
      unfolding mark_simps(2) [of "d_statement d", OF Some] using Some by (simp add: fun_upd_idem)
    then show ?thesis using False by (simp add: Statement_CloseHandles_def Some)
  qed
qed (simp add: Statement_CloseHandles_def mark_simps)

lemma close_backup: "Backup_CloseHandles i d = d\<lparr>d_backup := mark (bk_alive_update (\<lambda>_. False)) {i} (d_backup d)\<rparr>"
proof (cases "d_backup d i")
  case (Some b)
  show ?thesis
  proof (cases "bk_alive b")
    case True
    then show ?thesis by (simp add: Backup_CloseHandles_def Some mark_simps(2) [of "d_backup d", OF Some])
  next
    case False
    then have "b\<lparr>bk_alive := False\<rparr> = b" by (cases b) simp
    then have "mark (bk_alive_update (\<lambda>_. False)) {i} (d_backup d) = d_backup d"
      unfolding mark_simps(2) [of "d_backup d", OF Some] using Some by (simp add: fun_upd_idem)
    then show ?thesis using False by (simp add: Backup_CloseHandles_def Some)
  qed
qed (simp add: Backup_CloseHandles_def mark_simps)

lemma close_statements:
  "fold Statement_CloseHandles ks d = d\<lparr>d_statement := mark (st_alive_update (\<lambda>_. False)) (set ks) (d_statement d)\<rparr>"
  by (induction ks arbitrary: d) (simp_all add: close_statement mark_simps mark_mark)

lemma close_backups:
  "fold Backup_CloseHandles ks d = d\<lparr>d_backup := mark (bk_alive_update (\<lambda>_. False)) (set ks) (d_backup d)\<rparr>"
  by (induction ks arbitrary: d) (simp_all add: close_backup mark_simps mark_mark)

lemma CloseHandles_inv:
  assumes inv: "conn_inv env d" and "d_open d" "d_iterators d = 0"
  shows "conn_inv env (CloseHandles (d\<lparr>d_registered := False\<rparr>))"
proof -
  let ?d = "CloseHandles (d\<lparr>d_registered := False\<rparr>)"
  have ok: "objects_ok d" "all_params (e_v8 env) d" "quiet d" using inv by (simp_all add: conn_inv_def)
  have c: "?d = d\<lparr>d_registered := False, d_open := False,
      d_statement := mark (st_alive_update (\<lambda>_. False)) (set (d_stmts d)) (d_statement d),
      d_backup := mark (bk_alive_update (\<lambda>_. False)) (set (d_backups d)) (d_backup d),
      d_stmts := [], d_backups := [], d_noria := None\<rparr>"
    using assms(2) by (simp add: CloseHandles_def close_statements close_backups)
  have "\<not> alive ?d k" for k
  proof -
    have "k \<in> set (d_stmts d) \<longleftrightarrow> alive d k" using objects_okD(1) [OF ok(1)] by auto
    then show ?thesis unfolding c by (cases "d_statement d k") (simp_all add: alive_def mark_def)
  qed
  then have al: "Collect (alive ?d) = {}" by simp
  have "\<not> backup_alive ?d k" for k
  proof -
    have "k \<in> set (d_backups d) \<longleftrightarrow> backup_alive d k" using objects_okD(10) [OF ok(1)] by auto
    then show ?thesis unfolding c by (cases "d_backup d k") (simp_all add: backup_alive_def mark_def)
  qed
  then have ba: "Collect (backup_alive ?d) = {}" by simp
  have e: "dom (owner d) = {}" using objects_okD(6) [OF ok(1)] owner_finite [OF ok(1)] assms(3) by simp
  have own: "owner ?d = owner d" by (rule view_cong) (simp add: c)
  have "locked ?d k = locked d k" for k unfolding c by (cases "d_statement d k") (simp_all add: locked_def mark_def)
  then have lk: "Collect (locked ?d) = {}" using objects_okD(3) [OF ok(1)] e by (auto simp: ran_def)
  have dm: "dom (d_statement ?d) = dom (d_statement d)" "dom (d_backup ?d) = dom (d_backup d)"
    by (auto simp: c mark_def split: if_splits)
  have rest: "dom (d_iterator d) \<subseteq> {..<d_next_iterator d}" "dom (d_statement d) \<union> dom (d_backup d) \<subseteq> {..<d_next_id d}"
    using ok(1) by (simp_all add: objects_ok_def)
  have "objects_ok ?d" unfolding objects_ok_def al ba lk own dm using rest e assms(3) by (simp add: c ran_def dom_def)
  moreover have "all_params (e_v8 env) ?d"
    using ok(2) by (auto simp: c all_params_def stmt_params_def mark_def split: if_splits)
  moreover have "quiet ?d" "noria_ok env ?d" using ok(3) by (simp_all add: c quiet_def noria_ok_def)
  ultimately show ?thesis by (simp add: conn_inv_def)
qed

lemma JS_close_inv:
  assumes "conn_inv env d" "JS_close d = Some (r, d')"
  shows "conn_inv env d'"
proof (cases "d' = d")
  case False
  then have "d_open d" "d_iterators d = 0" "d' = CloseHandles (d\<lparr>d_registered := False\<rparr>)"
    using assms(2) by (auto simp: JS_close_def first_error_None dest!: guardedE split: if_splits)
  then show ?thesis using CloseHandles_inv [OF assms(1)] by simp
qed (use assms in simp)

lemma JS_backup_inv:
  assumes inv: "conn_inv env d" and r: "JS_backup env info d = Some (r, d')"
  shows "conn_inv env d'"
proof (cases "d' = d")
  case False
  obtain e q where b: "e_backup_open env (d_handle d) (utf8_value (e_v8 env) (string_arg (info ! 2))) (utf8_value (e_v8 env) (string_arg (info ! 1))) = (e, q)"
    by (metis prod.exhaust)
  have op: "d_open d" using r False by (auto simp: JS_backup_def first_error_None dest!: guardedE)
  have qt: "quiet d" and ok: "objects_ok d" using inv by (simp_all add: conn_inv_def)
  show ?thesis
  proof (cases e)
    case (Some err)
    then have "d' = d\<lparr>d_handle := q\<rparr>" using r False b by (auto simp: JS_backup_def dest!: guardedE)
    then show ?thesis using ended_inv [OF ended_frame(1) [OF qt] inv] by simp
  next
    case None
    define bk where "bk = \<lparr>bk_alive = True, bk_unlink = bool_arg (info ! 3)\<rparr>"
    let ?i = "d_next_id d"
    have d': "d' = d\<lparr>d_handle := q, d_next_id := Suc ?i, d_backup := (d_backup d)(?i \<mapsto> bk), d_backups := d_backups d @ [?i]\<rparr>"
      using r False b None by (auto simp: JS_backup_def AddBackup_def bk_def dest!: guardedE)
    have v: "owner d' = owner d" "alive d' = alive d" "locked d' = locked d" "all_params v8 d' = all_params v8 d" for v8
      by (rule view_cong; simp add: d')+
    have "backup_alive d' k \<longleftrightarrow> backup_alive d k \<or> k = ?i" for k
      using fresh_id(2) [OF ok] by (simp add: backup_alive_def d' bk_def)
    then have ba: "Collect (backup_alive d') = insert ?i (Collect (backup_alive d))" by blast
    have sub: "dom (d_statement d) \<union> dom (d_backup d) \<subseteq> {..<?i}" using ok by (simp add: objects_ok_def)
    then have sub': "dom (d_statement d') \<union> dom (d_backup d') \<subseteq> {..<d_next_id d'}" by (auto simp: d' intro: less_SucI)
    have f: "d_stmts d' = d_stmts d" "d_open d' = d_open d" "d_registered d' = d_registered d" "d_iterator d' = d_iterator d"
      "d_iterators d' = d_iterators d" "d_next_iterator d' = d_next_iterator d" "d_statement d' = d_statement d"
      by (simp_all add: d')
    have bs: "insert ?i (Collect (backup_alive d)) = set (d_backups d')" "distinct (d_backups d')"
      using objects_okD(10,11) [OF ok] fresh_id(4) [OF ok] by (auto simp: d')
    have if_open: "if d_open d then Collect (alive d) = dom (d_statement d) else d_stmts d = [] \<and> d_backups d' = []"
      using op objects_okD(13) [OF ok] by simp
    have "objects_ok d'" unfolding objects_ok_def v(1-3) ba f
      using ok [unfolded objects_ok_def] by (elim conjE) (intro conjI bs sub' [unfolded f] if_open; assumption)
    moreover have "noria_ok env d' = noria_ok env d" by (rule noria_ok_cong) (simp_all add: d')
    ultimately show ?thesis using inv v(4) by (simp add: conn_inv_def quiet_def d')
  qed
qed (use inv in simp)

lemma kept_backup:
  assumes "d_backup d i = Some b" "bk_alive b' = bk_alive b"
  shows "kept env d (d\<lparr>d_handle := q, d_backup := (d_backup d)(i \<mapsto> b')\<rparr>)"
proof -
  let ?d = "d\<lparr>d_handle := q, d_backup := (d_backup d)(i \<mapsto> b')\<rparr>"
  have "backup_alive ?d = backup_alive d" using assms by (simp add: backup_alive_def fun_eq_iff)
  moreover have "dom (d_backup ?d) = dom (d_backup d)" using assms(1) by auto
  moreover have "alive ?d = alive d" "locked ?d = locked d" "owner ?d = owner d" "all_params v8 ?d = all_params v8 d" for v8
    by (rule view_cong; simp)+
  ultimately show ?thesis unfolding kept_def by (simp add: option.rel_refl)
qed

lemma JS_transfer_ended:
  assumes "quiet d" "JS_transfer env i info d = Some (r, d')"
  shows "ended env d d'"
proof (cases "d' = d")
  case False
  obtain b where b: "d_backup d i = Some b" using assms(2) by (auto simp: JS_transfer_def bind_eq_Some_conv)
  obtain st t rem q where e: "e_backup_step env (d_handle d) i (int32_arg (info ! 0)) = (st, t, rem, q)" by (metis prod.exhaust)
  have "d' = d\<lparr>d_handle := q\<rparr> \<or> d' = d\<lparr>d_handle := q, d_backup := (d_backup d)(i \<mapsto> b\<lparr>bk_unlink := False\<rparr>)\<rparr>"
    using assms(2) False b e by (auto simp: JS_transfer_def Let_def dest!: guardedE split: if_splits)
  then show ?thesis
  proof
    assume "d' = d\<lparr>d_handle := q\<rparr>"
    then show ?thesis using ended_frame(1) [OF assms(1)] by simp
  next
    assume "d' = d\<lparr>d_handle := q, d_backup := (d_backup d)(i \<mapsto> b\<lparr>bk_unlink := False\<rparr>)\<rparr>"
    then show ?thesis using kept_backup [OF b, of "b\<lparr>bk_unlink := False\<rparr>" env q] assms(1) by (simp add: ended_def quiet_def)
  qed
qed (use assms in simp)

lemma Backup_JS_close_inv:
  assumes inv: "conn_inv env d" and r: "Backup_JS_close i d = Some (r, d')"
  shows "conn_inv env d'"
proof -
  obtain b where b: "d_backup d i = Some b" using r by (auto simp: Backup_JS_close_def bind_eq_Some_conv)
  have ok: "objects_ok d" using inv by (simp add: conn_inv_def)
  show ?thesis
  proof (cases "bk_alive b")
    case False
    then have "d' = d" using r b by (auto simp: Backup_JS_close_def Backup_CloseHandles_def split: if_splits)
    then show ?thesis using inv by simp
  next
    case True
    then have d': "d' = d\<lparr>d_backups := removeAll i (d_backups d), d_backup := (d_backup d)(i \<mapsto> b\<lparr>bk_alive := False\<rparr>)\<rparr>"
      using r b by (auto simp: Backup_JS_close_def Backup_CloseHandles_def RemoveBackup_def split: if_splits)
    have v: "owner d' = owner d" "alive d' = alive d" "locked d' = locked d" "all_params v8 d' = all_params v8 d" for v8
      by (rule view_cong; simp add: d')+
    have "backup_alive d' k \<longleftrightarrow> backup_alive d k \<and> k \<noteq> i" for k by (simp add: backup_alive_def d')
    then have ba: "Collect (backup_alive d') = Collect (backup_alive d) - {i}" by blast
    have dm: "dom (d_backup d') = dom (d_backup d)" using b by (auto simp: d')
    have f: "d_stmts d' = d_stmts d" "d_open d' = d_open d" "d_registered d' = d_registered d" "d_iterator d' = d_iterator d"
      "d_iterators d' = d_iterators d" "d_next_iterator d' = d_next_iterator d" "d_statement d' = d_statement d" "d_next_id d' = d_next_id d"
      by (simp_all add: d')
    have bs: "Collect (backup_alive d) - {i} = set (d_backups d')" "distinct (d_backups d')"
      using objects_okD(10,11) [OF ok] by (auto simp: d' distinct_removeAll)
    have if_open: "if d_open d then Collect (alive d) = dom (d_statement d) else d_stmts d = [] \<and> d_backups d' = []"
      using objects_okD(13-15) [OF ok] by (simp add: d')
    have "objects_ok d'" unfolding objects_ok_def v(1-3) ba dm f
      using ok [unfolded objects_ok_def] by (elim conjE) (intro conjI bs if_open; assumption)
    moreover have "noria_ok env d' = noria_ok env d" by (rule noria_ok_cong) (simp_all add: d')
    ultimately show ?thesis using inv v(4) by (simp add: conn_inv_def quiet_def d')
  qed
qed

end
