(* ===== verification/ConnectionProps.thy ===== *)
theory ConnectionProps
  imports ConnectionInv
begin

text \<open>
  Properties of a connection: its invariant, the guards, the rows a statement gives and the
  notification of the engine.
\<close>

section \<open>Sequences of calls\<close>

fun calls :: "('q, 'e) env \<Rightarrow> api_call list \<Rightarrow> ('q, 'e) database \<Rightarrow> ('q, 'e) database option" where
  "calls env [] d = Some d"
| "calls env (c # cs) d = (case invoke env c d of Some (_, d) \<Rightarrow> calls env cs d | None \<Rightarrow> None)"

lemma ended_call:
  assumes env: "env_ok env" and q: "quiet d" and r: "invoke env c d = Some (r, d')"
    and c: "\<not> (case c of CallIterate _ _ \<Rightarrow> True | CallNext _ \<Rightarrow> True | CallReturn _ \<Rightarrow> True | CallPrepare _ \<Rightarrow> True |
       CallClose \<Rightarrow> True | CallBackup _ \<Rightarrow> True | CallBackupClose _ \<Rightarrow> True | _ \<Rightarrow> False)"
  shows "ended env d d'"
  using r c JS_run_ended [OF env q] JS_get_ended [OF env q] JS_all_ended [OF env q] JS_bind_ended [OF q] setters_ended [OF q]
    registrations_ended [OF env q] JS_table_ended [OF env q] cache_ended [OF q] JS_exec_ended [OF env q] JS_transfer_ended [OF q]
  by (cases c) (simp_all add: JS_pluck_def JS_expand_def JS_raw_def)

lemma JS_prepare_inv:
  assumes "env_ok env" "conn_inv env d" "JS_prepare env info d = Some (r, d')"
  shows "conn_inv env d'"
proof -
  have "(case first_error (prepare_checks info) of None \<Rightarrow> Statement_JS_new env (string_arg (info ! 0)) (bool_arg (info ! 2)) d
     | Some e \<Rightarrow> (Throws e, d)) = (r, d')" using assms(3) by (simp add: JS_prepare_def)
  from guardedE(1) [OF this] Statement_JS_new_inv [OF assms(1,2)] assms(2) show ?thesis by auto
qed

lemma invoke_inv:
  assumes env: "env_ok env" and inv: "conn_inv env d" and r: "invoke env c d = Some (r, d')"
  shows "conn_inv env d'"
proof -
  have q: "quiet d" using inv by (simp add: conn_inv_def)
  show ?thesis
  proof (cases "case c of CallIterate _ _ \<Rightarrow> True | CallNext _ \<Rightarrow> True | CallReturn _ \<Rightarrow> True | CallPrepare _ \<Rightarrow> True |
       CallClose \<Rightarrow> True | CallBackup _ \<Rightarrow> True | CallBackupClose _ \<Rightarrow> True | _ \<Rightarrow> False")
    case True
    then show ?thesis using r JS_iterate_inv [OF inv] iterator_call_inv [OF env inv] JS_prepare_inv [OF env inv]
        JS_close_inv [OF inv] JS_backup_inv [OF inv] Backup_JS_close_inv [OF inv]
      by (cases c) simp_all
  next
    case False
    from ended_inv [OF ended_call [OF env q r False] inv] show ?thesis .
  qed
qed

lemma calls_inv: "env_ok env \<Longrightarrow> conn_inv env d \<Longrightarrow> calls env cs d = Some d' \<Longrightarrow> conn_inv env d'"
  by (induction cs arbitrary: d) (auto split: option.split_asm dest: invoke_inv)

lemma Database_new_inv: "conn_inv env (Database_new env q logger)"
proof -
  let ?d = "Database_new env q logger"
  have v: "owner ?d = (\<lambda>_. None)" "alive ?d = (\<lambda>_. False)" "locked ?d = (\<lambda>_. False)" "backup_alive ?d = (\<lambda>_. False)"
    by (simp_all add: fun_eq_iff owner_def alive_def locked_def backup_alive_def Database_new_def)
  show ?thesis unfolding conn_inv_def objects_ok_def v
    by (simp add: Database_new_def all_params_def quiet_def noria_ok_def reach_new ran_def)
qed

section \<open>A small environment\<close>

text \<open>A connection whose every statement is the same query without parameters, with as many rows as
  the state says.\<close>

definition example_select :: vdbe where
  "example_select = example_vdbe\<lparr>aVar := [], pVList := []\<rparr>"

definition example_env :: "(nat, engine_event list) env" where
  "example_env = \<lparr>e_v8 = example_v8, e_engine = example_engine,
     e_conn = (\<lambda>_. example_connection undefined),
     e_step = (\<lambda>q p. if q = 0 then (SQLITE_DONE, p, 0, False, id) else (SQLITE_ROW, p, q - 1, False, id)),
     e_reset = (\<lambda>q p. (SQLITE_OK, p, q)), e_finalize = (\<lambda>q p. (SQLITE_OK, q)),
     e_prepare = (\<lambda>q z b. (SQLITE_OK, Some (example_select, None), [], q, False)), e_logger = (\<lambda>_ _. False),
     e_total_changes = (\<lambda>_. 0), e_changes = (\<lambda>_. 0), e_last_insert_rowid = (\<lambda>_. 0), e_errmsg = (\<lambda>_. []),
     e_extended_errcode = (\<lambda>_. SQLITE_ERROR), e_register = (\<lambda>q _. (SQLITE_OK, q, False)),
     e_load_extension = (\<lambda>q _ _. (SQLITE_OK, [], q)), e_serialize = (\<lambda>_ _. (Some [], 0)), e_defensive = (\<lambda>q _. q),
     e_backup_open = (\<lambda>q _ _. (None, q)), e_backup_step = (\<lambda>q _ _. (SQLITE_DONE, 0, 0, q)), e_errstr = (\<lambda>_. []),
     e_column_info = (\<lambda>_ _. [])\<rparr>"

lemma example_env_ok: "env_ok example_env"
  by (auto simp: env_ok_def example_env_def example_vdbe_def example_select_def vlist_ok_def split: if_splits)

definition example_prepare :: api_call where
  "example_prepare = CallPrepare [JsString [0x53], JsObject True [], JsBoolean False]"

definition example_statement :: statement where
  "example_statement = \<lparr>st_handle = example_select, st_sql = None, st_alive = True, st_locked = False, st_bound = False,
     st_has_bind_map = False, st_bind_map = BindMap_new, st_safe_ints = False, st_mode = FLAT, st_returns_data = True,
     st_noria_view_id = -1, st_column_names = [], st_stmt_type = STMT_OTHER, st_table_name = [], st_table_id = -1\<rparr>"

definition example_database :: "nat \<Rightarrow> (nat, engine_event list) database" where
  "example_database n = add_statement example_statement (Some (Noria_new example_engine True)) (Database_new example_env n JsUndefined)"

lemma example_prepared:
  "invoke example_env example_prepare (Database_new example_env n JsUndefined) = Some (ReturnsNew 0, example_database n)"
  by (simp add: example_database_def example_prepare_def JS_prepare_def prepare_checks_def require_argument_def IsString_def IsObject_def
      IsBoolean_def Statement_JS_new_def REQUIRE_DATABASE_OPEN_def REQUIRE_DATABASE_NOT_BUSY_def example_env_def Database_new_def
      tail_scan.simps sqlite3_column_count_def example_select_def example_vdbe_def Let_def TryRegisterNoriaView_def Statement_new_def
      Noria_new_def AddStatement_def add_statement_def set_statement_def example_statement_def IsEnabled_def example_engine_def)

lemma example_database_simps:
  "d_open (example_database n)" "\<not> d_busy (example_database n)" "d_iterators (example_database n) = 0" "\<not> d_has_logger (example_database n)"
  "d_statement (example_database n) 0 = Some example_statement" "d_handle (example_database n) = n" "d_was_js_error (example_database n) = False"
  by (simp_all add: example_database_def add_statement_def set_statement_def Database_new_def IsFunction_def)

lemma example_bind:
  "STATEMENT_BIND v8 [] example_select False BindMap_new =
    \<lparr>b_handle = example_select, b_has_bind_map = False, b_bind_map = BindMap_new, b_anon_index = 0, b_success = True, b_thrown = None\<rparr>"
  by (simp add: STATEMENT_BIND_def Bind_def Binder_new_def sqlite3_bind_parameter_count_def example_select_def Let_def)

lemma example_START_LOGIC:
  "STATEMENT_START_LOGIC example_env [REQUIRE_STATEMENT_RETURNS_DATA example_statement] mutate 0 [] example_statement (example_database n) =
     (None, example_statement, set_statement 0 example_statement (example_database n))"
  if "first_error (mutate example_statement (example_database n)) = None"
proof -
  have "set (mutate example_statement (example_database n)) \<subseteq> {None}" using that by (simp add: first_error_None)
  then have "first_error ([REQUIRE_STATEMENT_RETURNS_DATA example_statement] @ [REQUIRE_DATABASE_OPEN (example_database n),
      REQUIRE_DATABASE_NOT_BUSY (example_database n)] @ mutate example_statement (example_database n)) = None"
    by (simp add: first_error_None example_database_simps) (simp add: example_statement_def)
  then show ?thesis by (simp add: STATEMENT_START_LOGIC_def) (simp add: example_statement_def example_bind Let_def)
qed

section \<open>Properties\<close>

text \<open>C2: In every state of a connection reached by any sequence of calls, whatever their arguments and
  outcomes, the live statements and backups are those the database lists, a statement is locked
  exactly while one live iterator runs over it, the counter is the number of live iterators, no
  finalized statement belongs to an open connection, the parameters of each statement are in order,
  no call leaves the connection busy or a pending JavaScript error behind, and the Noria wrapper
  exists exactly while the connection is open and is in a reachable state.\<close>

theorem connection_invariant:
  assumes "env_ok env" "calls env cs (Database_new env q logger) = Some d"
  shows "objects_ok d \<and> all_params (e_v8 env) d \<and> quiet d \<and> noria_ok env d"
  using calls_inv [OF assms(1) Database_new_inv assms(2)] by (simp add: conn_inv_def)

theorem connection_invariant_witness:
  "\<exists>d. calls example_env [example_prepare, CallClose] (Database_new example_env 1 JsUndefined) = Some d \<and>
     objects_ok d \<and> all_params (e_v8 example_env) d \<and> quiet d \<and> noria_ok example_env d"
proof -
  have g: "first_error [REQUIRE_DATABASE_NOT_BUSY (example_database 1), REQUIRE_DATABASE_NO_ITERATORS (example_database 1)] = None"
    by (simp add: first_error_None example_database_simps)
  have "\<exists>d. calls example_env [example_prepare, CallClose] (Database_new example_env 1 JsUndefined) = Some d"
    by (simp add: example_prepared [unfolded One_nat_def] JS_close_def g [unfolded One_nat_def] example_database_simps)
  then show ?thesis using connection_invariant [OF example_env_ok] by blast
qed

text \<open>C29: While a query runs, code called back from it cannot disturb the connection: every sequence of
  calls leaves the statements, iterators, backups and the Noria wrapper as they are, and all of the
  state if it has no call of \<open>defaultSafeIntegers()\<close> or \<open>unsafeMode()\<close>.  The methods of backups assert that no
  query runs; a sequence that violates this assertion is not a sequence of calls.\<close>

theorem busy_frozen:
  assumes "d_busy d" "calls env cs d = Some d'"
  shows "d_busy d' \<and> d_open d' = d_open d \<and> d_statement d' = d_statement d \<and> d_iterator d' = d_iterator d \<and> d_backup d' = d_backup d \<and>
    d_stmts d' = d_stmts d \<and> d_backups d' = d_backups d \<and> d_iterators d' = d_iterators d \<and> d_noria d' = d_noria d \<and>
    (list_all (\<lambda>c. \<not> setting_call c) cs \<longrightarrow> d' = d)"
  using assms
proof (induction cs arbitrary: d)
  case (Cons c cs)
  obtain r d1 where c: "invoke env c d = Some (r, d1)" and cs: "calls env cs d1 = Some d'"
    using Cons.prems(2) by (auto split: option.split_asm)
  have same: "\<not> setting_call c \<Longrightarrow> d1 = d" using busy_call_unchanged [OF Cons.prems(1) _ c] by blast
  have f: "d_busy d1 \<and> d_open d1 = d_open d \<and> d_statement d1 = d_statement d \<and> d_iterator d1 = d_iterator d \<and> d_backup d1 = d_backup d \<and>
    d_stmts d1 = d_stmts d \<and> d_backups d1 = d_backups d \<and> d_iterators d1 = d_iterators d \<and> d_noria d1 = d_noria d"
  proof (cases "setting_call c")
    case True
    then show ?thesis using c Cons.prems(1)
      by (cases c) (auto simp: setting_call_def JS_defaultSafeIntegers_def JS_unsafeMode_def split: sum.split_asm if_splits)
  qed (use same Cons.prems(1) in simp)
  with Cons.IH [OF _ cs] same show ?case by auto
qed simp

theorem busy_frozen_witness:
  "calls example_env [CallClose, CallFlushCache] ((example_database 1)\<lparr>d_busy := True\<rparr>) = Some ((example_database 1)\<lparr>d_busy := True\<rparr>) \<and>
   d_noria ((example_database 1)\<lparr>d_busy := True\<rparr>) = d_noria (example_database 1)"
proof -
  let ?d = "(example_database 1)\<lparr>d_busy := True\<rparr>"
  have "calls example_env [CallClose, CallFlushCache] ?d \<noteq> None"
    by (simp add: JS_close_def JS_flushCache_def REQUIRE_DATABASE_NOT_BUSY_def REQUIRE_DATABASE_OPEN_def example_database_simps [unfolded One_nat_def])
  then obtain d where d: "calls example_env [CallClose, CallFlushCache] ?d = Some d" by blast
  have "d = ?d" using busy_frozen [OF _ d] by (simp add: setting_call_def)
  with d show ?thesis by simp
qed

text \<open>C30: A closed connection is not used: every call leaves the handle of SQLite alone, no wrapper and no
  running iterator is left, and the connection stays closed.  The exception is \<open>unsafeMode()\<close>, which
  configures the closed handle (undefined, \<open>None\<close>).\<close>

theorem closed_unused:
  assumes "conn_inv env d" "\<not> d_open d"
  shows "invoke env (CallUnsafeMode []) d = None \<and>
    (\<forall>c r d'. invoke env c d = Some (r, d') \<longrightarrow>
       d_handle d' = d_handle d \<and> \<not> d_open d' \<and> d_noria d' = None \<and> d_iterators d' = 0)"
proof (intro conjI allI impI)
  show "invoke env (CallUnsafeMode []) d = None" using assms(2) by (simp add: JS_unsafeMode_def flag_argument_def)
next
  fix c r d' assume r: "invoke env c d = Some (r, d')"
  have ok: "objects_ok d" and n: "d_noria d = None"
    using assms by (auto simp: conn_inv_def noria_ok_def split: option.split_asm)
  have "ran (owner d) = {}"
    using objects_okD(1,3,4,14) [OF ok] assms(2) by auto
  then have "owner d j = None" for j by (cases "owner d j") (auto simp: ran_def)
  then have own: "owner d = Map.empty" by auto
  then have it0: "d_iterators d = 0" using objects_okD(6) [OF ok] by (simp add: unat_eq_0)
  have dead: "d_iterator d j = Some it \<Longrightarrow> \<not> si_alive it" for j it
    using fun_cong [OF own, of j] by (auto simp: owner_def split: if_splits)
  have stm: "d' = d" if "c = CallRun i info \<or> c = CallGet i info \<or> c = CallAll i info \<or> c = CallIterate i info" for i info
    using that r guarded_calls [OF disjI2 [OF disjI1 [OF assms(2)]], of i _ env info]
    by (cases "d_statement d i") (auto simp: JS_run_def JS_get_def JS_all_def JS_iterate_def)
  have same: "d' = d \<or> d_handle d' = d_handle d \<and> d_open d' = d_open d \<and> d_noria d' = d_noria d \<and> d_iterators d' = d_iterators d"
  proof (cases c)
    case (CallPrepare info)
    then show ?thesis using r assms(2)
      by (auto simp: JS_prepare_def Statement_JS_new_def first_error_None dest!: guardedE)
  next
    case (CallNext j)
    then show ?thesis using r dead [of j] by (auto simp: JS_next_def bind_eq_Some_conv dest!: guardedE split: if_splits)
  next
    case (CallReturn j)
    then show ?thesis using r dead [of j] by (auto simp: JS_return_def bind_eq_Some_conv dest!: guardedE split: if_splits)
  next
    case (CallUnsafeMode info)
    then show ?thesis using r assms(2) by (auto simp: JS_unsafeMode_def split: sum.split_asm)
  next
    case (CallDefaultSafeIntegers info)
    then show ?thesis using r by (auto simp: JS_defaultSafeIntegers_def split: sum.split_asm)
  next
    case CallCacheStats
    then show ?thesis using r assms(2) by (auto simp: JS_cacheStats_def dest!: guardedE)
  next
    case CallClose
    then show ?thesis using r assms(2) by (simp add: JS_close_def)
  next
    case (CallBackupClose i)
    then show ?thesis using r by (auto simp: Backup_JS_close_def close_backup RemoveBackup_def bind_eq_Some_conv split: if_splits)
  qed (use r assms(2) stm in \<open>auto simp: JS_bind_def JS_pluck_def JS_expand_def JS_raw_def set_mode_def JS_safeIntegers_def
      JS_columns_def JS_exec_def JS_serialize_def JS_function_def JS_aggregate_def JS_table_def JS_loadExtension_def JS_flushCache_def
      JS_backup_def JS_transfer_def database_checks_def first_error_None bind_eq_Some_conv set_statement_def dest!: guardedE\<close>)
  then show "d_handle d' = d_handle d" "\<not> d_open d'" "d_noria d' = None" "d_iterators d' = 0"
    using assms(2) n it0 by auto
qed

lemma example_closed: "conn_inv example_env (CloseHandles ((example_database n)\<lparr>d_registered := False\<rparr>))"
proof (rule CloseHandles_inv)
  show "conn_inv example_env (example_database n)"
    using invoke_inv [OF example_env_ok Database_new_inv example_prepared] .
qed (simp_all add: example_database_simps)

theorem closed_unused_witness:
  "invoke example_env (CallUnsafeMode []) (CloseHandles ((example_database 1)\<lparr>d_registered := False\<rparr>)) = None"
proof -
  have "\<not> d_open (CloseHandles ((example_database 1)\<lparr>d_registered := False\<rparr>))"
    by (simp add: CloseHandles_def close_statements close_backups)
  from closed_unused [OF example_closed this] show ?thesis by blast
qed

end
