(* ===== verification/ConnectionRows.thy ===== *)
theory ConnectionRows
  imports ConnectionProps
begin

text \<open>
  The rows of a statement: what \<open>all()\<close>, \<open>get()\<close> and iterators give, that they end, and the shape of
  what they return.
\<close>

section \<open>The rows SQLite gives\<close>

text \<open>The statement after each of the next \<open>n\<close> steps, if these give rows and the step after them ends.\<close>

fun row_states :: "('q, 'e) env \<Rightarrow> nat \<Rightarrow> 'q \<Rightarrow> vdbe \<Rightarrow> vdbe list option" where
  "row_states env 0 q p = (if fst (e_step env q p) = SQLITE_DONE then Some [] else None)"
| "row_states env (Suc n) q p =
     (case e_step env q p of
        (rc, p', q', _) \<Rightarrow> if rc = SQLITE_ROW then map_option ((#) p') (row_states env n q' p') else None)"

lemma row_states_length: "row_states env n q p = Some ps \<Longrightarrow> length ps = n"
  by (induction n arbitrary: q p ps) (auto split: prod.split_asm if_splits)

text \<open>After the end a reset succeeds.\<close>

definition done_ok :: "('q, 'e) env \<Rightarrow> bool" where
  "done_ok env \<longleftrightarrow>
     (\<forall>q p p' q' js f. e_step env q p = (SQLITE_DONE, p', q', js, f) \<longrightarrow> fst (e_reset env q' p') = SQLITE_OK)"

definition builder_for :: "v8_api \<Rightarrow> bool \<Rightarrow> vdbe list \<Rightarrow> row_builder \<Rightarrow> bool" where
  "builder_for v8 safe_ints ps rb \<longleftrightarrow> rb_safe_ints rb = safe_ints \<and>
     (\<forall>ks. rb_keys rb = Some ks \<longrightarrow> (\<forall>p\<in>set ps. ks = map (column_key v8 p) [0..<sqlite3_column_count p]))"

definition same_columns :: "vdbe list \<Rightarrow> bool" where
  "same_columns ps \<longleftrightarrow> (\<forall>p\<in>set ps. \<forall>p'\<in>set ps. colNames p = colNames p')"

lemma builder_row:
  assumes "builder_for v8 si (p # ps) rb" "same_columns (p # ps)"
  shows "\<exists>rb'. RowBuilder_GetRowJS v8 p rb = (GetFlatRowJS v8 p si, rb') \<and> builder_for v8 si ps rb'"
proof (cases "rb_keys rb")
  case None
  then have rb: "rb = RowBuilder_new si" using assms(1) [unfolded builder_for_def, THEN conjunct1]
    by (cases rb) (simp add: RowBuilder_new_def)
  define ks where "ks = map (column_key v8 p) [0..<sqlite3_column_count p]"
  have key: "ks = map (column_key v8 p') [0..<sqlite3_column_count p']" if "p' \<in> set ps" for p'
  proof -
    have "colNames p' = colNames p" using assms(2) that unfolding same_columns_def by (meson list.set_intros)
    then show ?thesis by (simp add: ks_def column_key_def sqlite3_column_count_def)
  qed
  have "builder_for v8 si ps \<lparr>rb_safe_ints = si, rb_keys = Some ks\<rparr>"
    unfolding builder_for_def by (simp, rule ballI, rule key)
  then show ?thesis unfolding rb RowBuilder_first ks_def [symmetric] by blast
next
  case (Some ks)
  have "ks = map (column_key v8 p) [0..<sqlite3_column_count p]"
    using assms(1) Some unfolding builder_for_def by (meson list.set_intros(1))
  then have "rb_keys rb = Some (map (column_key v8 p) [0..<sqlite3_column_count p])" using Some by simp
  from RowBuilder_next [OF this] have "RowBuilder_GetRowJS v8 p rb = (GetFlatRowJS v8 p si, rb)"
    unfolding assms(1) [unfolded builder_for_def, THEN conjunct1] .
  moreover have "builder_for v8 si ps rb" using assms(1) unfolding builder_for_def by (meson list.set_intros(2))
  ultimately show ?thesis by blast
qed

lemma do_step_eq:
  assumes "e_step env (d_handle d) (st_handle s) = (rc, p, q, js, f)"
  shows "\<exists>d1. do_step env i s d = (rc, s\<lparr>st_handle := p\<rparr>, d1) \<and> d_handle d1 = q"
  using assms by (simp add: do_step_def Let_def set_statement_def)

lemma all_rows_states:
  assumes "row_states env n (d_handle d) (st_handle s) = Some ps" "same_columns ps"
    and "st_mode s = FLAT \<Longrightarrow> builder_for (e_v8 env) (st_safe_ints s) ps rb" "done_ok env"
  shows "\<exists>s' d'. all_rows env i rb acc s d =
      Some (acc @ map (\<lambda>p. GetRowJS (e_v8 env) p (st_safe_ints s) (st_mode s)) ps, s', d') \<and>
    fst (e_reset env (d_handle d') (st_handle s')) = SQLITE_OK \<and> st_bound s' = st_bound s"
  using assms
proof (induction n arbitrary: d s ps rb acc)
  case 0
  obtain rc p q js f where e: "e_step env (d_handle d) (st_handle s) = (rc, p, q, js, f)" by (metis prod.exhaust)
  then have rc: "rc = SQLITE_DONE" "ps = []" using 0(1) by (auto split: if_splits)
  obtain d1 where d1: "do_step env i s d = (rc, s\<lparr>st_handle := p\<rparr>, d1)" "d_handle d1 = q" using do_step_eq [OF e] by blast
  have "fst (e_reset env q p) = SQLITE_OK" using 0(4) e rc(1) unfolding done_ok_def by blast
  then show ?case using d1 rc by (simp add: all_rows.simps [of _ _ _ _ s])
next
  case (Suc n)
  obtain rc p q js f where e: "e_step env (d_handle d) (st_handle s) = (rc, p, q, js, f)" by (metis prod.exhaust)
  then obtain ps' where ps: "rc = SQLITE_ROW" "row_states env n q p = Some ps'" "ps = p # ps'"
    using Suc.prems(1) by (auto split: if_splits)
  let ?s = "s\<lparr>st_handle := p\<rparr>"
  obtain d1 where d1: "do_step env i s d = (rc, ?s, d1)" "d_handle d1 = q" using do_step_eq [OF e] by blast
  have rs: "row_states env n (d_handle d1) (st_handle ?s) = Some ps'" using ps(2) d1(2) by simp
  have sc: "same_columns ps'" using Suc.prems(2) unfolding ps(3) same_columns_def by (meson list.set_intros(2))
  let ?row = "GetRowJS (e_v8 env) p (st_safe_ints s) (st_mode s)"
  show ?case
  proof (cases "st_mode s = FLAT")
    case True
    obtain rb' where rb': "RowBuilder_GetRowJS (e_v8 env) p rb = (GetFlatRowJS (e_v8 env) p (st_safe_ints s), rb')"
      "builder_for (e_v8 env) (st_safe_ints s) ps' rb'"
      using builder_row Suc.prems(2,3) True ps(3) by blast
    have "all_rows env i rb acc s d = all_rows env i rb' (acc @ [?row]) ?s d1"
      using d1(1) ps(1) rb'(1) True by (subst all_rows.simps) (simp add: GetRowJS_def)
    then show ?thesis using Suc.IH [OF rs sc, of rb' "acc @ [?row]"] rb'(2) Suc.prems(4) ps(3) by simp
  next
    case False
    have "all_rows env i rb acc s d = all_rows env i rb (acc @ [?row]) ?s d1"
      using d1(1) ps(1) False by (subst all_rows.simps) simp
    then show ?thesis using Suc.IH [OF rs sc, of rb "acc @ [?row]"] False Suc.prems(4) ps(3) by simp
  qed
qed

section \<open>Iterators\<close>

fun next_calls :: "('q, 'e) env \<Rightarrow> nat \<Rightarrow> nat \<Rightarrow> ('q, 'e) database \<Rightarrow> (outcome list \<times> ('q, 'e) database) option" where
  "next_calls env j 0 d = Some ([], d)"
| "next_calls env j (Suc n) d = do {
     (r, d) \<leftarrow> JS_next env j d;
     (rs, d) \<leftarrow> next_calls env j n d;
     Some (r # rs, d)
   }"

text \<open>A live iterator \<open>it\<close> on a connection that is not busy.\<close>

definition running :: "('q, 'e) database \<Rightarrow> nat \<Rightarrow> statement_iterator \<Rightarrow> statement \<Rightarrow> bool" where
  "running d j it s \<longleftrightarrow> d_iterator d j = Some it \<and> si_alive it \<and> si_logged it \<and> d_statement d (si_stmt it) = Some s \<and> \<not> d_busy d"

lemma JS_next_step:
  assumes "running d j it s" "e_step env (d_handle d) (st_handle s) = (rc, p, q, js, f)"
  shows "\<exists>d1. d_handle d1 = q \<and> running d1 j it (s\<lparr>st_handle := p\<rparr>) \<and> d_iterators d1 = d_iterators d \<and>
    JS_next env j d = Some (if rc = SQLITE_ROW then (Returns (NewRecord env (GetRowJS (e_v8 env) p (si_safe_ints it) (si_mode it)) False), d1)
      else if rc = SQLITE_DONE then Return env j it (s\<lparr>st_handle := p\<rparr>) d1 else Throw env j it (s\<lparr>st_handle := p\<rparr>) d1)"
proof -
  have nb: "REQUIRE_DATABASE_NOT_BUSY d = None" using assms(1) by (simp add: running_def)
  define d1 where "d1 = (set_statement (si_stmt it) (s\<lparr>st_handle := p\<rparr>) (d\<lparr>d_busy := True, d_handle := q,
      d_was_js_error := d_was_js_error d \<or> js, d_noria := map_option f (d_noria d)\<rparr>))\<lparr>d_busy := False\<rparr>"
  have step: "do_step env (si_stmt it) s (d\<lparr>d_busy := True\<rparr>) = (rc, s\<lparr>st_handle := p\<rparr>,
      set_statement (si_stmt it) (s\<lparr>st_handle := p\<rparr>) (d\<lparr>d_busy := True, d_handle := q,
      d_was_js_error := d_was_js_error d \<or> js, d_noria := map_option f (d_noria d)\<rparr>))"
    using assms(2) by (simp add: do_step_def Let_def)
  have "JS_next env j d = Some (Next env j it s d)"
    using assms(1) unfolding JS_next_def by (simp add: running_def nb del: guard_None)
  also have "Next env j it s d = (if rc = SQLITE_ROW then (Returns (NewRecord env (GetRowJS (e_v8 env) p (si_safe_ints it) (si_mode it)) False), d1)
      else if rc = SQLITE_DONE then Return env j it (s\<lparr>st_handle := p\<rparr>) d1 else Throw env j it (s\<lparr>st_handle := p\<rparr>) d1)"
    using assms(1) step unfolding Next_def d1_def by (simp add: running_def Let_def)
  finally have "JS_next env j d = Some (if rc = SQLITE_ROW then (Returns (NewRecord env (GetRowJS (e_v8 env) p (si_safe_ints it) (si_mode it)) False), d1)
      else if rc = SQLITE_DONE then Return env j it (s\<lparr>st_handle := p\<rparr>) d1 else Throw env j it (s\<lparr>st_handle := p\<rparr>) d1)" .
  moreover have "d_handle d1 = q" "running d1 j it (s\<lparr>st_handle := p\<rparr>)" "d_iterators d1 = d_iterators d"
    using assms(1) by (simp_all add: d1_def running_def set_statement_def)
  ultimately show ?thesis by blast
qed

text \<open>An iterator that is finished is dead, and its statement unlocked.\<close>

lemma Return_finished:
  assumes "running d j it s" "Return env j it s d = (r, d')"
  shows "r = Returns (DoneRecord env) \<and> owner d' j = None \<and> \<not> locked d' (si_stmt it) \<and> d_iterators d' = d_iterators d - 1"
proof -
  obtain rc p q where e: "e_reset env (d_handle d) (st_handle s) = (rc, p, q)" by (metis prod.exhaust)
  have c: "Cleanup env j it s d = set_statement (si_stmt it) (s\<lparr>st_locked := False, st_handle := p\<rparr>)
     (d\<lparr>d_iterator := (d_iterator d)(j \<mapsto> it\<lparr>si_alive := False\<rparr>), d_iterators := d_iterators d - 1, d_handle := q\<rparr>)"
    using e by (simp add: Cleanup_def do_reset_def Let_def)
  show ?thesis using assms(2) unfolding Return_def STATEMENT_RETURN_LOGIC_def clear_unless_bound_def c
    by (auto simp: set_statement_def owner_def locked_def split: if_splits)
qed

lemma next_calls_rows:
  assumes "row_states env n (d_handle d) (st_handle s) = Some ps" "running d j it s"
  shows "\<exists>d'. next_calls env j (Suc n) d =
      Some (map (\<lambda>p. Returns (NewRecord env (GetRowJS (e_v8 env) p (si_safe_ints it) (si_mode it)) False)) ps @ [Returns (DoneRecord env)], d') \<and>
    owner d' j = None \<and> \<not> locked d' (si_stmt it) \<and> d_iterators d' = d_iterators d - 1"
  using assms
proof (induction n arbitrary: d s ps)
  case 0
  obtain rc p q js f where e: "e_step env (d_handle d) (st_handle s) = (rc, p, q, js, f)" by (metis prod.exhaust)
  then have rc: "rc = SQLITE_DONE" "ps = []" using 0(1) by (auto split: if_splits)
  obtain d1 where d1: "running d1 j it (s\<lparr>st_handle := p\<rparr>)" "d_iterators d1 = d_iterators d"
    "JS_next env j d = Some (Return env j it (s\<lparr>st_handle := p\<rparr>) d1)"
    using JS_next_step [OF 0(2) e] rc by auto
  obtain r d' where r: "Return env j it (s\<lparr>st_handle := p\<rparr>) d1 = (r, d')" by (metis prod.exhaust)
  from Return_finished [OF d1(1) r] show ?case using d1(2,3) r rc(2) by simp
next
  case (Suc n)
  obtain rc p q js f where e: "e_step env (d_handle d) (st_handle s) = (rc, p, q, js, f)" by (metis prod.exhaust)
  then obtain ps' where ps: "rc = SQLITE_ROW" "row_states env n q p = Some ps'" "ps = p # ps'"
    using Suc.prems(1) by (auto split: if_splits)
  obtain d1 where d1: "d_handle d1 = q" "running d1 j it (s\<lparr>st_handle := p\<rparr>)" "d_iterators d1 = d_iterators d"
    "JS_next env j d = Some (Returns (NewRecord env (GetRowJS (e_v8 env) p (si_safe_ints it) (si_mode it)) False), d1)"
    using JS_next_step [OF Suc.prems(2) e] ps(1) by auto
  have "row_states env n (d_handle d1) (st_handle (s\<lparr>st_handle := p\<rparr>)) = Some ps'" using ps(2) d1(1) by simp
  from Suc.IH [OF this d1(2)] show ?case unfolding next_calls.simps(2) [of env j "Suc n"] d1(4) ps(3) d1(3)
    by (auto simp del: next_calls.simps)
qed

section \<open>Shapes\<close>

text \<open>The values a column can have; bigints only with safe integers.\<close>

definition column_value :: "bool \<Rightarrow> js_value \<Rightarrow> bool" where
  "column_value safe_ints v \<longleftrightarrow>
     (case v of JsNull \<Rightarrow> True | JsNumber _ \<Rightarrow> True | JsString _ \<Rightarrow> True | JsBuffer _ \<Rightarrow> True | JsBigInt _ \<Rightarrow> safe_ints | _ \<Rightarrow> False)"

definition object_of :: "(js_value \<Rightarrow> bool) \<Rightarrow> js_value \<Rightarrow> bool" where
  "object_of P v \<longleftrightarrow> (\<exists>ps. v = JsObject True ps \<and> (\<forall>x\<in>snd ` set ps. \<exists>w. x = Property w \<and> P w))"

definition row_shape :: "bool \<Rightarrow> row_mode \<Rightarrow> js_value \<Rightarrow> bool" where
  "row_shape safe_ints mode v \<longleftrightarrow>
     (case mode of
        FLAT \<Rightarrow> object_of (column_value safe_ints) v
      | PLUCK \<Rightarrow> column_value safe_ints v
      | EXPAND \<Rightarrow> object_of (object_of (column_value safe_ints)) v
      | RAW \<Rightarrow> (\<exists>vs. v = JsArray (map Some vs) \<and> list_all (column_value safe_ints) vs))"

lemma GetValueJS_shape: "column_value si (GetValueJS v8 p i si)"
  by (auto simp: column_value_def GetValueJS_def SQLITE_VALUE_TO_JS_def split: sqlite3_value.split)

lemma set_update: "set (AList.update k v ps) \<subseteq> insert (k, v) (set ps)"
  by (induction ps) auto

lemma object_set:
  assumes "object_of P obj" "P v"
  shows "object_of P (set_property k v obj)"
proof -
  obtain ps where ps: "obj = JsObject True ps" "\<forall>x\<in>snd ` set ps. \<exists>w. x = Property w \<and> P w" using assms(1) by (auto simp: object_of_def)
  have "snd ` set (AList.update k (Property v) ps) \<subseteq> insert (Property v) (snd ` set ps)"
    using set_update [of k "Property v" ps] by force
  then have "\<forall>x\<in>snd ` set (AList.update k (Property v) ps). \<exists>w. x = Property w \<and> P w" using ps(2) assms(2) by blast
  then show ?thesis unfolding object_of_def set_property_def ps(1) by simp
qed

lemma object_New_shape: "list_all P (map snd kvs) \<Longrightarrow> object_of P (Object_New kvs)"
proof (induction kvs rule: rev_induct)
  case Nil
  then show ?case by (simp add: Object_New_def object_of_def)
next
  case (snoc kv kvs)
  then show ?case by (cases kv) (simp add: Object_New_snoc object_set)
qed

lemma zip_snd_all: "list_all P ys \<Longrightarrow> list_all P (map snd (zip xs ys))"
  by (auto simp: list_all_iff dest: set_zip_rightD)

lemma flat_shape: "object_of (column_value si) (GetFlatRowJS v8 p si)"
  unfolding GetFlatRowJS_def by (rule object_New_shape) (simp add: list_all_iff GetValueJS_shape)

lemma builder_shape: "object_of (column_value (rb_safe_ints rb)) (fst (RowBuilder_GetRowJS v8 p rb)) \<and>
    rb_safe_ints (snd (RowBuilder_GetRowJS v8 p rb)) = rb_safe_ints rb"
  unfolding RowBuilder_GetRowJS_def Let_def
  by (auto intro!: object_New_shape zip_snd_all simp: list_all_iff GetValueJS_shape)

lemma expand_shape: "object_of (object_of (column_value si)) (GetExpandedRowJS v8 p si)"
proof -
  have step: "object_of (object_of (column_value si)) (expand_column v8 p si i row)" if r: "object_of (object_of (column_value si)) row" for i row
  proof -
    have new: "object_of (column_value si) (JsObject True [])" by (simp add: object_of_def)
    have old: "object_of (column_value si) nested" if "get_property row t = Some nested" for t nested
    proof -
      obtain ps where ps: "row = JsObject True ps" "\<forall>x\<in>snd ` set ps. \<exists>w. x = Property w \<and> object_of (column_value si) w"
        using r by (auto simp: object_of_def)
      then have "map_of ps t = Some (Property nested)"
        using that by (auto simp: get_property_def split: option.split_asm js_property.split_asm)
      then have "Property nested \<in> snd ` set ps" by (metis map_of_SomeD image_eqI snd_conv)
      then show ?thesis using ps(2) by fastforce
    qed
    show ?thesis unfolding expand_column_def Let_def using r new old
      by (cases "get_property row (table_key v8 p i)") (auto intro!: object_set GetValueJS_shape)
  qed
  have "object_of (object_of (column_value si)) (fold (expand_column v8 p si) is row)" if "object_of (object_of (column_value si)) row" for "is" row
    using that by (induction "is" arbitrary: row) (simp_all add: step)
  then show ?thesis unfolding GetExpandedRowJS_def by (simp add: object_of_def)
qed

lemma row_shape: "row_shape si mode (GetRowJS v8 p si mode)"
proof (cases mode)
  case RAW
  have "\<exists>vs. JsArray (map (\<lambda>i. Some (GetValueJS v8 p i si)) ks) = JsArray (map Some vs) \<and> list_all (column_value si) vs" for ks
    by (rule exI [of _ "map (\<lambda>i. GetValueJS v8 p i si) ks"]) (simp add: list_all_iff GetValueJS_shape)
  then show ?thesis using RAW unfolding row_shape_def GetRowJS_def GetRawRowJS_def by simp
qed (simp_all add: row_shape_def GetRowJS_def flat_shape GetValueJS_shape expand_shape)

text \<open>Starting a statement does not change how its rows are shown.\<close>

lemma START_mode:
  assumes "STATEMENT_START env rcs mutate i info s d = (r, s', d')"
  shows "st_mode s' = st_mode s \<and> st_safe_ints s' = st_safe_ints s"
proof -
  obtain r1 s1 d1 where l: "STATEMENT_START_LOGIC env rcs mutate i info s d = (r1, s1, d1)" by (metis prod.exhaust)
  then have "st_mode s1 = st_mode s \<and> st_safe_ints s1 = st_safe_ints s"
    unfolding STATEMENT_START_LOGIC_def by (auto simp: Let_def split: option.split_asm if_splits)
  moreover have "s' = s1" using assms l unfolding STATEMENT_START_def
    by (auto split: option.split_asm prod.split_asm bool.split_asm)
  ultimately show ?thesis by simp
qed

lemma NoriaRow_shape: "NoriaRowToJS v8 rs k names si = JsNull \<or> object_of (column_value si) (NoriaRowToJS v8 rs k names si)"
proof -
  have v: "column_value si (NoriaValueToV8 v8 si nv)" for nv
    by (cases nv) (auto simp: column_value_def NoriaValueToV8_def)
  have n: "column_value si JsNull" by (simp add: column_value_def)
  have "list_all (column_value si) (map (\<lambda>i. case GetValue rs k i of Some nv \<Rightarrow> NoriaValueToV8 v8 si nv | None \<Rightarrow> JsNull) ks)" for ks
    using v n by (auto simp: list_all_iff split: option.split)
  then show ?thesis unfolding NoriaRowToJS_def Let_def by (auto intro!: object_New_shape zip_snd_all)
qed

lemma TryNoriaGet_shape:
  assumes "TryNoriaGet env info c s d = Some (Some v, d')"
  shows "v = JsUndefined \<or> v = JsNull \<or> row_shape (st_safe_ints s) (st_mode s) v"
proof -
  have m: "st_mode s = FLAT" using assms by (auto simp: TryNoriaGet_def split: if_splits)
  obtain rs where "v = JsUndefined \<or> v = NoriaRowToJS (e_v8 env) rs 0 (st_column_names s) (st_safe_ints s)"
    using assms unfolding TryNoriaGet_def
    by (auto simp: bind_eq_Some_conv Let_def case_prod_unfold split: if_splits option.split_asm)
  then show ?thesis using NoriaRow_shape [of "e_v8 env" rs 0 "st_column_names s" "st_safe_ints s"] m by (auto simp: row_shape_def)
qed

section \<open>Properties\<close>

text \<open>C31: \<open>all()\<close> returns on every statement that gives finitely many rows, with the array of exactly these
  rows in order, in the mode of the statement; the connection is not busy afterwards.\<close>

theorem all_returns_rows:
  assumes "d_statement d i = Some s" "done_ok env"
    and "STATEMENT_START env [REQUIRE_STATEMENT_RETURNS_DATA s] DOES_NOT_MUTATE i info s d = (None, s0, d0)"
    and "row_states env n (d_handle d0) (st_handle s0) = Some ps" "same_columns ps" "n \<le> 0xffffffff"
  shows "\<exists>d'. JS_all env i info d =
      Some (Returns (JsArray (map (\<lambda>p. Some (GetRowJS (e_v8 env) p (st_safe_ints s0) (st_mode s0))) ps)), d') \<and> \<not> d_busy d'"
proof -
  let ?rs = "map (\<lambda>p. GetRowJS (e_v8 env) p (st_safe_ints s0) (st_mode s0)) ps"
  have rb: "builder_for (e_v8 env) (st_safe_ints s0) ps (RowBuilder_new (st_safe_ints s0))"
    by (simp add: builder_for_def RowBuilder_new_def)
  obtain s' d' where a: "all_rows env i (RowBuilder_new (st_safe_ints s0)) [] s0 d0 = Some (?rs, s', d')"
    "fst (e_reset env (d_handle d') (st_handle s')) = SQLITE_OK"
    using all_rows_states [OF assms(4,5) rb assms(2), of i "[]"] by auto
  obtain s'' d'' where r: "do_reset env i s' d' = (SQLITE_OK, s'', d'')"
    using a(2) by (cases "e_reset env (d_handle d') (st_handle s')") (simp add: do_reset_def Let_def)
  have len: "length ?rs \<le> 0xffffffff" using row_states_length [OF assms(4)] assms(6) by simp
  have "JS_all env i info d = Some (STATEMENT_RETURN i (st_bound s'') (JsArray (map Some ?rs)) d'')"
    using assms(1,3) a(1) r len unfolding JS_all_def by (simp only: bind.simps prod.case option.case Let_def refl simp_thms if_True)
  then show ?thesis by (simp add: STATEMENT_RETURN_def STATEMENT_RETURN_LOGIC_def o_def)
qed

lemma example_START:
  "STATEMENT_START example_env [REQUIRE_STATEMENT_RETURNS_DATA example_statement] DOES_NOT_MUTATE 0 [] example_statement (example_database n) =
     (None, example_statement, (set_statement 0 example_statement (example_database n))\<lparr>d_busy := True\<rparr>)"
proof -
  have "first_error (DOES_NOT_MUTATE example_statement (example_database n)) = None"
    by (simp add: first_error_None DOES_NOT_MUTATE_def) (simp add: example_statement_def)
  from example_START_LOGIC [of DOES_NOT_MUTATE n, OF this] show ?thesis
    by (simp add: STATEMENT_START_def Log_def set_statement_def example_database_simps)
qed

lemma example_done_ok: "done_ok example_env"
  by (auto simp: done_ok_def example_env_def split: if_splits)

lemma example_rows: "row_states example_env 2 2 example_select = Some [example_select, example_select]"
  by (simp add: example_env_def numeral_2_eq_2)

theorem all_returns_rows_witness:
  "\<exists>d'. JS_all example_env 0 [] (example_database 2) =
     Some (Returns (JsArray (map (\<lambda>p. Some (GetRowJS (e_v8 example_env) p False FLAT)) [example_select, example_select])), d') \<and> \<not> d_busy d'"
proof -
  have "row_states example_env 2 (d_handle ((set_statement 0 example_statement (example_database 2))\<lparr>d_busy := True\<rparr>)) (st_handle example_statement) =
      Some [example_select, example_select]"
    using example_rows by (simp add: set_statement_def example_database_simps) (simp add: example_statement_def)
  from all_returns_rows [OF example_database_simps(5) example_done_ok example_START this]
  show ?thesis by (simp add: same_columns_def example_statement_def)
qed

text \<open>C32: An iterator ends: over a statement that gives \<open>n\<close> rows, the first \<open>n\<close> calls of \<open>next()\<close> return the
  rows in order, the rows of \<open>all()\<close>, and the one after them the final record; the iterator is then
  dead, its statement unlocked and the counter of iterators one less.\<close>

theorem iterator_ends:
  assumes "row_states env n (d_handle d) (st_handle s) = Some ps"
    and "d_iterator d j = Some it" "si_alive it" "si_logged it" "d_statement d (si_stmt it) = Some s" "\<not> d_busy d"
  shows "\<exists>d'. next_calls env j (Suc n) d =
      Some (map (\<lambda>p. Returns (NewRecord env (GetRowJS (e_v8 env) p (si_safe_ints it) (si_mode it)) False)) ps @ [Returns (DoneRecord env)], d') \<and>
    owner d' j = None \<and> \<not> locked d' (si_stmt it) \<and> d_iterators d' = d_iterators d - 1"
  using next_calls_rows [OF assms(1), of j it] assms(2-) by (simp add: running_def)

theorem iterator_ends_witness:
  "\<exists>d'. next_calls example_env 0 3 (add_iterator 0 example_statement (StatementIterator_new (example_database 2) 0 example_statement False) (example_database 2)) =
      Some (map (\<lambda>p. Returns (NewRecord example_env (GetRowJS (e_v8 example_env) p False FLAT) False)) [example_select, example_select] @
        [Returns (DoneRecord example_env)], d') \<and> owner d' 0 = None \<and> \<not> locked d' 0"
proof -
  let ?it = "StatementIterator_new (example_database 2) 0 example_statement False"
  let ?d = "add_iterator 0 example_statement ?it (example_database 2)"
  have n: "d_next_iterator (example_database 2) = 0" by (simp add: example_database_def add_statement_def set_statement_def Database_new_def)
  have it: "si_stmt ?it = 0" "si_alive ?it" "si_logged ?it" "si_safe_ints ?it = False" "si_mode ?it = FLAT"
    by (simp_all add: StatementIterator_new_def example_database_simps) (simp_all add: example_statement_def)
  have d: "d_handle ?d = 2" "d_iterator ?d 0 = Some ?it" "d_statement ?d 0 = Some (example_statement\<lparr>st_locked := True\<rparr>)" "\<not> d_busy ?d"
    using n by (simp_all add: add_iterator_def set_statement_def example_database_simps)
  have "row_states example_env 2 (d_handle ?d) (st_handle (example_statement\<lparr>st_locked := True\<rparr>)) = Some [example_select, example_select]"
    unfolding d(1) using example_rows by (simp add: example_statement_def)
  note e = iterator_ends [OF this d(2) it(2,3) _ d(4), unfolded it, OF d(3)]
  moreover have "Suc 2 = (3 :: nat)" by simp
  ultimately show ?thesis by (elim exE) (metis (no_types, lifting))
qed

text \<open>C33: The type of what \<open>get()\<close> returns: \<open>undefined\<close> if there is no row, else a row of the shape of the
  statement's mode - a plain object with a column value for each name, the value of the first
  column, a plain object of such objects, or an array of column values - where a column value is
  null, a number, a string, a buffer, or, with safe integers only, a bigint.  A row of the engine
  without columns shows as null.\<close>

theorem get_type:
  assumes "JS_get env i info d = Some (Returns v, d')" "d_statement d i = Some s"
  shows "v = JsUndefined \<or> v = JsNull \<or> row_shape (st_safe_ints s) (st_mode s) v"
proof -
  obtain r0 s0 d0 where st: "STATEMENT_START env [REQUIRE_STATEMENT_RETURNS_DATA s] DOES_NOT_MUTATE i info s d = (r0, s0, d0)"
    by (metis prod.exhaust)
  note m = START_mode [OF st]
  show ?thesis
  proof (cases r0)
    case None
    obtain a da where a: "TryNoriaGet env info False s0 d0 = Some (a, da)"
      using assms st None by (auto simp: JS_get_def bind_eq_Some_conv)
    show ?thesis
    proof (cases a)
      case (Some w)
      then have "v = w" using assms st None a by (simp add: JS_get_def)
      then show ?thesis using TryNoriaGet_shape [of env info False s0 d0 w da] a Some m by simp
    next
      case no: None
      obtain rc1 s1 d1 where step: "do_step env i s0 da = (rc1, s1, d1)" by (metis prod.exhaust)
      obtain rc2 s2 d2 where reset: "do_reset env i s1 d1 = (rc2, s2, d2)" by (metis prod.exhaust)
      have sm: "st_mode s1 = st_mode s0" "st_safe_ints s1 = st_safe_ints s0"
        using step by (auto simp: do_step_def Let_def split: prod.split_asm)
      have "(if rc1 = SQLITE_ROW
          then STATEMENT_RETURN i (st_bound s2) (GetRowJS (e_v8 env) (st_handle s1) (st_safe_ints s1) (st_mode s1)) d2
          else if rc1 = SQLITE_DONE then STATEMENT_RETURN i (st_bound s2) JsUndefined d2
          else STATEMENT_THROW env i (st_bound s2) d2) = (Returns v, d')"
        using assms st None a no step reset by (simp add: JS_get_def Let_def)
      then have "v = JsUndefined \<or> v = GetRowJS (e_v8 env) (st_handle s1) (st_safe_ints s1) (st_mode s1)"
        by (auto simp: STATEMENT_RETURN_def STATEMENT_RETURN_LOGIC_def STATEMENT_THROW_def STATEMENT_THROW_LOGIC_def
            ThrowDatabaseError_def split: if_splits)
      then show ?thesis using row_shape [of "st_safe_ints s1" "st_mode s1"] m sm by auto
    qed
  next
    case (Some e)
    then have e: "e = Returns v" using assms st by (simp add: JS_get_def)
    obtain r1 s1 d1 where l: "STATEMENT_START_LOGIC env [REQUIRE_STATEMENT_RETURNS_DATA s] DOES_NOT_MUTATE i info s d = (r1, s1, d1)"
      by (metis prod.exhaust)
    have "\<forall>x. r1 = Some x \<longrightarrow> (\<exists>y. x = Throws y)"
      using l unfolding STATEMENT_START_LOGIC_def by (auto simp: Let_def split: option.split_asm if_splits)
    moreover have "\<exists>y. fst (STATEMENT_THROW env i b d) = Throws y" for b d
      by (auto simp: STATEMENT_THROW_def STATEMENT_THROW_LOGIC_def ThrowDatabaseError_def)
    ultimately have "\<exists>y. e = Throws y"
      using st l Some unfolding STATEMENT_START_def
      by (auto split: option.split_asm prod.split_asm bool.split_asm) (metis fst_conv)
    then show ?thesis using e by simp
  qed
qed

theorem get_type_witness:
  "\<exists>v d'. JS_get example_env 0 [] (example_database 1) = Some (Returns v, d') \<and> (v = JsUndefined \<or> v = JsNull \<or> row_shape False FLAT v)"
proof -
  have "TryNoriaGet example_env [] False example_statement d = Some (None, d)" for d
    by (simp add: TryNoriaGet_def) (simp add: example_statement_def)
  moreover have "e_step example_env 1 (st_handle example_statement) = (SQLITE_ROW, example_select, 0, False, id)"
    by (simp add: example_env_def example_statement_def)
  ultimately have "\<exists>v d'. JS_get example_env 0 [] (example_database 1) = Some (Returns v, d')"
    using example_START [of 1] unfolding JS_get_def
    by (simp add: example_database_simps do_step_def do_reset_def Let_def set_statement_def STATEMENT_RETURN_def STATEMENT_RETURN_LOGIC_def
        split: prod.split)
  then obtain v d' where v: "JS_get example_env 0 [] (example_database 1) = Some (Returns v, d')" by blast
  from get_type [OF v example_database_simps(5)] v show ?thesis by (auto simp: example_statement_def)
qed

end
