(* ===== verification/ConnectionCdc.thy ===== *)
theory ConnectionCdc
  imports ConnectionProps
begin

text \<open>
  When the engine learns of the changes of a statement: the notification in \<open>run()\<close>, and the keys the
  cache is asked with.
\<close>

section \<open>Running a statement\<close>

lemma throw_throws: "\<exists>e. fst (STATEMENT_THROW env i b d) = Throws e"
  by (auto simp: STATEMENT_THROW_def STATEMENT_THROW_LOGIC_def ThrowDatabaseError_def)

lemma clear_fields [simp]: "d_noria (clear_unless_bound i b d) = d_noria d" "d_handle (clear_unless_bound i b d) = d_handle d"
  by (auto simp: clear_unless_bound_def set_statement_def split: option.split)

lemma START_throws:
  assumes "STATEMENT_START env rcs mutate i info s d = (Some r, s', d')"
  shows "\<exists>e. r = Throws e"
proof -
  obtain r1 s1 d1 where l: "STATEMENT_START_LOGIC env rcs mutate i info s d = (r1, s1, d1)" by (metis prod.exhaust)
  have "\<forall>x. r1 = Some x \<longrightarrow> (\<exists>y. x = Throws y)"
    using l unfolding STATEMENT_START_LOGIC_def by (auto simp: Let_def split: option.split_asm if_splits)
  then show ?thesis using assms l throw_throws [of env i] unfolding STATEMENT_START_def
    by (auto split: option.split_asm prod.split_asm bool.split_asm) (metis fst_conv)
qed

lemma START_kept_kind:
  assumes "STATEMENT_START env rcs mutate i info s d = (None, s', d')"
  shows "st_stmt_type s' = st_stmt_type s" "st_table_id s' = st_table_id s" "d_handle d' = d_handle d" "d_noria d' = d_noria d"
proof -
  obtain r1 s1 d1 where l: "STATEMENT_START_LOGIC env rcs mutate i info s d = (r1, s1, d1)" by (metis prod.exhaust)
  have k: "st_stmt_type s1 = st_stmt_type s" "st_table_id s1 = st_table_id s" "d_handle d1 = d_handle d" "d_noria d1 = d_noria d"
    using l unfolding STATEMENT_START_LOGIC_def
    by (auto simp: Let_def set_statement_def split: option.split_asm if_splits)
  obtain t d2 where g: "Log env (st_handle s1) (d1\<lparr>d_busy := True\<rparr>) = (t, d2)" by (metis prod.exhaust)
  have "d_handle d2 = d_handle d1" "d_noria d2 = d_noria d1" using g by (auto simp: Log_def Let_def split: if_splits)
  moreover have "s' = s1 \<and> d' = d2" using assms l g unfolding STATEMENT_START_def
    by (auto split: option.split_asm prod.split_asm bool.split_asm)
  ultimately show "st_stmt_type s' = st_stmt_type s" "st_table_id s' = st_table_id s" "d_handle d' = d_handle d" "d_noria d' = d_noria d"
    using k by simp_all
qed

text \<open>A call of \<open>run()\<close> that returns, step by step.\<close>

lemma JS_run_returns:
  assumes "JS_run env i info d = Some (Returns v, d')" "d_statement d i = Some s"
  obtains s0 d0 rc1 s1 d1 s2 d2 c d3 where
    "STATEMENT_START env [] DOES_MUTATE i info s d = (None, s0, d0)" "do_step env i s0 d0 = (rc1, s1, d1)"
    "do_reset env i s1 d1 = (SQLITE_OK, s2, d2)"
    "c = (if e_total_changes env (d_handle d2) = e_total_changes env (d_handle d0) then 0 else e_changes env (d_handle d2))"
    "(if cdc_needed s2 c (autocommit (e_conn env (d_handle d0))) (autocommit (e_conn env (d_handle d2))) then NotifyCdc env d2 else Some d2) = Some d3"
    "d_noria d' = d_noria d3"
proof -
  obtain r0 s0 d0 where st: "STATEMENT_START env [] DOES_MUTATE i info s d = (r0, s0, d0)" by (metis prod.exhaust)
  have r0: "r0 = None"
  proof (cases r0)
    case (Some r)
    then have "r = Returns v" using assms st by (simp add: JS_run_def)
    then show ?thesis using START_throws [of env "[]" DOES_MUTATE i info s d r s0 d0] st Some by auto
  qed
  obtain rc1 s1 d1 where step: "do_step env i s0 d0 = (rc1, s1, d1)" by (metis prod.exhaust)
  obtain rc2 s2 d2 where reset: "do_reset env i s1 d1 = (rc2, s2, d2)" by (metis prod.exhaust)
  define c where "c = (if e_total_changes env (d_handle d2) = e_total_changes env (d_handle d0) then 0 else e_changes env (d_handle d2))"
  define w where "w = run_result env (st_safe_ints s2) c (e_last_insert_rowid env (d_handle d2))"
  define b where "b = cdc_needed s2 c (autocommit (e_conn env (d_handle d0))) (autocommit (e_conn env (d_handle d2)))"
  have eq: "(if rc2 = SQLITE_OK then (if b then NotifyCdc env d2 else Some d2) \<bind> (\<lambda>d. Some (STATEMENT_RETURN i (st_bound s2) w d))
      else Some (STATEMENT_THROW env i (st_bound s2) d2)) = Some (Returns v, d')"
    using assms st r0 step reset unfolding JS_run_def b_def w_def c_def Let_def by simp
  have ok: "rc2 = SQLITE_OK"
    using eq throw_throws [of env i "st_bound s2" d2] by (metis fst_conv option.inject outcome.distinct(1))
  then obtain d3 where d3: "(if b then NotifyCdc env d2 else Some d2) = Some d3" "STATEMENT_RETURN i (st_bound s2) w d3 = (Returns v, d')"
    using eq by (auto simp: bind_eq_Some_conv)
  have "d_noria d' = d_noria d3" using d3(2) by (auto simp: STATEMENT_RETURN_def STATEMENT_RETURN_LOGIC_def)
  then show ?thesis using that [OF st [unfolded r0] step reset [unfolded ok] c_def d3(1) [unfolded b_def]] by blast
qed

lemma step_reset_kind:
  assumes "do_step env i s0 d0 = (rc1, s1, d1)" "do_reset env i s1 d1 = (rc2, s2, d2)"
    and "e_step env (d_handle d0) (st_handle s0) = (rc, p, q, js, f)"
  shows "st_stmt_type s2 = st_stmt_type s0" "st_table_id s2 = st_table_id s0" "d_noria d2 = map_option f (d_noria d0)"
  using assms by (auto simp: do_step_def do_reset_def Let_def set_statement_def split: prod.split_asm)

text \<open>A write that needs a notification gives the wrapper the state after the notification.\<close>

lemma JS_run_notifies:
  assumes "d_statement d i = Some s" "STATEMENT_START env [] DOES_MUTATE i info s d = (None, s0, d0)"
    and "e_step env (d_handle d) (st_handle s0) = (rc, p, q, js, hooks)" "e_reset env q p = (SQLITE_OK, p', q')"
    and "st_stmt_type s \<in> {STMT_INSERT, STMT_UPDATE, STMT_DELETE} \<and> st_table_id s \<noteq> -2 \<and>
      e_total_changes env q' \<noteq> e_total_changes env (d_handle d) \<and> e_changes env q' > 0 \<or>
      \<not> autocommit (e_conn env (d_handle d)) \<and> autocommit (e_conn env q')"
    and "d_noria d = Some n" "m_has_any_views (hooks n)" "NotifyChange (e_engine env) (e_conn env q') (hooks n) = Some n'"
  shows "\<exists>v d'. JS_run env i info d = Some (Returns v, d') \<and> d_noria d' = Some n' \<and> d_handle d' = q'"
proof -
  note k = START_kept_kind [OF assms(2)]
  obtain s1 d1 where step: "do_step env i s0 d0 = (rc, s1, d1)" "d_handle d1 = q" "st_handle s1 = p"
    using assms(3) k(3) by (auto simp: do_step_def set_statement_def Let_def)
  obtain s2 d2 where reset: "do_reset env i s1 d1 = (SQLITE_OK, s2, d2)" "d_handle d2 = q'"
    using assms(4) step(2,3) by (auto simp: do_reset_def set_statement_def Let_def)
  note k2 = step_reset_kind [OF step(1) reset(1) assms(3) [folded k(3)]]
  let ?c = "if e_total_changes env (d_handle d2) = e_total_changes env (d_handle d0) then 0 else e_changes env (d_handle d2)"
  have "cdc_needed s2 ?c (autocommit (e_conn env (d_handle d0))) (autocommit (e_conn env (d_handle d2)))"
    using assms(5) by (auto simp: cdc_needed_def k k2 reset(2))
  moreover have "NotifyCdc env d2 = Some (d2\<lparr>d_noria := Some n'\<rparr>)"
    using assms(6-8) by (simp add: NotifyCdc_def k k2 reset(2) HasAnyViews_def)
  ultimately have "JS_run env i info d = Some (STATEMENT_RETURN i (st_bound s2)
      (run_result env (st_safe_ints s2) ?c (e_last_insert_rowid env (d_handle d2))) (d2\<lparr>d_noria := Some n'\<rparr>))"
    using assms(1,2) step(1) reset(1) unfolding JS_run_def Let_def by simp
  then show ?thesis using reset(2) by (simp add: STATEMENT_RETURN_def STATEMENT_RETURN_LOGIC_def)
qed

section \<open>Properties\<close>

text \<open>C34: \<open>run()\<close> on a statement that is not recognised as an INSERT, UPDATE or DELETE never notifies the engine
  outside a transaction: the wrapper has only seen the change hooks.  A REPLACE, an INSERT behind a
  WITH clause and one behind a comment are not recognised.\<close>

theorem run_not_notified:
  assumes "JS_run env i info d = Some (Returns v, d')" "d_statement d i = Some s"
    and "st_stmt_type s \<notin> {STMT_INSERT, STMT_UPDATE, STMT_DELETE}" "autocommit (e_conn env (d_handle d))"
  shows "(\<exists>p rc p' q js f. e_step env (d_handle d) p = (rc, p', q, js, f) \<and> d_noria d' = map_option f (d_noria d)) \<and>
    fst (DetectStatementType (Some (lit ''REPLACE INTO t VALUES (1)''))) = STMT_OTHER \<and>
    fst (DetectStatementType (Some (lit ''WITH c AS (SELECT 1) INSERT INTO t SELECT * FROM c''))) = STMT_OTHER \<and>
    fst (DetectStatementType (Some (lit ''/* log */ INSERT INTO t VALUES (1)''))) = STMT_OTHER"
proof -
  obtain s0 d0 rc1 s1 d1 s2 d2 c d3 where j: "STATEMENT_START env [] DOES_MUTATE i info s d = (None, s0, d0)"
    "do_step env i s0 d0 = (rc1, s1, d1)" "do_reset env i s1 d1 = (SQLITE_OK, s2, d2)"
    "(if cdc_needed s2 c (autocommit (e_conn env (d_handle d0))) (autocommit (e_conn env (d_handle d2))) then NotifyCdc env d2 else Some d2) = Some d3"
    "d_noria d' = d_noria d3" using JS_run_returns [OF assms(1,2)] by metis
  note k = START_kept_kind [OF j(1)]
  obtain rc p q js f where e: "e_step env (d_handle d0) (st_handle s0) = (rc, p, q, js, f)" by (metis prod.exhaust)
  note k2 = step_reset_kind [OF j(2,3) e]
  have "\<not> cdc_needed s2 c (autocommit (e_conn env (d_handle d0))) b" for b
    using assms(3,4) k k2(1) by (simp add: cdc_needed_def)
  then have "d_noria d' = map_option f (d_noria d)" using j(4,5) k(4) k2(3) by simp
  moreover have "fst (DetectStatementType (Some (lit ''REPLACE INTO t VALUES (1)''))) = STMT_OTHER"
    "fst (DetectStatementType (Some (lit ''WITH c AS (SELECT 1) INSERT INTO t SELECT * FROM c''))) = STMT_OTHER"
    "fst (DetectStatementType (Some (lit ''/* log */ INSERT INTO t VALUES (1)''))) = STMT_OTHER"
    by (simp_all add: DetectStatementType_def lit_def starts_with_def toupper_def Let_def)
  ultimately show ?thesis using e [unfolded k(3)] by blast
qed

lemma example_START_run:
  "STATEMENT_START example_env [] DOES_MUTATE 0 [] example_statement (example_database n) =
     (None, example_statement, (set_statement 0 example_statement (example_database n))\<lparr>d_busy := True\<rparr>)"
proof -
  have "first_error ([REQUIRE_DATABASE_OPEN (example_database n), REQUIRE_DATABASE_NOT_BUSY (example_database n)] @
      DOES_MUTATE example_statement (example_database n)) = None"
    by (simp add: first_error_None example_database_simps DOES_MUTATE_def REQUIRE_DATABASE_NO_ITERATORS_UNLESS_UNSAFE_def)
      (simp add: example_statement_def)
  then have "STATEMENT_START_LOGIC example_env [] DOES_MUTATE 0 [] example_statement (example_database n) =
     (None, example_statement, set_statement 0 example_statement (example_database n))"
    by (simp add: STATEMENT_START_LOGIC_def) (simp add: example_statement_def example_bind Let_def)
  then show ?thesis by (simp add: STATEMENT_START_def Log_def example_database_simps set_statement_def)
qed

theorem run_not_notified_witness:
  "\<exists>v d' f. JS_run example_env 0 [] (example_database 0) = Some (Returns v, d') \<and>
     d_noria d' = map_option f (d_noria (example_database 0))"
proof -
  have e: "e_step example_env 0 p = (SQLITE_DONE, p, 0, False, id)" "e_reset example_env 0 p = (SQLITE_OK, p, 0)"
    "autocommit (e_conn example_env q)" "e_total_changes example_env q = 0" for p q
    by (simp_all add: example_env_def example_connection_def)
  have "\<exists>v d'. JS_run example_env 0 [] (example_database 0) = Some (Returns v, d')"
    unfolding JS_run_def by (simp add: example_database_simps example_START_run do_step_def do_reset_def e Let_def set_statement_def
        cdc_needed_def STATEMENT_RETURN_def STATEMENT_RETURN_LOGIC_def)
  then obtain v d' where r: "JS_run example_env 0 [] (example_database 0) = Some (Returns v, d')" by blast
  have "st_stmt_type example_statement \<notin> {STMT_INSERT, STMT_UPDATE, STMT_DELETE}" by (simp add: example_statement_def)
  from run_not_notified [OF r example_database_simps(5) this e(3)] r show ?thesis by blast
qed

text \<open>C35: A row served from the cache is the row SQLite would give: if the engine answers with the values of
  the row, as the upquery and the change capture convert them, and the cached names are those of the
  columns, then the object is the same.  An integral number as an argument is looked up as the integer,
  and NaN has no defined key.\<close>

theorem cached_row_same:
  assumes "pResultRow p = Some row" "length row = sqlite3_column_count p" "row \<noteq> []"
    and "names = map (column_key v8 p) [0..<sqlite3_column_count p]" "rs = Some [map (\<lambda>v. SqliteValueToNoria (Some v)) row]"
    and "\<bar>i\<bar> \<le> 2 ^ 53"
  shows "NoriaRowToJS v8 rs 0 names safe_ints = GetFlatRowJS v8 p safe_ints \<and>
    V8ToNoriaKey v8 (JsNumber (double_of_int i)) = Some (NORIA_INTEGER (word_of_int i)) \<and>
    V8ToNoriaKey v8 (JsNumber 0x7ff8000000000000) = None"
proof -
  let ?n = "sqlite3_column_count p"
  have val: "NoriaValueToV8 v8 safe_ints (SqliteValueToNoria (Some v)) = SQLITE_VALUE_TO_JS v8 safe_ints v" for v
    by (cases v) (simp_all add: NoriaValueToV8_def SqliteValueToNoria_def SQLITE_VALUE_TO_JS_def)
  have "(case GetValue rs 0 k of Some nv \<Rightarrow> NoriaValueToV8 v8 safe_ints nv | None \<Rightarrow> JsNull) = GetValueJS v8 p k safe_ints" if "k < ?n" for k
    using that assms(1,2,5) by (simp add: GetValue_def GetValueJS_def columnMem_def val)
  then have vs: "map (\<lambda>k. case GetValue rs 0 k of Some nv \<Rightarrow> NoriaValueToV8 v8 safe_ints nv | None \<Rightarrow> JsNull) [0..<?n] =
      map (\<lambda>k. GetValueJS v8 p k safe_ints) [0..<?n]" by simp
  have cnt: "RowColumnCount rs 0 = ?n" using assms(2,5) by (simp add: RowColumnCount_def)
  have pos: "?n \<noteq> 0" using assms(2,3) by (metis length_0_conv)
  have "NoriaRowToJS v8 rs 0 names safe_ints = GetFlatRowJS v8 p safe_ints"
    unfolding NoriaRowToJS_def cnt Let_def vs assms(4) GetFlatRowJS_def using pos
    by (simp add: zip_map_map zip_same_conv_map comp_def)
  moreover have "V8ToNoriaKey v8 (JsNumber (double_of_int i)) = Some (NORIA_INTEGER (word_of_int i))"
  proof -
    have "\<not> double_is_nan (double_of_int i)"
    proof
      assume nan: "double_is_nan (double_of_int i)"
      have "drop_bit 52 (double_of_int i AND 0x7FF0000000000000) = drop_bit 52 (0x7FF0000000000000 :: u64)"
        using nan by (simp add: double_is_nan_def)
      moreover have "drop_bit 52 (0x7FF0000000000000 :: u64) = 0x7FF" by code_simp
      ultimately have "take_bit 11 (drop_bit 52 (double_of_int i)) = 0x7FF"
        by (simp only: drop_bit_and take_bit_eq_mask mask_eq_decr_exp) simp
      then have "double_exponent (double_of_int i) = 2047" by (simp add: double_exponent_def)
      then show False using int64_of_double_of_int [OF assms(6)] by (simp add: int64_of_double_def Let_def)
    qed
    then show ?thesis using int64_of_double_of_int [OF assms(6)] by (simp add: V8ToNoriaKey_def double_eq_def)
  qed
  moreover have "V8ToNoriaKey v8 (JsNumber 0x7ff8000000000000) = None"
    by (simp add: V8ToNoriaKey_def int64_of_double_def double_exponent_def Let_def)
  ultimately show ?thesis by blast
qed

theorem cached_row_same_witness:
  "NoriaRowToJS example_v8 (Some [[NORIA_INTEGER 7, NORIA_TEXT [0x61]]]) 0 [[0x69], [0x6a]] False = GetFlatRowJS example_v8 example_vdbe False \<and>
   V8ToNoriaKey example_v8 (JsNumber (double_of_int 7)) = Some (NORIA_INTEGER 7)"
  using cached_row_same [of example_vdbe "[VInteger 7, VText [0x61]]" "[[0x69], [0x6a]]" example_v8
      "Some [[NORIA_INTEGER 7, NORIA_TEXT [0x61]]]" 7 False]
  by (simp add: example_vdbe_def sqlite3_column_count_def column_key_def example_v8_def SqliteValueToNoria_def)

end
