(* ===== verification/CustomFunctions.thy ===== *)
theory CustomFunctions
  imports JsData
begin

text \<open>
  User-defined functions and aggregates: util/custom-function.cpp, util/custom-aggregate.cpp and
  util/data-converter.cpp, with the functions of sqlite3.c that set the result of a function and
  keep the memory of an aggregate.

  JavaScript is a parameter: what calling a function and reading a property do, on a state \<open>'w\<close> of the
  JavaScript program.  \<open>None\<close> as a result is an exception.
\<close>

section \<open>JavaScript code\<close>

record 'w js_runtime =
  js_call :: "js_value \<Rightarrow> js_value \<Rightarrow> js_value list \<Rightarrow> 'w \<Rightarrow> js_value option \<times> 'w"
  js_get :: "js_value \<Rightarrow> js_string \<Rightarrow> 'w \<Rightarrow> js_value option \<times> 'w"
  js_get_index :: "js_value \<Rightarrow> nat \<Rightarrow> 'w \<Rightarrow> js_value option \<times> 'w"

section \<open>The context of a call\<close>

text \<open>
  The memory of an aggregate function.  An empty handle of V8 is \<open>None\<close>; fresh memory is zeroed.
\<close>

record accumulator =
  acc_value :: "js_value option"
  initialized :: bool
  is_window :: bool

definition Accumulator_zero :: accumulator where
  "Accumulator_zero = \<lparr>acc_value = None, initialized = False, is_window = False\<rparr>"

text \<open>
  \<open>pMem\<close>: \<open>None\<close> before the memory has been asked for, then \<open>Some z\<close>, where \<open>z\<close> is \<open>None\<close> for the null
  pointer.  \<open>pVdbe\<close> has the length limit and the allocator.
\<close>

record sqlite3_context =
  pOut :: sqlite3_value
  pMem :: "accumulator option option"
  pVdbe :: vdbe
  isError :: rc

definition sqlite3VdbeMemTooBig :: "vdbe \<Rightarrow> sqlite3_value \<Rightarrow> bool" where
  "sqlite3VdbeMemTooBig p v = (case v of VText z \<Rightarrow> length z > lengthLimit p | VBlob z \<Rightarrow> length z > lengthLimit p | _ \<Rightarrow> False)"

text \<open>The message is a static string, for which nothing is allocated.\<close>

definition sqlite3_result_error_toobig :: "sqlite3_context \<Rightarrow> sqlite3_context" where
  "sqlite3_result_error_toobig c = c\<lparr>isError := SQLITE_TOOBIG,
     pOut := snd (sqlite3VdbeMemSetStr ((pVdbe c)\<lparr>memOk := \<lambda>_. True\<rparr>) (lit ''string or blob too big'' @ [0]) (-1) SQLITE_UTF8)\<rparr>"

definition sqlite3_result_error_nomem :: "sqlite3_context \<Rightarrow> sqlite3_context" where
  "sqlite3_result_error_nomem c = c\<lparr>pOut := VNull, isError := SQLITE_NOMEM\<rparr>"

definition setResultStrOrError :: "sqlite3_context \<Rightarrow> bytes \<Rightarrow> int \<Rightarrow> u8 \<Rightarrow> sqlite3_context" where
  "setResultStrOrError c z n enc =
     (let (rc, v) = sqlite3VdbeMemSetStr (pVdbe c) z n enc;
          c = c\<lparr>pOut := v\<rparr>
      in if rc \<noteq> SQLITE_OK then (if rc = SQLITE_TOOBIG then sqlite3_result_error_toobig c else sqlite3_result_error_nomem c)
         else if sqlite3VdbeMemTooBig (pVdbe c) v then sqlite3_result_error_toobig c
         else c)"

definition sqlite3_result_blob :: "sqlite3_context \<Rightarrow> bytes \<Rightarrow> int \<Rightarrow> sqlite3_context" where
  "sqlite3_result_blob c z n = setResultStrOrError c z n 0"

definition sqlite3_result_text :: "sqlite3_context \<Rightarrow> bytes \<Rightarrow> int \<Rightarrow> sqlite3_context" where
  "sqlite3_result_text c z n = setResultStrOrError c z n SQLITE_UTF8"

definition sqlite3_result_double :: "sqlite3_context \<Rightarrow> u64 \<Rightarrow> sqlite3_context" where
  "sqlite3_result_double c rVal = c\<lparr>pOut := sqlite3VdbeMemSetDouble rVal\<rparr>"

definition sqlite3_result_int64 :: "sqlite3_context \<Rightarrow> u64 \<Rightarrow> sqlite3_context" where
  "sqlite3_result_int64 c iVal = c\<lparr>pOut := VInteger iVal\<rparr>"

definition sqlite3_result_null :: "sqlite3_context \<Rightarrow> sqlite3_context" where
  "sqlite3_result_null c = c\<lparr>pOut := VNull\<rparr>"

definition sqlite3_result_error :: "sqlite3_context \<Rightarrow> bytes \<Rightarrow> int \<Rightarrow> sqlite3_context" where
  "sqlite3_result_error c z n = c\<lparr>isError := SQLITE_ERROR, pOut := snd (sqlite3VdbeMemSetStr (pVdbe c) z n SQLITE_UTF8)\<rparr>"

text \<open>The memory is allocated and zeroed by the first call; \<open>nByte\<close> is positive.\<close>

definition createAggContext :: "sqlite3_context \<Rightarrow> nat \<Rightarrow> accumulator option \<times> sqlite3_context" where
  "createAggContext c nByte =
     (let z = (if memOk (pVdbe c) nByte then Some Accumulator_zero else None) in (z, c\<lparr>pMem := Some z\<rparr>))"

definition sqlite3_aggregate_context :: "sqlite3_context \<Rightarrow> nat \<Rightarrow> accumulator option \<times> sqlite3_context" where
  "sqlite3_aggregate_context c nByte = (case pMem c of None \<Rightarrow> createAggContext c nByte | Some z \<Rightarrow> (z, c))"

section \<open>Results\<close>

text \<open>
  What a callback works on: the context of SQLite, the flag of the database that JavaScript code has
  thrown, the pending exception, and the JavaScript program.
\<close>

record 'w callback =
  cb_context :: sqlite3_context
  was_js_error :: bool
  cb_thrown :: "js_error option"
  cb_world :: 'w

definition ThrowDataConversionError ::
  "bytes \<Rightarrow> ('w callback \<Rightarrow> 'w callback) \<Rightarrow> bool \<Rightarrow> 'w callback \<Rightarrow> 'w callback" where
  "ThrowDataConversionError prefix PropagateJSError isBigInt st =
     PropagateJSError (st\<lparr>cb_thrown := Some (if isBigInt then RangeError (prefix @ lit '' a bigint that was too big'')
                                             else TypeError (prefix @ lit '' an invalid value''))\<rparr>)"

definition ResultValueFromJS ::
  "v8_api \<Rightarrow> bytes \<Rightarrow> ('w callback \<Rightarrow> 'w callback) \<Rightarrow> js_value \<Rightarrow> 'w callback \<Rightarrow> 'w callback" where
  "ResultValueFromJS v8 prefix PropagateJSError val st =
     (let c = cb_context st
      in case JS_VALUE_TO_SQLITE v8 (sqlite3_result_double c) (sqlite3_result_int64 c) (sqlite3_result_text c)
                (sqlite3_result_blob c) (sqlite3_result_null c) val of
           Some c \<Rightarrow> st\<lparr>cb_context := c\<rparr>
         | None \<Rightarrow> ThrowDataConversionError prefix PropagateJSError (IsBigInt val) st)"

text \<open>Calling a function, with an exception left pending.\<close>

definition call_function :: "'w js_runtime \<Rightarrow> js_value \<Rightarrow> js_value \<Rightarrow> js_value list \<Rightarrow> 'w callback \<Rightarrow> js_value option \<times> 'w callback" where
  "call_function js f this args st =
     (case js_call js f this args (cb_world st) of
        (Some v, w) \<Rightarrow> (Some v, st\<lparr>cb_world := w\<rparr>)
      | (None, w) \<Rightarrow> (None, st\<lparr>cb_world := w, cb_thrown := Some UserException\<rparr>))"

section \<open>Functions\<close>

record custom_function =
  cf_name :: bytes
  cf_fn :: js_value
  cf_safe_ints :: bool

definition CustomFunction_new :: "bytes \<Rightarrow> js_value \<Rightarrow> bool \<Rightarrow> custom_function" where
  "CustomFunction_new name fn safe_ints = \<lparr>cf_name = name, cf_fn = fn, cf_safe_ints = safe_ints\<rparr>"

definition CustomFunction_PropagateJSError :: "'w callback \<Rightarrow> 'w callback" where
  "CustomFunction_PropagateJSError st =
     st\<lparr>was_js_error := True, cb_context := sqlite3_result_error (cb_context st) [] 0\<rparr>"

definition GetDataErrorPrefix :: "'a custom_function_scheme \<Rightarrow> bytes" where
  "GetDataErrorPrefix self = lit ''User-defined function '' @ cf_name self @ lit ''() returned''"

definition xFunc :: "v8_api \<Rightarrow> 'w js_runtime \<Rightarrow> custom_function \<Rightarrow> sqlite3_value list \<Rightarrow> 'w callback \<Rightarrow> 'w callback" where
  "xFunc v8 js self argv st =
     (case call_function js (cf_fn self) JsUndefined (GetArgumentsJS v8 argv (cf_safe_ints self)) st of
        (None, st) \<Rightarrow> CustomFunction_PropagateJSError st
      | (Some v, st) \<Rightarrow> ResultValueFromJS v8 (GetDataErrorPrefix self) CustomFunction_PropagateJSError v st)"

section \<open>Aggregates\<close>

record custom_aggregate = custom_function +
  invoke_result :: bool
  invoke_start :: bool
  ag_inverse :: js_value
  ag_result :: js_value
  ag_start :: js_value

definition is_function :: "js_value \<Rightarrow> bool" where
  "is_function v \<longleftrightarrow> (case v of JsFunction _ \<Rightarrow> True | _ \<Rightarrow> False)"

definition CustomAggregate_new ::
  "bytes \<Rightarrow> js_value \<Rightarrow> js_value \<Rightarrow> js_value \<Rightarrow> js_value \<Rightarrow> bool \<Rightarrow> custom_aggregate" where
  "CustomAggregate_new name start step inverse_fn result safe_ints =
     \<lparr>cf_name = name, cf_fn = step, cf_safe_ints = safe_ints, invoke_result = is_function result,
      invoke_start = is_function start, ag_inverse = inverse_fn, ag_result = result, ag_start = start\<rparr>"

text \<open>The size of an \<open>Accumulator\<close>, a pointer and two flags.\<close>

abbreviation sizeof_Accumulator :: nat where "sizeof_Accumulator \<equiv> 16"

text \<open>Writing to the memory of the aggregate, which must have been allocated.\<close>

definition set_acc :: "accumulator \<Rightarrow> 'w callback \<Rightarrow> 'w callback" where
  "set_acc acc st = st\<lparr>cb_context := (cb_context st)\<lparr>pMem := Some (Some acc)\<rparr>\<rparr>"

text \<open>\<open>None\<close>: the memory could not be allocated and the null pointer is followed.\<close>

definition DestroyAccumulator :: "'w callback \<Rightarrow> 'w callback option" where
  "DestroyAccumulator st =
     (case sqlite3_aggregate_context (cb_context st) sizeof_Accumulator of
        (None, _) \<Rightarrow> None
      | (Some acc, c) \<Rightarrow> Some (set_acc (acc\<lparr>acc_value := None\<rparr>) (st\<lparr>cb_context := c\<rparr>)))"

definition CustomAggregate_PropagateJSError :: "'w callback \<Rightarrow> 'w callback option" where
  "CustomAggregate_PropagateJSError st = map_option CustomFunction_PropagateJSError (DestroyAccumulator st)"

text \<open>
  The seed is computed with the accumulator already marked as initialized.  If that throws, the
  accumulator stays empty.
\<close>

definition GetAccumulator :: "'w js_runtime \<Rightarrow> custom_aggregate \<Rightarrow> 'w callback \<Rightarrow> (accumulator \<times> 'w callback) option" where
  "GetAccumulator js self st =
     (case sqlite3_aggregate_context (cb_context st) sizeof_Accumulator of
        (None, _) \<Rightarrow> None
      | (Some acc, c) \<Rightarrow>
          let st = st\<lparr>cb_context := c\<rparr>
          in if initialized acc then Some (acc, st)
             else let acc = acc\<lparr>initialized := True\<rparr>; st = set_acc acc st
                  in if invoke_start self then
                       (case call_function js (ag_start self) JsUndefined [] st of
                          (None, st) \<Rightarrow> map_option (\<lambda>st. (acc\<lparr>acc_value := None\<rparr>, st)) (CustomAggregate_PropagateJSError st)
                        | (Some v, st) \<Rightarrow> let acc = acc\<lparr>acc_value := Some v\<rparr> in Some (acc, set_acc acc st))
                     else let acc = acc\<lparr>acc_value := Some (ag_start self)\<rparr> in Some (acc, set_acc acc st))"

definition xStepBase ::
  "v8_api \<Rightarrow> 'w js_runtime \<Rightarrow> custom_aggregate \<Rightarrow> js_value \<Rightarrow> sqlite3_value list \<Rightarrow> 'w callback \<Rightarrow> 'w callback option" where
  "xStepBase v8 js self ptrtm argv st =
     (case GetAccumulator js self st of
        None \<Rightarrow> None
      | Some (acc, st) \<Rightarrow>
          (case acc_value acc of
             None \<Rightarrow> Some st
           | Some v \<Rightarrow>
               (case call_function js ptrtm JsUndefined (v # GetArgumentsJS v8 argv (cf_safe_ints self)) st of
                  (None, st) \<Rightarrow> CustomAggregate_PropagateJSError st
                | (Some returnValue, st) \<Rightarrow>
                    Some (if returnValue \<noteq> JsUndefined then set_acc (acc\<lparr>acc_value := Some returnValue\<rparr>) st else st))))"

definition xStep :: "v8_api \<Rightarrow> 'w js_runtime \<Rightarrow> custom_aggregate \<Rightarrow> sqlite3_value list \<Rightarrow> 'w callback \<Rightarrow> 'w callback option" where
  "xStep v8 js self = xStepBase v8 js self (cf_fn self)"

definition xInverse :: "v8_api \<Rightarrow> 'w js_runtime \<Rightarrow> custom_aggregate \<Rightarrow> sqlite3_value list \<Rightarrow> 'w callback \<Rightarrow> 'w callback option" where
  "xInverse v8 js self = xStepBase v8 js self (ag_inverse self)"

text \<open>
  A conversion error destroys the accumulator too; it has been allocated by then, so this cannot
  fail (\<open>destroyed\<close>).
\<close>

definition destroyed :: "'w callback \<Rightarrow> 'w callback" where
  "destroyed st = (case CustomAggregate_PropagateJSError st of Some st \<Rightarrow> st | None \<Rightarrow> st)"

definition xValueBase :: "v8_api \<Rightarrow> 'w js_runtime \<Rightarrow> custom_aggregate \<Rightarrow> bool \<Rightarrow> 'w callback \<Rightarrow> 'w callback option" where
  "xValueBase v8 js self is_final st =
     (case GetAccumulator js self st of
        None \<Rightarrow> None
      | Some (acc, st) \<Rightarrow>
          (case acc_value acc of
             None \<Rightarrow> Some st
           | Some v \<Rightarrow>
               if is_final \<and> is_window acc then DestroyAccumulator st
               else
                 let st = (if is_final then st else set_acc (acc\<lparr>is_window := True\<rparr>) st)
                 in case (if invoke_result self then call_function js (ag_result self) JsUndefined [v] st else (Some v, st)) of
                      (None, st) \<Rightarrow> CustomAggregate_PropagateJSError st
                    | (Some result, st) \<Rightarrow>
                        let st = ResultValueFromJS v8 (GetDataErrorPrefix self) destroyed result st
                        in if is_final then DestroyAccumulator st else Some st))"

definition xValue :: "v8_api \<Rightarrow> 'w js_runtime \<Rightarrow> custom_aggregate \<Rightarrow> 'w callback \<Rightarrow> 'w callback option" where
  "xValue v8 js self = xValueBase v8 js self False"

definition xFinal :: "v8_api \<Rightarrow> 'w js_runtime \<Rightarrow> custom_aggregate \<Rightarrow> 'w callback \<Rightarrow> 'w callback option" where
  "xFinal v8 js self = xValueBase v8 js self True"

section \<open>What an aggregate computes\<close>

text \<open>
  The steps of SQLite over the rows of a group or of a moving window: each adds a row, or removes one
  (\<open>True\<close>) with the inverse function.
\<close>

fun agg_steps :: "v8_api \<Rightarrow> 'w js_runtime \<Rightarrow> custom_aggregate \<Rightarrow> (bool \<times> sqlite3_value list) list \<Rightarrow> 'w callback \<Rightarrow> 'w callback option" where
  "agg_steps v8 js self [] st = Some st"
| "agg_steps v8 js self ((removes, argv) # ops) st =
     (case (if removes then xInverse else xStep) v8 js self argv st of None \<Rightarrow> None | Some st \<Rightarrow> agg_steps v8 js self ops st)"

text \<open>The same in JavaScript: the accumulated value is passed from call to call, and kept if a call
  returns undefined.\<close>

fun agg_fold :: "v8_api \<Rightarrow> 'w js_runtime \<Rightarrow> custom_aggregate \<Rightarrow> (bool \<times> sqlite3_value list) list \<Rightarrow> js_value \<Rightarrow> 'w \<Rightarrow> js_value option \<times> 'w" where
  "agg_fold v8 js self [] acc w = (Some acc, w)"
| "agg_fold v8 js self ((removes, argv) # ops) acc w =
     (case js_call js (if removes then ag_inverse self else cf_fn self) JsUndefined (acc # GetArgumentsJS v8 argv (cf_safe_ints self)) w of
        (None, w) \<Rightarrow> (None, w)
      | (Some v, w) \<Rightarrow> agg_fold v8 js self ops (if v = JsUndefined then acc else v) w)"

definition agg_seed :: "'w js_runtime \<Rightarrow> custom_aggregate \<Rightarrow> 'w \<Rightarrow> js_value option \<times> 'w" where
  "agg_seed js self w = (if invoke_start self then js_call js (ag_start self) JsUndefined [] w else (Some (ag_start self), w))"

definition agg_result :: "'w js_runtime \<Rightarrow> custom_aggregate \<Rightarrow> js_value \<Rightarrow> 'w \<Rightarrow> js_value option \<times> 'w" where
  "agg_result js self v w = (if invoke_result self then js_call js (ag_result self) JsUndefined [v] w else (Some v, w))"

definition then_call :: "js_value option \<times> 'w \<Rightarrow> (js_value \<Rightarrow> 'w \<Rightarrow> js_value option \<times> 'w) \<Rightarrow> js_value option \<times> 'w" where
  "then_call r f = (case r of (None, w) \<Rightarrow> (None, w) | (Some v, w) \<Rightarrow> f v w)"

text \<open>What a function gives to SQLite whose call ended in this way.\<close>

definition give_result :: "v8_api \<Rightarrow> 'a custom_function_scheme \<Rightarrow> 'w callback \<Rightarrow> js_value option \<times> 'w \<Rightarrow> 'w callback" where
  "give_result v8 self st r =
     (case r of
        (None, w) \<Rightarrow> CustomFunction_PropagateJSError (st\<lparr>cb_world := w, cb_thrown := Some UserException\<rparr>)
      | (Some v, w) \<Rightarrow> ResultValueFromJS v8 (GetDataErrorPrefix self) CustomFunction_PropagateJSError v (st\<lparr>cb_world := w\<rparr>))"

definition with_memory :: "accumulator option option \<Rightarrow> 'w callback \<Rightarrow> 'w callback" where
  "with_memory m st = st\<lparr>cb_context := (cb_context st)\<lparr>pMem := m\<rparr>\<rparr>"

lemma xFunc_result:
  "xFunc v8 js self argv st = give_result v8 self st (js_call js (cf_fn self) JsUndefined (GetArgumentsJS v8 argv (cf_safe_ints self)) (cb_world st))"
  by (simp add: xFunc_def give_result_def call_function_def split: prod.split option.split)

section \<open>The memory of an aggregate\<close>

named_theorems memory_simps

definition memory :: "bool \<Rightarrow> js_value option \<Rightarrow> accumulator option option" where
  "memory window v = Some (Some \<lparr>acc_value = v, initialized = True, is_window = window\<rparr>)"

lemma memory_fold: "Some (Some \<lparr>acc_value = v, initialized = True, is_window = window\<rparr>) = memory window v"
  by (simp add: memory_def)

lemma with_memory_simps [memory_simps]:
  "cb_context (with_memory m st) = (cb_context st)\<lparr>pMem := m\<rparr>" "cb_world (with_memory m st) = cb_world st"
  "was_js_error (with_memory m st) = was_js_error st" "cb_thrown (with_memory m st) = cb_thrown st"
  "with_memory m (with_memory m' st) = with_memory m st" "(with_memory m st)\<lparr>cb_world := w\<rparr> = with_memory m (st\<lparr>cb_world := w\<rparr>)"
  "(with_memory m st)\<lparr>cb_thrown := t\<rparr> = with_memory m (st\<lparr>cb_thrown := t\<rparr>)"
  "(with_memory m st)\<lparr>cb_context := c\<rparr> = st\<lparr>cb_context := c\<rparr>" "set_acc acc st = with_memory (Some (Some acc)) st"
  "st\<lparr>cb_context := c\<lparr>pMem := m\<rparr>\<rparr> = with_memory m (st\<lparr>cb_context := c\<rparr>)" "with_memory m (st\<lparr>cb_context := cb_context st\<rparr>) = with_memory m st"
  by (simp_all add: with_memory_def set_acc_def)

lemma call_memory [memory_simps]: "call_function js f this args (with_memory m st) = apsnd (with_memory m) (call_function js f this args st)"
  by (simp add: call_function_def memory_simps split: prod.split option.split)

lemma result_memory [memory_simps]:
  "sqlite3_result_error (c\<lparr>pMem := m\<rparr>) z n = (sqlite3_result_error c z n)\<lparr>pMem := m\<rparr>"
  "setResultStrOrError (c\<lparr>pMem := m\<rparr>) z n enc = (setResultStrOrError c z n enc)\<lparr>pMem := m\<rparr>"
  by (simp_all add: sqlite3_result_error_def setResultStrOrError_def sqlite3_result_error_toobig_def sqlite3_result_error_nomem_def
      Let_def split: prod.split)

lemma Propagate_memory [memory_simps]:
  "CustomFunction_PropagateJSError (with_memory m st) = with_memory m (CustomFunction_PropagateJSError st)"
  by (simp add: CustomFunction_PropagateJSError_def result_memory with_memory_def)

lemma context_memory [memory_simps]: "sqlite3_aggregate_context (c\<lparr>pMem := memory window v\<rparr>) n =
    (Some \<lparr>acc_value = v, initialized = True, is_window = window\<rparr>, c\<lparr>pMem := memory window v\<rparr>)"
  by (simp add: sqlite3_aggregate_context_def memory_def)

lemma Destroy_memory [memory_simps]: "DestroyAccumulator (with_memory (memory window v) st) = Some (with_memory (memory window None) st)"
  by (simp add: DestroyAccumulator_def memory_simps) (simp add: memory_def)

lemma aggregate_Propagate_memory [memory_simps]:
  "CustomAggregate_PropagateJSError (with_memory (memory window v) st) = Some (with_memory (memory window None) (CustomFunction_PropagateJSError st))"
  "destroyed (with_memory (memory window v) st) = with_memory (memory window None) (CustomFunction_PropagateJSError st)"
  by (simp_all add: CustomAggregate_PropagateJSError_def destroyed_def memory_simps)

text \<open>The values SQLite can store, and the accumulator after a value has been computed from it.\<close>

definition convertible :: "v8_api \<Rightarrow> js_value \<Rightarrow> bool" where
  "convertible v8 val \<longleftrightarrow> JS_VALUE_TO_SQLITE v8 (\<lambda>_. ()) (\<lambda>_. ()) (\<lambda>_ _. ()) (\<lambda>_ _. ()) () val \<noteq> None"

definition kept_value :: "v8_api \<Rightarrow> js_value option \<Rightarrow> js_value \<Rightarrow> js_value option" where
  "kept_value v8 r v = (case r of Some u \<Rightarrow> if convertible v8 u then Some v else None | None \<Rightarrow> None)"

lemma ResultValue_memory [memory_simps]:
  "ResultValueFromJS v8 prefix destroyed val (with_memory (memory window v) st) =
    with_memory (memory window (if convertible v8 val then v else None))
      (ResultValueFromJS v8 prefix CustomFunction_PropagateJSError val st)"
  by (cases val) (simp_all add: convertible_def ResultValueFromJS_def JS_VALUE_TO_SQLITE_def Let_def sqlite3_result_double_def sqlite3_result_int64_def
      sqlite3_result_text_def sqlite3_result_blob_def sqlite3_result_null_def ThrowDataConversionError_def memory_simps)

lemma GetAccumulator_memory [memory_simps]:
  "GetAccumulator js self (with_memory (memory window v) st) =
    Some (\<lparr>acc_value = v, initialized = True, is_window = window\<rparr>, with_memory (memory window v) st)"
  by (simp add: GetAccumulator_def memory_simps)

text \<open>The state after the first callback has asked for the memory.\<close>

definition seeded :: "'w js_runtime \<Rightarrow> custom_aggregate \<Rightarrow> 'w callback \<Rightarrow> 'w callback" where
  "seeded js self st =
     (case agg_seed js self (cb_world st) of
        (Some v, w) \<Rightarrow> with_memory (memory False (Some v)) (st\<lparr>cb_world := w\<rparr>)
      | (None, w) \<Rightarrow> with_memory (memory False None) (CustomFunction_PropagateJSError (st\<lparr>cb_world := w, cb_thrown := Some UserException\<rparr>)))"

lemma GetAccumulator_seeded:
  assumes "pMem (cb_context st) = None" "memOk (pVdbe (cb_context st)) sizeof_Accumulator"
  shows "GetAccumulator js self st = GetAccumulator js self (seeded js self st)"
proof (cases "agg_seed js self (cb_world st)")
  case (Pair r w)
  have "GetAccumulator js self st =
      Some (\<lparr>acc_value = r, initialized = True, is_window = False\<rparr>, seeded js self st)"
    using assms Pair
    by (cases r) (auto simp: GetAccumulator_def sqlite3_aggregate_context_def createAggContext_def Let_def Accumulator_zero_def set_acc_def
        agg_seed_def seeded_def call_function_def CustomAggregate_PropagateJSError_def DestroyAccumulator_def memory_def
        CustomFunction_PropagateJSError_def sqlite3_result_error_def with_memory_def split: if_splits prod.splits)
  then show ?thesis using Pair by (cases r) (simp_all add: seeded_def memory_simps)
qed

lemma xStepBase_memory:
  "xStepBase v8 js self f argv (with_memory (memory window (Some v)) st) =
    Some (case js_call js f JsUndefined (v # GetArgumentsJS v8 argv (cf_safe_ints self)) (cb_world st) of
      (Some x, w) \<Rightarrow> with_memory (memory window (Some (if x = JsUndefined then v else x))) (st\<lparr>cb_world := w\<rparr>)
    | (None, w) \<Rightarrow> with_memory (memory window None) (CustomFunction_PropagateJSError (st\<lparr>cb_world := w, cb_thrown := Some UserException\<rparr>)))"
  by (simp add: xStepBase_def memory_simps call_function_def memory_fold split: prod.split option.split)

lemma empty_steps: "agg_steps v8 js self ops (with_memory (memory window None) st) = Some (with_memory (memory window None) st)"
  by (induction ops) (auto simp: xStep_def xInverse_def xStepBase_def memory_simps)

lemma agg_steps_memory:
  "agg_steps v8 js self ops (with_memory (memory window (Some v)) st) =
    Some (case agg_fold v8 js self ops v (cb_world st) of
      (Some x, w) \<Rightarrow> with_memory (memory window (Some x)) (st\<lparr>cb_world := w\<rparr>)
    | (None, w) \<Rightarrow> with_memory (memory window None) (CustomFunction_PropagateJSError (st\<lparr>cb_world := w, cb_thrown := Some UserException\<rparr>)))"
proof (induction ops arbitrary: v st)
  case (Cons op ops)
  obtain removes argv where op: "op = (removes, argv)" by (cases op)
  have x: "(if removes then xInverse else xStep) v8 js self argv st = xStepBase v8 js self (if removes then ag_inverse self else cf_fn self) argv st" for st
    by (simp add: xStep_def xInverse_def)
  obtain r w where c: "js_call js (if removes then ag_inverse self else cf_fn self) JsUndefined (v # GetArgumentsJS v8 argv (cf_safe_ints self)) (cb_world st) = (r, w)"
    by (metis prod.exhaust)
  show ?case
  proof (cases r)
    case None
    then show ?thesis by (simp add: op x xStepBase_memory c empty_steps)
  next
    case (Some y)
    then show ?thesis using Cons.IH [of "if y = JsUndefined then v else y" "st\<lparr>cb_world := w\<rparr>"]
      by (simp add: op x xStepBase_memory c split: prod.split option.split)
  qed
qed simp

lemma xFinal_empty: "xFinal v8 js self (with_memory (memory window None) st) = Some (with_memory (memory window None) st)"
  by (simp add: xFinal_def xValueBase_def memory_simps)

lemma xValueBase_memory:
  assumes "is_final \<longrightarrow> \<not> window"
  shows "xValueBase v8 js self is_final (with_memory (memory window (Some v)) st) =
    Some (with_memory (memory (\<not> is_final) (if is_final then None else kept_value v8 (fst (agg_result js self v (cb_world st))) v))
      (give_result v8 self st (agg_result js self v (cb_world st))))"
proof -
  obtain r w where r: "agg_result js self v (cb_world st) = (r, w)" by (metis prod.exhaust)
  have c: "(if invoke_result self then call_function js (ag_result self) JsUndefined [v] st' else (Some v, st')) =
      (r, case r of None \<Rightarrow> st'\<lparr>cb_world := w, cb_thrown := Some UserException\<rparr> | Some _ \<Rightarrow> st'\<lparr>cb_world := w\<rparr>)" if "cb_world st' = cb_world st" for st'
    using r that by (auto simp: agg_result_def call_function_def split: if_splits option.split)
  show ?thesis using assms
    by (cases r; cases is_final)
      (simp_all add: xValueBase_def memory_simps memory_fold c give_result_def kept_value_def r)
qed

lemma xFinal_window: "xFinal v8 js self (with_memory (memory True x) st) = Some (with_memory (memory True None) st)"
  by (cases x) (simp_all add: xFinal_def xValueBase_def memory_simps)

section \<open>Properties\<close>

text \<open>C37: An aggregate computes the fold of its functions over the rows: from fresh memory, whatever the
  steps, the final callback gives SQLite what a function would give that seeds the accumulator, calls
  the step and inverse functions in order and returns the result function of the accumulated value,
  exceptions and invalid values included; the accumulator is then empty.\<close>

theorem aggregate_is_fold:
  assumes "pMem (cb_context st) = None" "memOk (pVdbe (cb_context st)) sizeof_Accumulator"
  shows "Option.bind (agg_steps v8 js self ops st) (xFinal v8 js self) =
    Some (with_memory (memory False None) (give_result v8 self st
      (then_call (agg_seed js self (cb_world st)) (\<lambda>v w. then_call (agg_fold v8 js self ops v w) (agg_result js self)))))"
proof -
  have first: "Option.bind (agg_steps v8 js self ops st) (xFinal v8 js self) = Option.bind (agg_steps v8 js self ops (seeded js self st)) (xFinal v8 js self)"
    by (cases ops) (auto simp: xFinal_def xValueBase_def xStep_def xInverse_def xStepBase_def GetAccumulator_seeded [OF assms])
  obtain r w where s: "agg_seed js self (cb_world st) = (r, w)" by (metis prod.exhaust)
  show ?thesis
  proof (cases r)
    case None
    then show ?thesis by (simp add: first seeded_def s empty_steps xFinal_empty then_call_def give_result_def)
  next
    case (Some v)
    obtain r' w' where f: "agg_fold v8 js self ops v w = (r', w')" by (metis prod.exhaust)
    show ?thesis
    proof (cases r')
      case None
      then show ?thesis using Some by (simp add: first seeded_def s agg_steps_memory f xFinal_empty then_call_def give_result_def)
    next
      case Some': (Some v')
      then show ?thesis unfolding first using Some xValueBase_memory [of True False v8 js self v' "st\<lparr>cb_world := w'\<rparr>"]
        by (simp add: seeded_def s agg_steps_memory f xFinal_def then_call_def give_result_def split: prod.split option.split)
    qed
  qed
qed

text \<open>The sum of a column of integers, as a JavaScript program that counts its calls.\<close>

definition example_js :: "nat js_runtime" where
  "example_js = \<lparr>js_call = (\<lambda>f this args w. (case args of [JsBigInt a, JsBigInt b] \<Rightarrow> Some (JsBigInt (a + b)) | _ \<Rightarrow> None, Suc w)),
     js_get = (\<lambda>_ _ w. (None, w)), js_get_index = (\<lambda>_ _ w. (None, w))\<rparr>"

definition example_sum :: custom_aggregate where
  "example_sum = CustomAggregate_new (lit ''total'') (JsBigInt 0) (JsFunction 0) JsUndefined JsUndefined True"

definition example_callback :: "nat callback" where
  "example_callback = \<lparr>cb_context = \<lparr>pOut = VNull, pMem = None, pVdbe = example_vdbe, isError = SQLITE_OK\<rparr>,
     was_js_error = False, cb_thrown = None, cb_world = 0\<rparr>"

theorem aggregate_is_fold_witness:
  "map_option (\<lambda>st. (pOut (cb_context st), cb_world st)) (Option.bind (agg_steps example_v8 example_js example_sum
      [(False, [VInteger 3]), (False, [VInteger 4])] example_callback) (xFinal example_v8 example_js example_sum)) = Some (VInteger 7, 2)"
proof -
  have m: "pMem (cb_context example_callback) = None" "memOk (pVdbe (cb_context example_callback)) sizeof_Accumulator"
    by (simp_all add: example_callback_def example_vdbe_def)
  show ?thesis unfolding aggregate_is_fold [OF m]
    by (simp add: memory_simps then_call_def agg_seed_def agg_result_def give_result_def example_sum_def CustomAggregate_new_def is_function_def
        example_js_def example_callback_def GetArgumentsJS_def SQLITE_VALUE_TO_JS_def ResultValueFromJS_def JS_VALUE_TO_SQLITE_def
        sqlite3_result_int64_def)
qed

text \<open>In a window each value is the result of the current accumulator, which stays in place for the
  next step if that could be computed and stored; the final callback then only empties it, without
  calling JavaScript or changing the result.\<close>

theorem window_value:
  assumes "pMem (cb_context st) = memory window (Some v)"
  shows "let r = agg_result js self v (cb_world st); st' = give_result v8 self st r
    in xValue v8 js self st = Some (with_memory (memory True (kept_value v8 (fst r) v)) st') \<and>
       Option.bind (xValue v8 js self st) (xFinal v8 js self) = Some (with_memory (memory True None) st')"
proof -
  have "st = with_memory (memory window (Some v)) st" using assms by (simp add: with_memory_def)
  then have "xValue v8 js self st = Some (with_memory (memory True (kept_value v8 (fst (agg_result js self v (cb_world st))) v))
      (give_result v8 self st (agg_result js self v (cb_world st))))"
    using xValueBase_memory [of False window v8 js self v st] by (simp add: xValue_def)
  then show ?thesis by (simp add: Let_def xFinal_window memory_simps)
qed

theorem window_value_witness:
  "map_option (\<lambda>st. pOut (cb_context st)) (xValue example_v8 example_js example_sum (with_memory (memory False (Some (JsBigInt 5))) example_callback)) =
    Some (VInteger 5)"
  using window_value [of "with_memory (memory False (Some (JsBigInt 5))) example_callback" False "JsBigInt 5" example_js example_sum example_v8]
  by (simp add: Let_def memory_simps agg_result_def give_result_def example_sum_def CustomAggregate_new_def is_function_def
      example_callback_def ResultValueFromJS_def JS_VALUE_TO_SQLITE_def sqlite3_result_int64_def)

end
