(* ===== verification/CustomTables.thy ===== *)
theory CustomTables
  imports CustomFunctions "HOL-Library.Product_Lexorder" "HOL-Library.Monad_Syntax" "HOL-Library.Multiset"
begin

unbundle bit_operations_syntax

text \<open>
  User-defined table-valued functions: util/custom-table.cpp, the callbacks of a virtual table.  The
  planner and the scan loop of SQLite are what calls them.

  Casting a JavaScript value to a type it does not have, reading past the arguments and shifting by
  32 or more are undefined: \<open>None\<close>.
\<close>

section \<open>Tables and cursors\<close>

record custom_table =
  ct_name :: bytes
  ct_factory :: js_value

definition CustomTable_new :: "bytes \<Rightarrow> js_value \<Rightarrow> custom_table" where
  "CustomTable_new name factory = \<lparr>ct_name = name, ct_factory = factory\<rparr>"

record vtab =
  vt_parent :: custom_table
  parameter_count :: nat
  vt_safe_ints :: bool
  generator :: js_value
  parameter_names :: "bytes list"

definition VTab_new :: "custom_table \<Rightarrow> js_value \<Rightarrow> bytes list \<Rightarrow> bool \<Rightarrow> vtab" where
  "VTab_new parent gen names safe_ints =
     \<lparr>vt_parent = parent, parameter_count = length names, vt_safe_ints = safe_ints, generator = gen, parameter_names = names\<rparr>"

record cursor =
  cu_iterator :: js_value
  cu_next :: js_value
  cu_row :: js_value
  cu_done :: bool
  cu_rowid :: u64

definition CustomTable_PropagateJSError :: "'w callback \<Rightarrow> 'w callback" where
  "CustomTable_PropagateJSError st = st\<lparr>was_js_error := True\<rparr>"

section \<open>Creating a table\<close>

text \<open>
  The rest of the database: what \<open>sqlite3_declare_vtab\<close> and \<open>sqlite3_vtab_config\<close> return.  The result is the
  code with the table or the message.
\<close>

definition c_string :: "bytes \<Rightarrow> bytes" where
  "c_string z = takeWhile (\<lambda>c. c \<noteq> 0) z"

fun names_of :: "v8_api \<Rightarrow> js_value option list \<Rightarrow> bytes list option" where
  "names_of v8 [] = Some []"
| "names_of v8 (x # xs) =
     (case x of
        Some (JsString s) \<Rightarrow> map_option (Cons (c_string (utf8_value v8 s))) (names_of v8 xs)
      | _ \<Rightarrow> None)"

definition xConnect ::
  "v8_api \<Rightarrow> 'w js_runtime \<Rightarrow> (bytes \<Rightarrow> rc) \<Rightarrow> rc \<Rightarrow> bool \<Rightarrow> custom_table \<Rightarrow> bytes list \<Rightarrow> 'w callback \<Rightarrow>
    (rc \<times> vtab option \<times> bytes option \<times> 'w callback) option" where
  "xConnect v8 js declare_vtab vtab_config db_safe_ints self argv st =
     (case call_function js (ct_factory self) JsUndefined (map (\<lambda>z. JsString (string_from_utf8 v8 z)) argv) st of
        (None, st) \<Rightarrow> Some (SQLITE_ERROR, None, None, CustomTable_PropagateJSError st)
      | (Some returnValue, st) \<Rightarrow>
          (case returnValue of
             JsArray [Some (JsString sqlString), Some gen, Some (JsArray parameterNames), Some (JsNumber safe), Some (JsBoolean direct_only)] \<Rightarrow>
               do {
                 names \<leftarrow> names_of v8 parameterNames;
                 safe \<leftarrow> int64_of_double safe;
                 let safe_ints = (if safe < 2 then safe \<noteq> 0 else db_safe_ints);
                 if declare_vtab (c_string (utf8_value v8 sqlString)) \<noteq> SQLITE_OK then
                   Some (SQLITE_ERROR, None, Some (lit ''failed to declare virtual table \"'' @ argv ! 2 @ lit ''\"''), st)
                 else if direct_only \<and> vtab_config \<noteq> SQLITE_OK then
                   Some (SQLITE_ERROR, None, Some (lit ''failed to configure virtual table \"'' @ argv ! 2 @ lit ''\"''), st)
                 else Some (SQLITE_OK, Some (VTab_new self gen names safe_ints), None, st)
               }
           | _ \<Rightarrow> None))"

definition xCreate ::
  "v8_api \<Rightarrow> 'w js_runtime \<Rightarrow> (bytes \<Rightarrow> rc) \<Rightarrow> rc \<Rightarrow> bool \<Rightarrow> custom_table \<Rightarrow> bytes list \<Rightarrow> 'w callback \<Rightarrow>
    (rc \<times> vtab option \<times> bytes option \<times> 'w callback) option" where
  "xCreate = xConnect"

section \<open>Scanning\<close>

text \<open>A new cursor is zeroed; empty handles are undefined.\<close>

definition xOpen :: "rc \<times> cursor" where
  "xOpen = (SQLITE_OK, \<lparr>cu_iterator = JsUndefined, cu_next = JsUndefined, cu_row = JsUndefined, cu_done = False, cu_rowid = 0\<rparr>)"

text \<open>Reading a property, with an exception left pending.\<close>

definition key :: "string \<Rightarrow> js_string" where
  "key s = map (word_of_nat \<circ> of_char) s"

definition get_checked :: "'w js_runtime \<Rightarrow> js_value \<Rightarrow> js_string \<Rightarrow> 'w callback \<Rightarrow> (js_value \<times> 'w callback) option" where
  "get_checked js obj k st =
     (case js_get js obj k (cb_world st) of
        (Some v, w) \<Rightarrow> Some (v, st\<lparr>cb_world := w\<rparr>)
      | (None, _) \<Rightarrow> None)"

definition xNext :: "'w js_runtime \<Rightarrow> cursor \<Rightarrow> 'w callback \<Rightarrow> (rc \<times> cursor \<times> 'w callback) option" where
  "xNext js cu st =
     (case call_function js (cu_next cu) (cu_iterator cu) [] st of
        (None, st) \<Rightarrow> Some (SQLITE_ERROR, cu, CustomTable_PropagateJSError st)
      | (Some rec, st) \<Rightarrow> do {
          (d, st) \<leftarrow> get_checked js rec (key ''done'') st;
          isDone \<leftarrow> (case d of JsBoolean b \<Rightarrow> Some b | _ \<Rightarrow> None);
          (cu, st) \<leftarrow> (if \<not> isDone then do {
                         (row, st) \<leftarrow> get_checked js rec (key ''value'') st;
                         Some (cu\<lparr>cu_row := row\<rparr>, st)
                       } else Some (cu, st));
          Some (SQLITE_OK, cu\<lparr>cu_done := isDone, cu_rowid := cu_rowid cu + 1\<rparr>, st)
        })"

text \<open>
  The arguments of the generator: the values in \<open>argv\<close> belong, in order, to the parameters whose bit is set
  in \<open>idxNum\<close>.  \<open>Some None\<close>: one of them is null.
\<close>

fun filter_args :: "v8_api \<Rightarrow> bool \<Rightarrow> u32 \<Rightarrow> nat list \<Rightarrow> sqlite3_value list \<Rightarrow> js_value list option option" where
  "filter_args v8 safe_ints idxNum [] argv = Some (Some [])"
| "filter_args v8 safe_ints idxNum (i # is) argv =
     (if i \<ge> 32 then None
      else if idxNum AND push_bit i 1 \<noteq> 0 then
        (case argv of
           [] \<Rightarrow> None
         | v # argv \<Rightarrow>
             let a = SQLITE_VALUE_TO_JS v8 safe_ints v
             in if a = JsNull then Some None
                else map_option (map_option (Cons a)) (filter_args v8 safe_ints idxNum is argv))
      else map_option (map_option (Cons JsUndefined)) (filter_args v8 safe_ints idxNum is argv))"

definition xFilter ::
  "v8_api \<Rightarrow> 'w js_runtime \<Rightarrow> vtab \<Rightarrow> cursor \<Rightarrow> u32 \<Rightarrow> sqlite3_value list \<Rightarrow> 'w callback \<Rightarrow> (rc \<times> cursor \<times> 'w callback) option" where
  "xFilter v8 js vt cu idxNum argv st = do {
     maybeArgs \<leftarrow> filter_args v8 (vt_safe_ints vt) idxNum [0..<parameter_count vt] argv;
     case maybeArgs of
       None \<Rightarrow> Some (SQLITE_OK, cu\<lparr>cu_done := True\<rparr>, st)
     | Some args \<Rightarrow>
         (case call_function js (generator vt) JsUndefined args st of
            (None, st) \<Rightarrow> Some (SQLITE_ERROR, cu, CustomTable_PropagateJSError st)
          | (Some iter, st) \<Rightarrow> do {
              (next, st) \<leftarrow> get_checked js iter (key ''next'') st;
              xNext js (cu\<lparr>cu_iterator := iter, cu_next := next, cu_rowid := 0\<rparr>) st
            })
   }"

definition xEof :: "cursor \<Rightarrow> bool" where
  "xEof cu = cu_done cu"

definition table_error_prefix :: "custom_table \<Rightarrow> bytes" where
  "table_error_prefix parent = lit ''Virtual table module \"'' @ ct_name parent @ lit ''\" yielded''"

definition xColumn :: "v8_api \<Rightarrow> 'w js_runtime \<Rightarrow> vtab \<Rightarrow> cursor \<Rightarrow> nat \<Rightarrow> 'w callback \<Rightarrow> rc \<times> 'w callback" where
  "xColumn v8 js vt cu column st =
     (case js_get_index js (cu_row cu) column (cb_world st) of
        (None, w) \<Rightarrow> (SQLITE_ERROR, CustomTable_PropagateJSError (st\<lparr>cb_world := w, cb_thrown := Some UserException\<rparr>))
      | (Some v, w) \<Rightarrow>
          (if convertible v8 v then SQLITE_OK else SQLITE_ERROR,
           ResultValueFromJS v8 (table_error_prefix (vt_parent vt)) CustomTable_PropagateJSError v (st\<lparr>cb_world := w\<rparr>)))"

definition xRowid :: "cursor \<Rightarrow> rc \<times> u64" where
  "xRowid cu = (SQLITE_OK, cu_rowid cu)"

section \<open>Planning\<close>

record index_constraint =
  iColumn :: int
  con_op :: nat
  usable :: bool

record constraint_usage =
  argvIndex :: nat
  omit :: bool

record index_info =
  aConstraint :: "index_constraint list"
  aConstraintUsage :: "constraint_usage list"
  idxNum :: u32
  estimatedCost :: nat
  estimatedRows :: nat

abbreviation SQLITE_INDEX_CONSTRAINT_EQ :: nat where "SQLITE_INDEX_CONSTRAINT_EQ \<equiv> 2"
abbreviation SQLITE_INDEX_CONSTRAINT_LIMIT :: nat where "SQLITE_INDEX_CONSTRAINT_LIMIT \<equiv> 73"
abbreviation SQLITE_INDEX_CONSTRAINT_OFFSET :: nat where "SQLITE_INDEX_CONSTRAINT_OFFSET \<equiv> 74"

text \<open>The first loop: the constraints on parameters, with their position, or what the method returns at once.\<close>

fun collect_forwarded :: "vtab \<Rightarrow> nat \<Rightarrow> index_constraint list \<Rightarrow> (rc \<times> bytes option) + (nat \<times> nat) list" where
  "collect_forwarded vt i [] = Inr []"
| "collect_forwarded vt i (item # items) =
     (if con_op item = SQLITE_INDEX_CONSTRAINT_LIMIT \<or> con_op item = SQLITE_INDEX_CONSTRAINT_OFFSET then collect_forwarded vt (Suc i) items
      else if 0 \<le> iColumn item \<and> iColumn item < int (parameter_count vt) then
        if con_op item \<noteq> SQLITE_INDEX_CONSTRAINT_EQ then
          Inl (SQLITE_ERROR, Some (lit ''virtual table parameter \"'' @ parameter_names vt ! nat (iColumn item) @
                lit ''\" can only be constrained by the '' @ [39, 61, 39] @ lit '' operator''))
        else if \<not> usable item then Inl (SQLITE_CONSTRAINT, None)
        else (case collect_forwarded vt (Suc i) items of
                Inl e \<Rightarrow> Inl e
              | Inr fs \<Rightarrow> Inr ((nat (iColumn item), i) # fs))
      else collect_forwarded vt (Suc i) items)"

text \<open>The second loop.\<close>

fun forward :: "(nat \<times> nat) list \<Rightarrow> nat \<Rightarrow> index_info \<Rightarrow> (nat \<times> index_info) option" where
  "forward [] argument_count info = Some (argument_count, info)"
| "forward ((column, i) # fs) argument_count info =
     (if column \<ge> 32 then None
      else if idxNum info AND push_bit column 1 = 0 then
        forward fs (argument_count + 1) (info\<lparr>idxNum := idxNum info OR push_bit column 1,
          aConstraintUsage := (aConstraintUsage info)[i := \<lparr>argvIndex = argument_count + 1, omit = True\<rparr>]\<rparr>)
      else forward fs argument_count info)"

definition xBestIndex :: "vtab \<Rightarrow> index_info \<Rightarrow> (rc \<times> bytes option \<times> index_info) option" where
  "xBestIndex vt info =
     (case collect_forwarded vt 0 (aConstraint info) of
        Inl (rc, msg) \<Rightarrow> Some (rc, msg, info)
      | Inr fs \<Rightarrow> do {
          (argument_count, info) \<leftarrow> forward (sort fs) 0 info;
          Some (SQLITE_OK, None, info\<lparr>estimatedCost := 1000000000 div (argument_count + 1), estimatedRows := 1000000000 div (argument_count + 1)\<rparr>)
        })"

section \<open>The plan and the arguments\<close>

definition on_parameter :: "vtab \<Rightarrow> index_constraint \<Rightarrow> bool" where
  "on_parameter vt item \<longleftrightarrow> con_op item \<noteq> SQLITE_INDEX_CONSTRAINT_LIMIT \<and> con_op item \<noteq> SQLITE_INDEX_CONSTRAINT_OFFSET \<and>
     0 \<le> iColumn item \<and> iColumn item < int (parameter_count vt)"

text \<open>The first constraint on a parameter.\<close>

definition first_constraint :: "vtab \<Rightarrow> index_constraint list \<Rightarrow> nat \<Rightarrow> nat option" where
  "first_constraint vt items c = find (\<lambda>j. on_parameter vt (items ! j) \<and> iColumn (items ! j) = int c) [0..<length items]"

text \<open>
  What SQLite passes to \<open>xFilter\<close>: the right-hand sides of the constraints with a positive \<open>argvIndex\<close>, in its order.
\<close>

definition plan_argv :: "index_info \<Rightarrow> (nat \<Rightarrow> sqlite3_value) \<Rightarrow> sqlite3_value list" where
  "plan_argv info rhs =
     (let u = aConstraintUsage info in map rhs (sort_key (\<lambda>j. argvIndex (u ! j)) (filter (\<lambda>j. argvIndex (u ! j) > 0) [0..<length u])))"

lemma collect_result:
  assumes "collect_forwarded vt i items = Inr fs"
  shows "fs = map (\<lambda>k. (nat (iColumn (items ! k)), i + k)) (filter (\<lambda>k. on_parameter vt (items ! k)) [0..<length items]) \<and>
    (\<forall>item\<in>set items. on_parameter vt item \<longrightarrow> con_op item = SQLITE_INDEX_CONSTRAINT_EQ \<and> usable item)"
  using assms
proof (induction items arbitrary: i fs)
  case (Cons item items)
  have shift: "[0..<Suc (length items)] = 0 # map Suc [0..<length items]" by (simp add: upt_conv_Cons map_Suc_upt del: upt_Suc)
  show ?case
  proof (cases "on_parameter vt item")
    case True
    then obtain fs' where fs: "collect_forwarded vt (Suc i) items = Inr fs'" "fs = (nat (iColumn item), i) # fs'"
      "con_op item = SQLITE_INDEX_CONSTRAINT_EQ" "usable item"
      using Cons.prems by (auto simp: on_parameter_def split: if_splits sum.splits)
    then show ?thesis using True Cons.IH [OF fs(1)] by (simp add: shift filter_map comp_def del: upt_Suc)
  next
    case False
    then have fs: "collect_forwarded vt (Suc i) items = Inr fs" using Cons.prems by (auto simp: on_parameter_def split: if_splits)
    show ?thesis using False Cons.IH [OF fs] by (simp add: shift filter_map comp_def del: upt_Suc)
  qed
qed simp

lemma collect_error: "collect_forwarded vt i items = Inl (rc, msg) \<Longrightarrow> rc \<noteq> SQLITE_OK"
  by (induction items arbitrary: i) (auto split: if_splits sum.splits)

text \<open>The pairs that are the first of their column.\<close>

fun firsts :: "nat set \<Rightarrow> (nat \<times> nat) list \<Rightarrow> (nat \<times> nat) list" where
  "firsts S [] = []"
| "firsts S ((c, i) # fs) = (if c \<in> S then firsts S fs else (c, i) # firsts (insert c S) fs)"

fun assign :: "nat \<Rightarrow> nat list \<Rightarrow> constraint_usage list \<Rightarrow> constraint_usage list" where
  "assign n [] u = u"
| "assign n (i # is) u = assign (Suc n) is (u[i := \<lparr>argvIndex = n + 1, omit = True\<rparr>])"

lemma bit_test: "x AND 2 ^ c = 0 \<longleftrightarrow> \<not> bit x c" if "c < 32" for x :: u32
proof
  assume z: "x AND 2 ^ c = 0"
  show "\<not> bit x c"
  proof
    assume "bit x c"
    then have "bit (x AND 2 ^ c) c" using that by (simp add: bit_and_iff bit_exp_iff)
    with z show False by simp
  qed
next
  assume "\<not> bit x c"
  then show "x AND 2 ^ c = 0" by (intro bit_eqI) (auto simp: bit_and_iff bit_exp_iff)
qed

lemma bit_set: "Collect (bit (x OR 2 ^ c)) = insert c (Collect (bit x))" if "c < 32" for x :: u32
  using that by (auto simp: bit_or_iff bit_exp_iff)

lemma forward_result:
  assumes "\<forall>(c, i)\<in>set fs. c < 32"
  shows "\<exists>x. forward fs n info = Some (n + length (firsts (Collect (bit (idxNum info))) fs),
      info\<lparr>idxNum := x, aConstraintUsage := assign n (map snd (firsts (Collect (bit (idxNum info))) fs)) (aConstraintUsage info)\<rparr>) \<and>
    Collect (bit x) = Collect (bit (idxNum info)) \<union> fst ` set fs"
  using assms
proof (induction fs n info rule: forward.induct)
  case (2 column i fs n info)
  have c: "column < 32" and fs: "\<forall>(c, i)\<in>set fs. c < 32" using "2.prems" by auto
  show ?case
  proof (cases "bit (idxNum info) column")
    case True
    then show ?thesis using "2.IH"(2) [OF _ _ fs] c by (auto simp: bit_test)
  next
    case False
    then show ?thesis using "2.IH"(1) [OF _ _ fs] c by (auto simp: bit_test bit_set)
  qed
next
  case (1 n info)
  show ?case by (rule exI [of _ "idxNum info"]) simp
qed

lemma firsts_subset: "set (firsts S fs) \<subseteq> set fs"
  by (induction S fs rule: firsts.induct) auto

lemma firsts_columns: "fst ` set (firsts S fs) = fst ` set fs - S"
  by (induction S fs rule: firsts.induct) auto

lemma firsts_distinct: "distinct (map fst (firsts S fs))"
proof (induction S fs rule: firsts.induct)
  case (2 S c i fs)
  then show ?case using firsts_columns [of "insert c S" fs] by (auto simp flip: set_map)
qed simp

lemma firsts_sorted: "sorted fs \<Longrightarrow> sorted (map fst (firsts S fs))"
proof (induction S fs rule: firsts.induct)
  case (2 S c i fs)
  have "c \<le> fst x" if "x \<in> set (firsts (insert c S) fs)" for x
  proof -
    have "x \<in> set fs" using that firsts_subset [of "insert c S" fs] by blast
    then have "(c, i) \<le> x" using "2.prems" by simp
    then show ?thesis by (cases x) (auto simp: less_eq_prod_def)
  qed
  with 2 show ?case by auto
qed simp

lemma firsts_least: "sorted fs \<Longrightarrow> (c, i) \<in> set (firsts S fs) \<Longrightarrow> (c, j) \<in> set fs \<Longrightarrow> i \<le> j"
proof (induction S fs rule: firsts.induct)
  case (2 S c' i' fs)
  have "c \<noteq> c'" if "(c, i) \<in> set (firsts (insert c' S) fs)"
    using firsts_columns [of "insert c' S" fs] that by force
  with 2 show ?case using firsts_columns [of S fs] by (auto simp: less_eq_prod_def split: if_splits) force
qed simp

lemma assign_length [simp]: "length (assign n is u) = length u"
  by (induction n "is" u rule: assign.induct) auto

lemma assign_other: "j \<notin> set is \<Longrightarrow> assign n is u ! j = u ! j"
  by (induction n "is" u rule: assign.induct) auto

lemma assign_at: "distinct is \<Longrightarrow> k < length is \<Longrightarrow> is ! k < length u \<Longrightarrow> assign n is u ! (is ! k) = \<lparr>argvIndex = n + k + 1, omit = True\<rparr>"
proof (induction n "is" u arbitrary: k rule: assign.induct)
  case (2 n i "is" u)
  then show ?case by (cases k) (auto simp: assign_other)
qed simp

lemma filter_args_result:
  assumes "\<forall>i\<in>set is. i < 32"
  shows "filter_args v8 safe_ints x is (map h (filter (bit x) is)) =
    Some (if \<exists>i\<in>set is. bit x i \<and> h i = VNull then None
          else Some (map (\<lambda>i. if bit x i then SQLITE_VALUE_TO_JS v8 safe_ints (h i) else JsUndefined) is))"
proof -
  have null: "SQLITE_VALUE_TO_JS v8 safe_ints v = JsNull \<longleftrightarrow> v = VNull" for v
    by (cases v) (simp_all add: SQLITE_VALUE_TO_JS_def)
  show ?thesis using assms by (induction "is") (auto simp: bit_test null Let_def)
qed

lemma first_constraint_least:
  assumes "on_parameter vt (items ! j)" "iColumn (items ! j) = int c" "j < length items"
    and "\<And>k. k < length items \<Longrightarrow> on_parameter vt (items ! k) \<Longrightarrow> iColumn (items ! k) = int c \<Longrightarrow> j \<le> k"
  shows "first_constraint vt items c = Some j"
proof -
  have "\<not> (on_parameter vt (items ! m) \<and> iColumn (items ! m) = int c)" if "m < j" for m
    using assms(3) assms(4) [of m] that by auto
  then have "\<exists>k<length [0..<length items]. (on_parameter vt (items ! ([0..<length items] ! k)) \<and> iColumn (items ! ([0..<length items] ! k)) = int c) \<and>
      j = [0..<length items] ! k \<and> (\<forall>m<k. \<not> (on_parameter vt (items ! ([0..<length items] ! m)) \<and> iColumn (items ! ([0..<length items] ! m)) = int c))"
    using assms(1-3) by (intro exI [of _ j]) simp
  then show ?thesis unfolding first_constraint_def find_Some_iff by simp
qed

text \<open>The plan, in terms of the first constraint of each parameter.\<close>

definition parameter_pairs :: "vtab \<Rightarrow> index_constraint list \<Rightarrow> (nat \<times> nat) list" where
  "parameter_pairs vt items = map (\<lambda>k. (nat (iColumn (items ! k)), k)) (filter (\<lambda>k. on_parameter vt (items ! k)) [0..<length items])"

lemma parameter_pairs_set:
  "(c, j) \<in> set (parameter_pairs vt items) \<longleftrightarrow> j < length items \<and> on_parameter vt (items ! j) \<and> iColumn (items ! j) = int c"
  by (force simp: parameter_pairs_def on_parameter_def)

lemma parameter_pairs_distinct: "distinct (map snd (parameter_pairs vt items))"
  by (simp add: parameter_pairs_def comp_def)

lemma pairs_first:
  assumes "(c, j) \<in> set (firsts {} (sort (parameter_pairs vt items)))"
  shows "first_constraint vt items c = Some j"
proof (rule first_constraint_least)
  have "(c, j) \<in> set (parameter_pairs vt items)" using assms firsts_subset [of "{}" "sort (parameter_pairs vt items)"] by auto
  then show "on_parameter vt (items ! j)" "iColumn (items ! j) = int c" "j < length items" by (auto simp: parameter_pairs_set)
next
  fix k assume "k < length items" "on_parameter vt (items ! k)" "iColumn (items ! k) = int c"
  then have "(c, k) \<in> set (sort (parameter_pairs vt items))" by (simp add: parameter_pairs_set)
  then show "j \<le> k" using firsts_least [OF _ assms] by simp
qed

lemma pairs_columns:
  "map fst (firsts {} (sort (parameter_pairs vt items))) =
    filter (\<lambda>c. first_constraint vt items c \<noteq> None) [0..<parameter_count vt]"
proof (rule sorted_distinct_set_unique)
  have in_fst: "c \<in> fst ` S \<longleftrightarrow> (\<exists>j. (c, j) \<in> S)" for c and S :: "(nat \<times> nat) set" by force
  have ex: "first_constraint vt items c \<noteq> None \<longleftrightarrow> c \<in> fst ` set (parameter_pairs vt items)" for c
    unfolding in_fst parameter_pairs_set first_constraint_def find_None_iff by auto
  have "c < parameter_count vt" if "c \<in> fst ` set (parameter_pairs vt items)" for c
    using that unfolding in_fst parameter_pairs_set by (auto simp: on_parameter_def)
  then show "set (map fst (firsts {} (sort (parameter_pairs vt items)))) =
      set (filter (\<lambda>c. first_constraint vt items c \<noteq> None) [0..<parameter_count vt])"
    unfolding ex by (auto simp: firsts_columns)
qed (simp_all add: firsts_distinct firsts_sorted sorted_wrt_filter)

lemma plan_order:
  assumes "distinct is" "\<forall>j\<in>set is. j < length u" "\<forall>v\<in>set u. argvIndex v = 0"
  shows "sort_key (\<lambda>j. argvIndex (assign 0 is u ! j)) (filter (\<lambda>j. argvIndex (assign 0 is u ! j) > 0) [0..<length u]) = is"
proof (rule sort_key_inj_key_eq)
  have at: "argvIndex (assign 0 is u ! (is ! k)) = Suc k" if "k < length is" for k using assign_at [OF assms(1) that, of u 0] assms(2) that by simp
  have inside: "argvIndex (assign 0 is u ! j) > 0 \<longleftrightarrow> j \<in> set is" if "j < length u" for j
  proof (cases "j \<in> set is")
    case True
    then obtain k where "k < length is" "j = is ! k" by (metis in_set_conv_nth)
    then show ?thesis using at [of k] True by simp
  next
    case False
    then show ?thesis using assign_other [of j "is" 0 u] assms(3) nth_mem [OF that] by simp
  qed
  then have s: "set (filter (\<lambda>j. argvIndex (assign 0 is u ! j) > 0) [0..<length u]) = set is" using assms(2) by auto
  then show "mset (filter (\<lambda>j. argvIndex (assign 0 is u ! j) > 0) [0..<length u]) = mset is"
    using assms(1) by (subst set_eq_iff_mset_eq_distinct [symmetric]) simp_all
  show "inj_on (\<lambda>j. argvIndex (assign 0 is u ! j)) (set (filter (\<lambda>j. argvIndex (assign 0 is u ! j) > 0) [0..<length u]))"
    unfolding s
  proof (rule inj_onI)
    fix i j assume "i \<in> set is" "j \<in> set is" and eq: "argvIndex (assign 0 is u ! i) = argvIndex (assign 0 is u ! j)"
    then obtain k l where "k < length is" "i = is ! k" "l < length is" "j = is ! l" by (metis in_set_conv_nth)
    then show "i = j" using eq at [of k] at [of l] by simp
  qed
  show "sorted (map (\<lambda>j. argvIndex (assign 0 is u ! j)) is)" by (simp add: sorted_iff_nth_mono at)
qed

lemma best_index_plan:
  assumes b: "xBestIndex vt info = Some (SQLITE_OK, msg, info')"
    and i: "idxNum info = 0" "\<forall>u\<in>set (aConstraintUsage info). argvIndex u = 0" "length (aConstraintUsage info) = length (aConstraint info)"
    and p: "parameter_count vt \<le> 32"
  shows "Collect (bit (idxNum info')) = {c. c < parameter_count vt \<and> first_constraint vt (aConstraint info) c \<noteq> None} \<and>
    plan_argv info' rhs = map (\<lambda>c. rhs (the (first_constraint vt (aConstraint info) c)))
      (filter (\<lambda>c. first_constraint vt (aConstraint info) c \<noteq> None) [0..<parameter_count vt])"
proof -
  let ?F = "firsts {} (sort (parameter_pairs vt (aConstraint info)))"
  obtain fs where "collect_forwarded vt 0 (aConstraint info) = Inr fs" using b by (auto simp: xBestIndex_def split: sum.splits dest: collect_error)
  then have c: "collect_forwarded vt 0 (aConstraint info) = Inr (parameter_pairs vt (aConstraint info))"
    using collect_result [of vt 0 "aConstraint info" fs] by (simp add: parameter_pairs_def)
  have "\<forall>(c, i)\<in>set (sort (parameter_pairs vt (aConstraint info))). c < 32" using p by (auto simp: parameter_pairs_set on_parameter_def)
  moreover have z: "Collect (bit (idxNum info)) = {}" using i(1) by auto
  ultimately obtain x where
    f: "forward (sort (parameter_pairs vt (aConstraint info))) 0 info = Some (length ?F, info\<lparr>idxNum := x, aConstraintUsage := assign 0 (map snd ?F) (aConstraintUsage info)\<rparr>)"
    and x: "Collect (bit x) = fst ` set (parameter_pairs vt (aConstraint info))" using forward_result [of "sort (parameter_pairs vt (aConstraint info))" 0 info] unfolding z by fastforce
  have info': "idxNum info' = x" "aConstraintUsage info' = assign 0 (map snd ?F) (aConstraintUsage info)"
    using b by (auto simp: xBestIndex_def c f)
  have sub: "set ?F \<subseteq> set (parameter_pairs vt (aConstraint info))" using firsts_subset [of "{}" "sort (parameter_pairs vt (aConstraint info))"] by simp
  have "inj_on snd (set (parameter_pairs vt (aConstraint info)))" using parameter_pairs_distinct by (simp add: distinct_map)
  then have "distinct (map snd ?F)" using firsts_distinct [of "{}"] sub by (auto simp: distinct_map intro: inj_on_subset)
  moreover have "\<forall>j\<in>set (map snd ?F). j < length (aConstraintUsage info)" using sub i(3) by (auto simp: parameter_pairs_set)
  ultimately have "plan_argv info' rhs = map rhs (map snd ?F)"
    using plan_order [of "map snd ?F" "aConstraintUsage info"] i(2) by (simp add: plan_argv_def info' Let_def)
  also have "snd p = the (first_constraint vt (aConstraint info) (fst p))" if "p \<in> set ?F" for p
    using pairs_first [of "fst p" "snd p"] that by simp
  then have "map snd ?F = map (\<lambda>c. the (first_constraint vt (aConstraint info) c)) (map fst ?F)" by simp
  finally have "plan_argv info' rhs = map (\<lambda>c. rhs (the (first_constraint vt (aConstraint info) c))) (map fst ?F)" by simp
  moreover have "fst ` set (parameter_pairs vt (aConstraint info)) = set (map fst ?F)" by (simp add: firsts_columns)
  moreover have "set (filter P [0..<n]) = {c. c < n \<and> P c}" for P n by auto
  ultimately show ?thesis unfolding pairs_columns info' x by simp
qed

section \<open>A scan\<close>

text \<open>The iterator yields these values and then is done.\<close>

inductive yields :: "'w js_runtime \<Rightarrow> js_value \<Rightarrow> js_value \<Rightarrow> js_value list \<Rightarrow> 'w \<Rightarrow> 'w \<Rightarrow> bool" for js next_fn iter where
  yields_done: "js_call js next_fn iter [] w = (Some rec, w1) \<Longrightarrow> js_get js rec (key ''done'') w1 = (Some (JsBoolean True), w2) \<Longrightarrow>
    yields js next_fn iter [] w w2"
| yields_row: "js_call js next_fn iter [] w = (Some rec, w1) \<Longrightarrow> js_get js rec (key ''done'') w1 = (Some (JsBoolean False), w2) \<Longrightarrow>
    js_get js rec (key ''value'') w2 = (Some row, w3) \<Longrightarrow> yields js next_fn iter rows w3 w' \<Longrightarrow> yields js next_fn iter (row # rows) w w'"

text \<open>
  The loop of SQLite over a cursor after \<open>xFilter\<close>: the rows it sees with their ids, and the cursor at the end.
  \<open>None\<close>: an error, or more rows than \<open>fuel\<close>.
\<close>

fun scan :: "nat \<Rightarrow> 'w js_runtime \<Rightarrow> cursor \<Rightarrow> 'w callback \<Rightarrow> ((u64 \<times> js_value) list \<times> cursor \<times> 'w callback) option" where
  "scan 0 js cu st = None"
| "scan (Suc fuel) js cu st =
     (if xEof cu then Some ([], cu, st)
      else case xNext js cu st of
             Some (SQLITE_OK, cu', st') \<Rightarrow>
               map_option (\<lambda>(rows, r). ((snd (xRowid cu), cu_row cu) # rows, r)) (scan fuel js cu' st')
           | _ \<Rightarrow> None)"

lemma xNext_yields:
  assumes "yields js (cu_next cu) (cu_iterator cu) rows (cb_world st) w'"
  shows "case rows of
      [] \<Rightarrow> xNext js cu st = Some (SQLITE_OK, cu\<lparr>cu_done := True, cu_rowid := cu_rowid cu + 1\<rparr>, st\<lparr>cb_world := w'\<rparr>)
    | row # rest \<Rightarrow> \<exists>w. xNext js cu st = Some (SQLITE_OK, cu\<lparr>cu_row := row, cu_done := False, cu_rowid := cu_rowid cu + 1\<rparr>, st\<lparr>cb_world := w\<rparr>) \<and>
        yields js (cu_next cu) (cu_iterator cu) rest w w'"
  using assms by (cases rule: yields.cases) (auto simp: xNext_def call_function_def get_checked_def)

lemma scan_yields:
  assumes "yields js (cu_next cu) (cu_iterator cu) rows (cb_world st) w'" "\<not> cu_done cu"
  shows "\<exists>cu'. scan (Suc (Suc (length rows))) js cu st =
    Some (zip (map (\<lambda>k. cu_rowid cu + word_of_nat k) [0..<Suc (length rows)]) (cu_row cu # rows), cu', st\<lparr>cb_world := w'\<rparr>) \<and> xEof cu'"
  using assms
proof (induction rows arbitrary: cu st)
  case Nil
  then show ?case using xNext_yields [OF Nil.prems(1)] by (simp add: xEof_def xRowid_def)
next
  case (Cons row rows)
  obtain w where x: "xNext js cu st = Some (SQLITE_OK, cu\<lparr>cu_row := row, cu_done := False, cu_rowid := cu_rowid cu + 1\<rparr>, st\<lparr>cb_world := w\<rparr>)"
    and y: "yields js (cu_next cu) (cu_iterator cu) rows w w'" using xNext_yields [OF Cons.prems(1)] by auto
  let ?c = "cu\<lparr>cu_row := row, cu_done := False, cu_rowid := cu_rowid cu + 1\<rparr>"
  obtain cu' where s: "scan (Suc (Suc (length rows))) js ?c (st\<lparr>cb_world := w\<rparr>) =
      Some (zip (map (\<lambda>k. cu_rowid ?c + word_of_nat k) [0..<Suc (length rows)]) (row # rows), cu', st\<lparr>cb_world := w'\<rparr>)" "xEof cu'"
    using Cons.IH [of ?c "st\<lparr>cb_world := w\<rparr>"] y by auto
  have ids: "map (\<lambda>k. cu_rowid cu + word_of_nat k) [0..<Suc (Suc (length rows))] =
      cu_rowid cu # map (\<lambda>k. cu_rowid ?c + word_of_nat k) [0..<Suc (length rows)]"
    by (simp add: upt_conv_Cons [of 0] map_Suc_upt [symmetric] comp_def add.assoc del: upt_Suc)
  show ?case using s x Cons.prems(2) by (simp add: ids xEof_def xRowid_def del: upt_Suc scan.simps(2)) (simp add: xEof_def xRowid_def del: upt_Suc)
qed

section \<open>Properties\<close>

text \<open>C38: The generator gets the arguments of the query: under every plan the callback accepts, each constraint on
  a parameter is a usable equality, and the arguments rebuilt for the scan are, for each parameter in
  order, the right-hand side of its first constraint, and undefined if it has none; if one of them is
  null there is no scan.\<close>

theorem table_arguments:
  assumes "xBestIndex vt info = Some (SQLITE_OK, msg, info')"
    and "idxNum info = 0" "\<forall>u\<in>set (aConstraintUsage info). argvIndex u = 0" "length (aConstraintUsage info) = length (aConstraint info)"
    and "parameter_count vt \<le> 32"
  shows "let arg = first_constraint vt (aConstraint info)
    in (\<forall>item\<in>set (aConstraint info). on_parameter vt item \<longrightarrow> con_op item = SQLITE_INDEX_CONSTRAINT_EQ \<and> usable item) \<and>
       filter_args v8 safe_ints (idxNum info') [0..<parameter_count vt] (plan_argv info' rhs) =
         Some (if \<exists>c<parameter_count vt. \<exists>j. arg c = Some j \<and> rhs j = VNull then None
               else Some (map (\<lambda>c. case arg c of None \<Rightarrow> JsUndefined | Some j \<Rightarrow> SQLITE_VALUE_TO_JS v8 safe_ints (rhs j)) [0..<parameter_count vt]))"
proof -
  let ?arg = "first_constraint vt (aConstraint info)"
  obtain fs where "collect_forwarded vt 0 (aConstraint info) = Inr fs" using assms(1) by (auto simp: xBestIndex_def split: sum.splits dest: collect_error)
  then have usable: "\<forall>item\<in>set (aConstraint info). on_parameter vt item \<longrightarrow> con_op item = SQLITE_INDEX_CONSTRAINT_EQ \<and> usable item"
    using collect_result by blast
  note plan = best_index_plan [OF assms, of rhs]
  have b: "bit (idxNum info') c \<longleftrightarrow> c < parameter_count vt \<and> ?arg c \<noteq> None" for c using plan by blast
  have "filter (bit (idxNum info')) [0..<parameter_count vt] = filter (\<lambda>c. ?arg c \<noteq> None) [0..<parameter_count vt]"
    by (rule filter_cong) (simp_all add: b)
  then have eq: "plan_argv info' rhs = map (\<lambda>c. rhs (the (?arg c))) (filter (bit (idxNum info')) [0..<parameter_count vt])"
    using plan by simp
  have "\<forall>c\<in>set [0..<parameter_count vt]. c < 32" using assms(5) by auto
  from filter_args_result [OF this] have "filter_args v8 safe_ints (idxNum info') [0..<parameter_count vt] (plan_argv info' rhs) =
      Some (if \<exists>c\<in>set [0..<parameter_count vt]. bit (idxNum info') c \<and> rhs (the (?arg c)) = VNull then None
        else Some (map (\<lambda>c. if bit (idxNum info') c then SQLITE_VALUE_TO_JS v8 safe_ints (rhs (the (?arg c))) else JsUndefined) [0..<parameter_count vt]))"
    unfolding eq .
  moreover have "(\<exists>c\<in>set [0..<parameter_count vt]. bit (idxNum info') c \<and> rhs (the (?arg c)) = VNull) \<longleftrightarrow>
      (\<exists>c<parameter_count vt. \<exists>j. ?arg c = Some j \<and> rhs j = VNull)" by (auto simp: b)
  moreover have "map (\<lambda>c. if bit (idxNum info') c then SQLITE_VALUE_TO_JS v8 safe_ints (rhs (the (?arg c))) else JsUndefined) [0..<parameter_count vt] =
      map (\<lambda>c. case ?arg c of None \<Rightarrow> JsUndefined | Some j \<Rightarrow> SQLITE_VALUE_TO_JS v8 safe_ints (rhs j)) [0..<parameter_count vt]"
    by (auto simp: b split: option.split)
  ultimately show ?thesis using usable by (simp add: Let_def)
qed

definition example_vtab :: vtab where
  "example_vtab = VTab_new (CustomTable_new (lit ''series'') (JsFunction 9)) (JsFunction 0) [lit ''first'', lit ''last''] True"

definition example_index :: index_info where
  "example_index = \<lparr>aConstraint = [\<lparr>iColumn = 1, con_op = 2, usable = True\<rparr>, \<lparr>iColumn = 2, con_op = 4, usable = True\<rparr>,
       \<lparr>iColumn = 0, con_op = 2, usable = True\<rparr>, \<lparr>iColumn = 1, con_op = 2, usable = True\<rparr>],
     aConstraintUsage = replicate 4 \<lparr>argvIndex = 0, omit = False\<rparr>, idxNum = 0, estimatedCost = 0, estimatedRows = 0\<rparr>"

lemma example_plan: "\<exists>info'. xBestIndex example_vtab example_index = Some (SQLITE_OK, None, info')"
  by (simp add: xBestIndex_def example_vtab_def example_index_def VTab_new_def less_eq_prod_def bit_test)

theorem table_arguments_witness:
  "\<exists>info'. xBestIndex example_vtab example_index = Some (SQLITE_OK, None, info') \<and>
    filter_args example_v8 True (idxNum info') [0, 1] (plan_argv info' (\<lambda>j. VInteger (word_of_nat j))) = Some (Some [JsBigInt 2, JsBigInt 0])"
proof -
  obtain info' where i: "xBestIndex example_vtab example_index = Some (SQLITE_OK, None, info')" using example_plan by blast
  have p: "parameter_count example_vtab = 2" "idxNum example_index = 0" "\<forall>u\<in>set (aConstraintUsage example_index). argvIndex u = 0"
    "length (aConstraintUsage example_index) = length (aConstraint example_index)"
    by (simp_all add: example_vtab_def VTab_new_def example_index_def)
  have a: "first_constraint example_vtab (aConstraint example_index) c = (if c = 0 then Some 2 else if c = 1 then Some 0 else None)" if "c < 2" for c
    using that by (auto simp: first_constraint_def on_parameter_def example_index_def p(1) upt_conv_Cons less_2_cases_iff)
  from table_arguments [OF i p(2-4), of example_v8 True "\<lambda>j. VInteger (word_of_nat j)"] i show ?thesis
    by (auto simp: p(1) a Let_def upt_conv_Cons SQLITE_VALUE_TO_JS_def)
qed

text \<open>C39: A scan ends and shows SQLite every row the generator yields, in order, with the row ids from 1 on.\<close>

theorem table_scan:
  assumes "filter_args v8 (vt_safe_ints vt) x [0..<parameter_count vt] argv = Some (Some args)"
    and "js_call js (generator vt) JsUndefined args (cb_world st) = (Some iter, w1)" "js_get js iter (key ''next'') w1 = (Some next_fn, w2)"
    and "yields js next_fn iter rows w2 w'"
  shows "\<exists>cu' st' cu''. xFilter v8 js vt (snd xOpen) x argv st = Some (SQLITE_OK, cu', st') \<and>
    scan (Suc (length rows)) js cu' st' = Some (zip (map word_of_nat [1..<Suc (length rows)]) rows, cu'', st\<lparr>cb_world := w'\<rparr>) \<and> xEof cu''"
proof -
  let ?c = "(snd xOpen)\<lparr>cu_iterator := iter, cu_next := next_fn, cu_rowid := 0\<rparr>"
  have f: "xFilter v8 js vt (snd xOpen) x argv st = xNext js ?c (st\<lparr>cb_world := w2\<rparr>)"
    using assms(1-3) by (simp add: xFilter_def call_function_def get_checked_def)
  have y: "yields js (cu_next ?c) (cu_iterator ?c) rows (cb_world (st\<lparr>cb_world := w2\<rparr>)) w'" using assms(4) by simp
  show ?thesis
  proof (cases rows)
    case Nil
    then show ?thesis using xNext_yields [OF y] by (simp add: f xEof_def)
  next
    case (Cons row rest)
    then obtain w where n: "xNext js ?c (st\<lparr>cb_world := w2\<rparr>) = Some (SQLITE_OK, ?c\<lparr>cu_row := row, cu_done := False, cu_rowid := 1\<rparr>, st\<lparr>cb_world := w\<rparr>)"
      and r: "yields js next_fn iter rest w w'" using xNext_yields [OF y] by auto
    have "map (\<lambda>k. 1 + word_of_nat k) [0..<Suc (length rest)] = (map word_of_nat [1..<Suc (length rows)] :: u64 list)"
      by (simp add: Cons map_Suc_upt [symmetric] comp_def del: upt_Suc)
    then show ?thesis using scan_yields [of js "?c\<lparr>cu_row := row, cu_done := False, cu_rowid := 1\<rparr>" rest "st\<lparr>cb_world := w\<rparr>" w'] r
      by (auto simp: f n Cons simp del: upt_Suc scan.simps)
  qed
qed

text \<open>A generator of two rows, as a JavaScript program whose state is the rows left.\<close>

fun example_record :: "js_value \<Rightarrow> js_string \<Rightarrow> js_value option" where
  "example_record (JsArray []) k = Some (JsBoolean True)"
| "example_record (JsArray (x # xs)) k = (if k = key ''done'' then Some (JsBoolean False) else x)"
| "example_record v k = Some (JsFunction 1)"

definition example_generator :: "int list js_runtime" where
  "example_generator = \<lparr>js_call = (\<lambda>f this args w.
       if f = JsFunction 0 then (Some (JsSymbol 0), [5, 6])
       else case w of [] \<Rightarrow> (Some (JsArray []), []) | n # ns \<Rightarrow> (Some (JsArray [Some (JsBigInt n)]), ns)),
     js_get = (\<lambda>obj k w. (example_record obj k, w)), js_get_index = (\<lambda>_ _ w. (None, w))\<rparr>"

lemma example_yields: "yields example_generator (JsFunction 1) (JsSymbol 0) (map JsBigInt w) w []"
proof (induction w)
  case Nil
  show ?case unfolding list.map by (rule yields_done [where rec = "JsArray []" and ?w1.0 = "[]"]) (simp_all add: example_generator_def)
next
  case (Cons n w)
  have "key ''value'' \<noteq> key ''done''" by (simp add: key_def)
  then show ?case unfolding list.map
    by (intro yields_row [where rec = "JsArray [Some (JsBigInt n)]" and ?w1.0 = w and ?w2.0 = w and ?w3.0 = w, OF _ _ _ Cons.IH])
      (simp_all add: example_generator_def)
qed

definition example_scan :: "int list callback" where
  "example_scan = \<lparr>cb_context = \<lparr>pOut = VNull, pMem = None, pVdbe = example_vdbe, isError = SQLITE_OK\<rparr>,
     was_js_error = False, cb_thrown = None, cb_world = []\<rparr>"

theorem table_scan_witness:
  "\<exists>cu st cu'. xFilter example_v8 example_generator example_vtab (snd xOpen) 3 [VInteger 1, VInteger 2] example_scan = Some (SQLITE_OK, cu, st) \<and>
    scan 3 example_generator cu st = Some ([(1, JsBigInt 5), (2, JsBigInt 6)], cu', example_scan) \<and> xEof cu'"
proof -
  have f: "filter_args example_v8 (vt_safe_ints example_vtab) 3 [0..<parameter_count example_vtab] [VInteger 1, VInteger 2] = Some (Some [JsBigInt 1, JsBigInt 2])"
    by (simp add: example_vtab_def VTab_new_def upt_conv_Cons SQLITE_VALUE_TO_JS_def)
  have g: "js_call example_generator (generator example_vtab) JsUndefined [JsBigInt 1, JsBigInt 2] (cb_world example_scan) = (Some (JsSymbol 0), [5, 6])"
    "js_get example_generator (JsSymbol 0) (key ''next'') [5, 6] = (Some (JsFunction 1), [5, 6])"
    by (simp_all add: example_generator_def example_vtab_def VTab_new_def)
  have "example_scan\<lparr>cb_world := []\<rparr> = example_scan" by (simp add: example_scan_def)
  with table_scan [OF f g example_yields] show ?thesis by (simp add: upt_conv_Cons numeral_3_eq_3 del: scan.simps)
qed

end
