(* ===== verification/ErrorCodes.thy ===== *)
theory ErrorCodes
  imports Connection
begin

text \<open>
  The codes of SQLite errors as JavaScript sees them: the result codes of sqlite3.h, the table of their
  names in util/constants.cpp, and the error object that database.cpp makes of a code.
\<close>

section \<open>Result codes\<close>

text \<open>The primary codes, and the extended ones: a primary code and a number in the second byte.\<close>

definition primary_codes :: "(string \<times> int) list" where
  "primary_codes = [
     (''SQLITE_OK'', 0), (''SQLITE_ERROR'', 1), (''SQLITE_INTERNAL'', 2), (''SQLITE_PERM'', 3), (''SQLITE_ABORT'', 4),
     (''SQLITE_BUSY'', 5), (''SQLITE_LOCKED'', 6), (''SQLITE_NOMEM'', 7), (''SQLITE_READONLY'', 8),
     (''SQLITE_INTERRUPT'', 9), (''SQLITE_IOERR'', 10), (''SQLITE_CORRUPT'', 11), (''SQLITE_NOTFOUND'', 12),
     (''SQLITE_FULL'', 13), (''SQLITE_CANTOPEN'', 14), (''SQLITE_PROTOCOL'', 15), (''SQLITE_EMPTY'', 16),
     (''SQLITE_SCHEMA'', 17), (''SQLITE_TOOBIG'', 18), (''SQLITE_CONSTRAINT'', 19), (''SQLITE_MISMATCH'', 20),
     (''SQLITE_MISUSE'', 21), (''SQLITE_NOLFS'', 22), (''SQLITE_AUTH'', 23), (''SQLITE_FORMAT'', 24),
     (''SQLITE_RANGE'', 25), (''SQLITE_NOTADB'', 26), (''SQLITE_NOTICE'', 27), (''SQLITE_WARNING'', 28),
     (''SQLITE_ROW'', 100), (''SQLITE_DONE'', 101)]"

definition extended_codes :: "(string \<times> int \<times> int) list" where
  "extended_codes = [
     (''SQLITE_ERROR_MISSING_COLLSEQ'', 1, 1), (''SQLITE_ERROR_RETRY'', 1, 2), (''SQLITE_ERROR_SNAPSHOT'', 1, 3),
     (''SQLITE_ERROR_RESERVESIZE'', 1, 4), (''SQLITE_ERROR_KEY'', 1, 5), (''SQLITE_ERROR_UNABLE'', 1, 6),
     (''SQLITE_IOERR_READ'', 10, 1), (''SQLITE_IOERR_SHORT_READ'', 10, 2), (''SQLITE_IOERR_WRITE'', 10, 3),
     (''SQLITE_IOERR_FSYNC'', 10, 4), (''SQLITE_IOERR_DIR_FSYNC'', 10, 5), (''SQLITE_IOERR_TRUNCATE'', 10, 6),
     (''SQLITE_IOERR_FSTAT'', 10, 7), (''SQLITE_IOERR_UNLOCK'', 10, 8), (''SQLITE_IOERR_RDLOCK'', 10, 9),
     (''SQLITE_IOERR_DELETE'', 10, 10), (''SQLITE_IOERR_BLOCKED'', 10, 11), (''SQLITE_IOERR_NOMEM'', 10, 12),
     (''SQLITE_IOERR_ACCESS'', 10, 13), (''SQLITE_IOERR_CHECKRESERVEDLOCK'', 10, 14), (''SQLITE_IOERR_LOCK'', 10, 15),
     (''SQLITE_IOERR_CLOSE'', 10, 16), (''SQLITE_IOERR_DIR_CLOSE'', 10, 17), (''SQLITE_IOERR_SHMOPEN'', 10, 18),
     (''SQLITE_IOERR_SHMSIZE'', 10, 19), (''SQLITE_IOERR_SHMLOCK'', 10, 20), (''SQLITE_IOERR_SHMMAP'', 10, 21),
     (''SQLITE_IOERR_SEEK'', 10, 22), (''SQLITE_IOERR_DELETE_NOENT'', 10, 23), (''SQLITE_IOERR_MMAP'', 10, 24),
     (''SQLITE_IOERR_GETTEMPPATH'', 10, 25), (''SQLITE_IOERR_CONVPATH'', 10, 26), (''SQLITE_IOERR_VNODE'', 10, 27),
     (''SQLITE_IOERR_AUTH'', 10, 28), (''SQLITE_IOERR_BEGIN_ATOMIC'', 10, 29),
     (''SQLITE_IOERR_COMMIT_ATOMIC'', 10, 30), (''SQLITE_IOERR_ROLLBACK_ATOMIC'', 10, 31),
     (''SQLITE_IOERR_DATA'', 10, 32), (''SQLITE_IOERR_CORRUPTFS'', 10, 33), (''SQLITE_IOERR_IN_PAGE'', 10, 34),
     (''SQLITE_IOERR_BADKEY'', 10, 35), (''SQLITE_IOERR_CODEC'', 10, 36), (''SQLITE_LOCKED_SHAREDCACHE'', 6, 1),
     (''SQLITE_LOCKED_VTAB'', 6, 2), (''SQLITE_BUSY_RECOVERY'', 5, 1), (''SQLITE_BUSY_SNAPSHOT'', 5, 2),
     (''SQLITE_BUSY_TIMEOUT'', 5, 3), (''SQLITE_CANTOPEN_NOTEMPDIR'', 14, 1), (''SQLITE_CANTOPEN_ISDIR'', 14, 2),
     (''SQLITE_CANTOPEN_FULLPATH'', 14, 3), (''SQLITE_CANTOPEN_CONVPATH'', 14, 4),
     (''SQLITE_CANTOPEN_DIRTYWAL'', 14, 5), (''SQLITE_CANTOPEN_SYMLINK'', 14, 6), (''SQLITE_CORRUPT_VTAB'', 11, 1),
     (''SQLITE_CORRUPT_SEQUENCE'', 11, 2), (''SQLITE_CORRUPT_INDEX'', 11, 3), (''SQLITE_READONLY_RECOVERY'', 8, 1),
     (''SQLITE_READONLY_CANTLOCK'', 8, 2), (''SQLITE_READONLY_ROLLBACK'', 8, 3), (''SQLITE_READONLY_DBMOVED'', 8, 4),
     (''SQLITE_READONLY_CANTINIT'', 8, 5), (''SQLITE_READONLY_DIRECTORY'', 8, 6), (''SQLITE_ABORT_ROLLBACK'', 4, 2),
     (''SQLITE_CONSTRAINT_CHECK'', 19, 1), (''SQLITE_CONSTRAINT_COMMITHOOK'', 19, 2),
     (''SQLITE_CONSTRAINT_FOREIGNKEY'', 19, 3), (''SQLITE_CONSTRAINT_FUNCTION'', 19, 4),
     (''SQLITE_CONSTRAINT_NOTNULL'', 19, 5), (''SQLITE_CONSTRAINT_PRIMARYKEY'', 19, 6),
     (''SQLITE_CONSTRAINT_TRIGGER'', 19, 7), (''SQLITE_CONSTRAINT_UNIQUE'', 19, 8),
     (''SQLITE_CONSTRAINT_VTAB'', 19, 9), (''SQLITE_CONSTRAINT_ROWID'', 19, 10),
     (''SQLITE_CONSTRAINT_PINNED'', 19, 11), (''SQLITE_CONSTRAINT_DATATYPE'', 19, 12),
     (''SQLITE_NOTICE_RECOVER_WAL'', 27, 1), (''SQLITE_NOTICE_RECOVER_ROLLBACK'', 27, 2),
     (''SQLITE_NOTICE_RBU'', 27, 3), (''SQLITE_WARNING_AUTOINDEX'', 28, 1), (''SQLITE_AUTH_USER'', 23, 1),
     (''SQLITE_OK_LOAD_PERMANENTLY'', 0, 1), (''SQLITE_OK_SYMLINK'', 0, 2)]"

definition result_codes :: "(string \<times> int) list" where
  "result_codes = primary_codes @ map (\<lambda>(name, base, k). (name, base + k * 256)) extended_codes"

text \<open>The number of a code of the model.\<close>

fun rc_number :: "rc \<Rightarrow> int" where
  "rc_number SQLITE_OK = 0"
| "rc_number SQLITE_ERROR = 1"
| "rc_number SQLITE_BUSY = 5"
| "rc_number SQLITE_NOMEM = 7"
| "rc_number SQLITE_CORRUPT = 11"
| "rc_number SQLITE_SCHEMA = 17"
| "rc_number SQLITE_TOOBIG = 18"
| "rc_number SQLITE_CONSTRAINT = 19"
| "rc_number SQLITE_MISUSE = 21"
| "rc_number SQLITE_RANGE = 25"
| "rc_number SQLITE_ROW = 100"
| "rc_number SQLITE_DONE = 101"
| "rc_number (SQLITE_CODE i) = i"

section \<open>Names\<close>

text \<open>The calls of \<open>SetCode\<close> by the constructor of \<open>CS\<close>: a code, given by its macro, and its name.\<close>

definition SetCode_calls :: "(int \<times> string) list" where
  "SetCode_calls = [
     (0, ''SQLITE_OK''), (1, ''SQLITE_ERROR''), (2, ''SQLITE_INTERNAL''), (3, ''SQLITE_PERM''), (4, ''SQLITE_ABORT''),
     (5, ''SQLITE_BUSY''), (6, ''SQLITE_LOCKED''), (7, ''SQLITE_NOMEM''), (8, ''SQLITE_READONLY''),
     (9, ''SQLITE_INTERRUPT''), (10, ''SQLITE_IOERR''), (11, ''SQLITE_CORRUPT''), (12, ''SQLITE_NOTFOUND''),
     (13, ''SQLITE_FULL''), (14, ''SQLITE_CANTOPEN''), (15, ''SQLITE_PROTOCOL''), (16, ''SQLITE_EMPTY''),
     (17, ''SQLITE_SCHEMA''), (18, ''SQLITE_TOOBIG''), (19, ''SQLITE_CONSTRAINT''), (20, ''SQLITE_MISMATCH''),
     (21, ''SQLITE_MISUSE''), (22, ''SQLITE_NOLFS''), (23, ''SQLITE_AUTH''), (24, ''SQLITE_FORMAT''),
     (25, ''SQLITE_RANGE''), (26, ''SQLITE_NOTADB''), (27, ''SQLITE_NOTICE''), (28, ''SQLITE_WARNING''),
     (100, ''SQLITE_ROW''), (101, ''SQLITE_DONE''), (1 + 1 * 256, ''SQLITE_ERROR_MISSING_COLLSEQ''),
     (1 + 2 * 256, ''SQLITE_ERROR_RETRY''), (1 + 3 * 256, ''SQLITE_ERROR_SNAPSHOT''),
     (10 + 1 * 256, ''SQLITE_IOERR_READ''), (10 + 2 * 256, ''SQLITE_IOERR_SHORT_READ''),
     (10 + 3 * 256, ''SQLITE_IOERR_WRITE''), (10 + 4 * 256, ''SQLITE_IOERR_FSYNC''),
     (10 + 5 * 256, ''SQLITE_IOERR_DIR_FSYNC''), (10 + 6 * 256, ''SQLITE_IOERR_TRUNCATE''),
     (10 + 7 * 256, ''SQLITE_IOERR_FSTAT''), (10 + 8 * 256, ''SQLITE_IOERR_UNLOCK''),
     (10 + 9 * 256, ''SQLITE_IOERR_RDLOCK''), (10 + 10 * 256, ''SQLITE_IOERR_DELETE''),
     (10 + 11 * 256, ''SQLITE_IOERR_BLOCKED''), (10 + 12 * 256, ''SQLITE_IOERR_NOMEM''),
     (10 + 13 * 256, ''SQLITE_IOERR_ACCESS''), (10 + 14 * 256, ''SQLITE_IOERR_CHECKRESERVEDLOCK''),
     (10 + 15 * 256, ''SQLITE_IOERR_LOCK''), (10 + 16 * 256, ''SQLITE_IOERR_CLOSE''),
     (10 + 17 * 256, ''SQLITE_IOERR_DIR_CLOSE''), (10 + 18 * 256, ''SQLITE_IOERR_SHMOPEN''),
     (10 + 19 * 256, ''SQLITE_IOERR_SHMSIZE''), (10 + 20 * 256, ''SQLITE_IOERR_SHMLOCK''),
     (10 + 21 * 256, ''SQLITE_IOERR_SHMMAP''), (10 + 22 * 256, ''SQLITE_IOERR_SEEK''),
     (10 + 23 * 256, ''SQLITE_IOERR_DELETE_NOENT''), (10 + 24 * 256, ''SQLITE_IOERR_MMAP''),
     (10 + 25 * 256, ''SQLITE_IOERR_GETTEMPPATH''), (10 + 26 * 256, ''SQLITE_IOERR_CONVPATH''),
     (10 + 27 * 256, ''SQLITE_IOERR_VNODE''), (10 + 28 * 256, ''SQLITE_IOERR_AUTH''),
     (10 + 29 * 256, ''SQLITE_IOERR_BEGIN_ATOMIC''), (10 + 30 * 256, ''SQLITE_IOERR_COMMIT_ATOMIC''),
     (10 + 31 * 256, ''SQLITE_IOERR_ROLLBACK_ATOMIC''), (10 + 32 * 256, ''SQLITE_IOERR_DATA''),
     (10 + 33 * 256, ''SQLITE_IOERR_CORRUPTFS''), (10 + 34 * 256, ''SQLITE_IOERR_IN_PAGE''),
     (6 + 1 * 256, ''SQLITE_LOCKED_SHAREDCACHE''), (6 + 2 * 256, ''SQLITE_LOCKED_VTAB''),
     (5 + 1 * 256, ''SQLITE_BUSY_RECOVERY''), (5 + 2 * 256, ''SQLITE_BUSY_SNAPSHOT''),
     (14 + 1 * 256, ''SQLITE_CANTOPEN_NOTEMPDIR''), (14 + 2 * 256, ''SQLITE_CANTOPEN_ISDIR''),
     (14 + 3 * 256, ''SQLITE_CANTOPEN_FULLPATH''), (14 + 4 * 256, ''SQLITE_CANTOPEN_CONVPATH''),
     (14 + 5 * 256, ''SQLITE_CANTOPEN_DIRTYWAL''), (14 + 6 * 256, ''SQLITE_CANTOPEN_SYMLINK''),
     (11 + 1 * 256, ''SQLITE_CORRUPT_VTAB''), (11 + 2 * 256, ''SQLITE_CORRUPT_SEQUENCE''),
     (11 + 3 * 256, ''SQLITE_CORRUPT_INDEX''), (8 + 1 * 256, ''SQLITE_READONLY_RECOVERY''),
     (8 + 2 * 256, ''SQLITE_READONLY_CANTLOCK''), (8 + 3 * 256, ''SQLITE_READONLY_ROLLBACK''),
     (8 + 4 * 256, ''SQLITE_READONLY_DBMOVED''), (8 + 5 * 256, ''SQLITE_READONLY_CANTINIT''),
     (8 + 6 * 256, ''SQLITE_READONLY_DIRECTORY''), (4 + 2 * 256, ''SQLITE_ABORT_ROLLBACK''),
     (19 + 1 * 256, ''SQLITE_CONSTRAINT_CHECK''), (19 + 2 * 256, ''SQLITE_CONSTRAINT_COMMITHOOK''),
     (19 + 3 * 256, ''SQLITE_CONSTRAINT_FOREIGNKEY''), (19 + 4 * 256, ''SQLITE_CONSTRAINT_FUNCTION''),
     (19 + 5 * 256, ''SQLITE_CONSTRAINT_NOTNULL''), (19 + 6 * 256, ''SQLITE_CONSTRAINT_PRIMARYKEY''),
     (19 + 7 * 256, ''SQLITE_CONSTRAINT_TRIGGER''), (19 + 8 * 256, ''SQLITE_CONSTRAINT_UNIQUE''),
     (19 + 9 * 256, ''SQLITE_CONSTRAINT_VTAB''), (19 + 10 * 256, ''SQLITE_CONSTRAINT_ROWID''),
     (19 + 11 * 256, ''SQLITE_CONSTRAINT_PINNED''), (19 + 12 * 256, ''SQLITE_CONSTRAINT_DATATYPE''),
     (27 + 1 * 256, ''SQLITE_NOTICE_RECOVER_WAL''), (27 + 2 * 256, ''SQLITE_NOTICE_RECOVER_ROLLBACK''),
     (27 + 3 * 256, ''SQLITE_NOTICE_RBU''), (28 + 1 * 256, ''SQLITE_WARNING_AUTOINDEX''),
     (23 + 1 * 256, ''SQLITE_AUTH_USER''), (0 + 1 * 256, ''SQLITE_OK_LOAD_PERMANENTLY''),
     (0 + 2 * 256, ''SQLITE_OK_SYMLINK'')]"

text \<open>\<open>emplace\<close> keeps an entry that is already there.\<close>

definition SetCode :: "int \<Rightarrow> string \<Rightarrow> (int \<times> string) list \<Rightarrow> (int \<times> string) list" where
  "SetCode code str codes = (if map_of codes code = None then codes @ [(code, str)] else codes)"

definition CS_codes :: "(int \<times> string) list" where
  "CS_codes = fold (\<lambda>(code, str). SetCode code str) SetCode_calls []"

fun digits :: "nat \<Rightarrow> string" where
  "digits n = (if n < 10 then [char_of (48 + n)] else digits (n div 10) @ [char_of (48 + n mod 10)])"

definition to_string :: "int \<Rightarrow> string" where
  "to_string i = (if i < 0 then CHR ''-'' # digits (nat (- i)) else digits (nat i))"

definition Code :: "int \<Rightarrow> string" where
  "Code code = (case map_of CS_codes code of Some str \<Rightarrow> str | None \<Rightarrow> ''UNKNOWN_SQLITE_ERROR_'' @ to_string code)"

text \<open>The arguments of the error object: the message and the name of the code.\<close>

definition ThrowSqliteError :: "v8_api \<Rightarrow> bytes \<Rightarrow> rc \<Rightarrow> js_value list" where
  "ThrowSqliteError v8 message code =
     [JsString (string_from_utf8 v8 message), JsString (string_from_utf8 v8 (lit (Code (rc_number code))))]"

section \<open>Properties of the table\<close>

text \<open>The codes of sqlite3.h that have no name in the table.\<close>

definition unnamed_codes :: "string list" where
  "unnamed_codes = [''SQLITE_ERROR_RESERVESIZE'', ''SQLITE_ERROR_KEY'', ''SQLITE_ERROR_UNABLE'', ''SQLITE_IOERR_BADKEY'',
     ''SQLITE_IOERR_CODEC'', ''SQLITE_BUSY_TIMEOUT'']"

lemma codes_distinct: "distinct (map fst SetCode_calls)"
  by (simp add: SetCode_calls_def)

lemma names_distinct: "distinct (map snd SetCode_calls)"
  by (simp add: SetCode_calls_def)

lemma calls_header: "SetCode_calls = map prod.swap (filter (\<lambda>(name, code). name \<notin> set unnamed_codes) result_codes)"
  by (simp add: SetCode_calls_def result_codes_def primary_codes_def extended_codes_def unnamed_codes_def)

lemma SetCode_fold:
  "distinct (map fst (acc @ xs)) \<Longrightarrow> fold (\<lambda>(code, str). SetCode code str) xs acc = acc @ xs"
proof (induction xs arbitrary: acc)
  case (Cons x xs)
  obtain c n where x: "x = (c, n)" by (cases x)
  have "map_of acc c = None" using Cons.prems by (auto simp: x map_of_eq_None_iff)
  then show ?case using Cons.IH [of "acc @ [x]"] Cons.prems by (simp add: x SetCode_def)
qed simp

lemma CS_codes_calls: "CS_codes = SetCode_calls"
  using SetCode_fold [of "[]" SetCode_calls] codes_distinct by (simp add: CS_codes_def)

fun digits_value :: "nat \<Rightarrow> string \<Rightarrow> nat" where
  "digits_value acc [] = acc"
| "digits_value acc (c # cs) = digits_value (acc * 10 + (of_char c - 48)) cs"

lemma digits_value_append: "digits_value acc (s @ [c]) = digits_value acc s * 10 + (of_char c - 48)"
  by (induction acc s rule: digits_value.induct) auto

lemma digits_value_digits: "digits_value 0 (digits n) = n"
proof (induction n rule: digits.induct)
  case (1 n)
  then show ?case by (subst digits.simps) (auto simp: digits_value_append simp del: digits.simps)
qed

lemma digits_first: "hd (digits n) \<noteq> CHR ''-'' \<and> digits n \<noteq> []"
proof (induction n rule: digits.induct)
  case (1 n)
  have "char_of (48 + k) \<noteq> CHR ''-''" if "k < 10" for k :: nat
  proof
    assume "char_of (48 + k) = CHR ''-''"
    then have "(of_char (char_of (48 + k) :: char) :: nat) = 45" by simp
    then show False using that by simp
  qed
  with 1 show ?case by (subst (1 2) digits.simps) (simp del: digits.simps)
qed

lemma to_string_inj: "to_string i = to_string j \<Longrightarrow> i = j"
proof -
  assume eq: "to_string i = to_string j"
  have "hd (to_string k) = CHR ''-'' \<longleftrightarrow> k < 0" for k using digits_first by (simp add: to_string_def del: digits.simps)
  then have sign: "(i < 0) = (j < 0)" using eq by metis
  then have "digits (nat \<bar>i\<bar>) = digits (nat \<bar>j\<bar>)" using eq by (auto simp: to_string_def simp del: digits.simps split: if_splits)
  then have "nat \<bar>i\<bar> = nat \<bar>j\<bar>" using digits_value_digits by metis
  then show "i = j" using sign by auto
qed

lemma named_start: "list_all (\<lambda>(code, name). hd name = CHR ''S'') SetCode_calls"
  by (simp add: SetCode_calls_def)

section \<open>Properties\<close>

text \<open>C40: The code of an error object tells the error: different codes of SQLite have different strings.  A code in
  the table has the name of its macro, and the table has all codes of sqlite3.h but six, which get a
  string made of their number.\<close>

theorem error_codes:
  "(Code c = Code c' \<longleftrightarrow> c = c') \<and> (\<forall>(code, name)\<in>set SetCode_calls. Code code = name) \<and>
   SetCode_calls = map prod.swap (filter (\<lambda>(name, code). name \<notin> set unnamed_codes) result_codes)"
proof -
  have named: "Code code = name" if "(code, name) \<in> set SetCode_calls" for code name
    using that codes_distinct by (simp add: Code_def CS_codes_calls)
  have S: "hd name = CHR ''S''" if "(code, name) \<in> set SetCode_calls" for code name
    using that named_start by (auto simp: list_all_iff)
  have known: "map_of CS_codes code = Some name \<Longrightarrow> (code, name) \<in> set SetCode_calls" for code name
    by (simp add: CS_codes_calls map_of_SomeD)
  have unknown: "map_of CS_codes code = None \<Longrightarrow> Code code = ''UNKNOWN_SQLITE_ERROR_'' @ to_string code" for code
    by (simp add: Code_def)
  have start: "hd (Code code) = (if map_of CS_codes code = None then CHR ''U'' else CHR ''S'')" for code
    using unknown [of code] S [OF known] named [OF known] by (cases "map_of CS_codes code") auto
  have "c = c'" if eq: "Code c = Code c'"
  proof (cases "map_of CS_codes c")
    case None
    then have "map_of CS_codes c' = None" using start [of c] start [of c'] eq by (auto split: if_splits)
    then have "to_string c = to_string c'" using unknown None eq by simp
    then show ?thesis by (rule to_string_inj)
  next
    case (Some n)
    then obtain n' where n': "map_of CS_codes c' = Some n'" using start [of c] start [of c'] eq by (auto split: if_splits)
    then have "n = n'" using named [OF known] Some eq by metis
    moreover have "inj_on snd (set SetCode_calls)" using names_distinct by (simp add: distinct_map)
    ultimately show ?thesis using known [OF Some] known [OF n'] inj_onD [of snd "set SetCode_calls" "(c, n)" "(c', n')"] by simp
  qed
  then show ?thesis using named calls_header by blast
qed

theorem error_codes_witness: "Code (19 + 8 * 256) = ''SQLITE_CONSTRAINT_UNIQUE'' \<and> Code 5 \<noteq> Code (5 + 3 * 256)"
proof -
  have "(19 + 8 * 256, ''SQLITE_CONSTRAINT_UNIQUE'') \<in> set SetCode_calls" by (simp add: SetCode_calls_def)
  then show ?thesis using error_codes [of 5 "5 + 3 * 256"] by auto
qed

end
