(* ===== verification/Opening.thy ===== *)
theory Opening
  imports ConnectionProps
begin

unbundle bit_operations_syntax

text \<open>
  Opening a connection: \<open>Database::JS_new\<close> and \<open>Database::Deserialize\<close> of objects/database.cpp.  The functions of
  SQLite it calls are a parameter.
\<close>

section \<open>The functions of SQLite\<close>

datatype limit = SQLITE_LIMIT_LENGTH | SQLITE_LIMIT_SQL_LENGTH

datatype db_option = SQLITE_DBCONFIG_ENABLE_LOAD_EXTENSION

text \<open>
  The handle is returned even if opening fails;
  it then has the error and must be closed.  Closing gives a status and what is left of the handle.
\<close>

record 'q open_api =
  o_open :: "bytes \<Rightarrow> u32 \<Rightarrow> rc \<times> 'q"
  o_close :: "'q \<Rightarrow> rc \<times> 'q"
  o_extended_result_codes :: "'q \<Rightarrow> 'q"
  o_busy_timeout :: "int \<Rightarrow> 'q \<Rightarrow> 'q"
  o_limit :: "limit \<Rightarrow> int \<Rightarrow> 'q \<Rightarrow> 'q"
  o_config :: "db_option \<Rightarrow> 'q \<Rightarrow> 'q"
  o_malloc64 :: "nat \<Rightarrow> bool"
  o_deserialize :: "'q \<Rightarrow> bytes \<Rightarrow> u32 \<Rightarrow> rc \<times> 'q"

abbreviation SQLITE_OPEN_READONLY :: u32 where "SQLITE_OPEN_READONLY \<equiv> 1"
abbreviation SQLITE_OPEN_READWRITE :: u32 where "SQLITE_OPEN_READWRITE \<equiv> 2"
abbreviation SQLITE_OPEN_CREATE :: u32 where "SQLITE_OPEN_CREATE \<equiv> 4"
abbreviation SQLITE_DESERIALIZE_FREEONCLOSE :: u32 where "SQLITE_DESERIALIZE_FREEONCLOSE \<equiv> 1"
abbreviation SQLITE_DESERIALIZE_RESIZEABLE :: u32 where "SQLITE_DESERIALIZE_RESIZEABLE \<equiv> 2"
abbreviation SQLITE_DESERIALIZE_READONLY :: u32 where "SQLITE_DESERIALIZE_READONLY \<equiv> 4"

text \<open>The limits of V8 and Node, cut to an \<open>int\<close>.\<close>

definition MAX_BUFFER_SIZE :: "nat \<Rightarrow> int" where
  "MAX_BUFFER_SIZE buffer_kMaxLength = (if int buffer_kMaxLength > 2 ^ 31 - 1 then 2 ^ 31 - 1 else int buffer_kMaxLength)"

definition MAX_STRING_SIZE :: "nat \<Rightarrow> int" where
  "MAX_STRING_SIZE string_kMaxLength = (if int string_kMaxLength > 2 ^ 31 - 1 then 2 ^ 31 - 1 else int string_kMaxLength)"

section \<open>Opening\<close>

definition Deserialize :: "('q, 'e) env \<Rightarrow> 'q open_api \<Rightarrow> bytes \<Rightarrow> 'q \<Rightarrow> bool \<Rightarrow> js_error option \<times> 'q" where
  "Deserialize env sq buffer q readonly =
     (let flags = (SQLITE_DESERIALIZE_FREEONCLOSE OR SQLITE_DESERIALIZE_RESIZEABLE) OR (if readonly then SQLITE_DESERIALIZE_READONLY else 0)
      in if buffer \<noteq> [] \<and> \<not> o_malloc64 sq (length buffer) then (Some (PlainError (lit ''Out of memory'')), q)
         else case o_deserialize sq q buffer flags of
                (status, q) \<Rightarrow>
                  (if status \<noteq> SQLITE_OK
                   then Some (SqliteError (if status = SQLITE_ERROR then lit ''unable to deserialize database'' else e_errstr env status) status)
                   else None, q))"

definition new_checks :: "js_value list \<Rightarrow> js_error option list" where
  "new_checks info =
     [require_argument info 0 IsString ''Expected first argument to be a string'',
      require_argument info 1 IsString ''Expected second argument to be a string'',
      require_argument info 2 IsBoolean ''Expected third argument to be a boolean'',
      require_argument info 3 IsBoolean ''Expected fourth argument to be a boolean'',
      require_argument info 4 IsBoolean ''Expected fifth argument to be a boolean'',
      require_argument info 5 IsInt32 ''Expected sixth argument to be a 32-bit signed integer'',
      require_argument info 6 (\<lambda>_. True) ''Expected a seventh argument'',
      require_argument info 7 (\<lambda>_. True) ''Expected a eighth argument'']"

definition open_mask :: "bool \<Rightarrow> bool \<Rightarrow> u32" where
  "open_mask readonly must_exist =
     (if readonly then SQLITE_OPEN_READONLY
      else if must_exist then SQLITE_OPEN_READWRITE
      else SQLITE_OPEN_READWRITE OR SQLITE_OPEN_CREATE)"

text \<open>The calls that configure a new connection.\<close>

definition configure :: "('q, 'e) env \<Rightarrow> 'q open_api \<Rightarrow> nat \<Rightarrow> nat \<Rightarrow> int \<Rightarrow> 'q \<Rightarrow> 'q" where
  "configure env sq buffer_kMaxLength string_kMaxLength timeout q =
     (let q = o_extended_result_codes sq q;
          q = o_busy_timeout sq timeout q;
          q = o_limit sq SQLITE_LIMIT_LENGTH
                (if MAX_BUFFER_SIZE buffer_kMaxLength < MAX_STRING_SIZE string_kMaxLength then MAX_BUFFER_SIZE buffer_kMaxLength
                 else MAX_STRING_SIZE string_kMaxLength) q;
          q = o_limit sq SQLITE_LIMIT_SQL_LENGTH (MAX_STRING_SIZE string_kMaxLength) q;
          q = o_config sq SQLITE_DBCONFIG_ENABLE_LOAD_EXTENSION q
      in e_defensive env q True)"

text \<open>
  A new database object with its frozen properties, or the error that is thrown, with what is left of the handle if
  one was opened: it is closed on both paths (the status of closing is only asserted).
\<close>

record ('q, 'e) opened =
  op_database :: "('q, 'e) database"
  op_memory :: bool
  op_readonly :: bool
  op_name :: js_string

definition Database_JS_new ::
  "('q, 'e) env \<Rightarrow> 'q open_api \<Rightarrow> nat \<Rightarrow> nat \<Rightarrow> js_value list \<Rightarrow> (js_error \<times> 'q option) + ('q, 'e) opened" where
  "Database_JS_new env sq buffer_kMaxLength string_kMaxLength info =
     (case first_error (new_checks info) of
        Some e \<Rightarrow> Inl (e, None)
      | None \<Rightarrow>
          let filename = string_arg (info ! 0); filenameGiven = string_arg (info ! 1); in_memory = bool_arg (info ! 2);
              readonly = bool_arg (info ! 3); must_exist = bool_arg (info ! 4); timeout = int32_arg (info ! 5);
              logger = info ! 6; buffer = info ! 7;
              (rc, q) = o_open sq (utf8_value (e_v8 env) filename) (open_mask readonly must_exist)
          in if rc \<noteq> SQLITE_OK then Inl (SqliteError (e_errmsg env q) (e_extended_errcode env q), Some (snd (o_close sq q)))
             else let q = configure env sq buffer_kMaxLength string_kMaxLength timeout q;
                      (err, q) = (case buffer of JsBuffer b \<Rightarrow> Deserialize env sq b q readonly | _ \<Rightarrow> (None, q))
                  in case err of
                       Some e \<Rightarrow> Inl (e, Some (snd (o_close sq q)))
                     | None \<Rightarrow> Inr \<lparr>op_database = Database_new env q logger, op_memory = in_memory, op_readonly = readonly,
                                  op_name = filenameGiven\<rparr>)"

section \<open>What SQLite documents of its handles\<close>

text \<open>
  A handle is open after \<open>sqlite3_open_v2\<close>, whatever its result, and writable only if it was opened with
  \<open>SQLITE_OPEN_READWRITE\<close>; configuring it changes neither; a database deserialized with
  \<open>SQLITE_DESERIALIZE_READONLY\<close> is not writable; and \<open>sqlite3_close\<close> closes a handle without statements.
\<close>

definition keeps_handle :: "('q \<Rightarrow> bool) \<Rightarrow> ('q \<Rightarrow> bool) \<Rightarrow> ('q \<Rightarrow> 'q) \<Rightarrow> bool" where
  "keeps_handle is_open writable f \<longleftrightarrow> (\<forall>q. is_open (f q) = is_open q \<and> writable (f q) = writable q)"

definition handles_documented :: "('q, 'e) env \<Rightarrow> 'q open_api \<Rightarrow> ('q \<Rightarrow> bool) \<Rightarrow> ('q \<Rightarrow> bool) \<Rightarrow> bool" where
  "handles_documented env sq is_open writable \<longleftrightarrow>
     (\<forall>name mask. case o_open sq name mask of (rc, q) \<Rightarrow> is_open q \<and> (writable q \<longrightarrow> mask AND SQLITE_OPEN_READWRITE \<noteq> 0)) \<and>
     keeps_handle is_open writable (o_extended_result_codes sq) \<and> (\<forall>t. keeps_handle is_open writable (o_busy_timeout sq t)) \<and>
     (\<forall>l v. keeps_handle is_open writable (o_limit sq l v)) \<and> (\<forall>c. keeps_handle is_open writable (o_config sq c)) \<and>
     keeps_handle is_open writable (\<lambda>q. e_defensive env q True) \<and>
     (\<forall>q b flags. case o_deserialize sq q b flags of
        (rc, q') \<Rightarrow> is_open q' = is_open q \<and> (rc = SQLITE_OK \<longrightarrow> writable q' \<longrightarrow> flags AND SQLITE_DESERIALIZE_READONLY = 0)) \<and>
     (\<forall>q. is_open q \<longrightarrow> \<not> is_open (snd (o_close sq q)))"

lemma open_handle:
  assumes "handles_documented env sq is_open writable" "o_open sq name m = (rc, q)"
  shows "is_open q" "writable q \<Longrightarrow> m AND SQLITE_OPEN_READWRITE \<noteq> 0"
  using conjunct1 [OF assms(1) [unfolded handles_documented_def], THEN spec [of _ name], THEN spec [of _ m]] assms(2) by auto

lemma configure_handle:
  assumes "handles_documented env sq is_open writable"
  shows "keeps_handle is_open writable (configure env sq kb ks timeout)"
  using assms unfolding handles_documented_def keeps_handle_def configure_def Let_def by auto

lemma Deserialize_handle:
  assumes "handles_documented env sq is_open writable" "Deserialize env sq b q readonly = (err, q')"
  shows "is_open q' = is_open q" "err = None \<Longrightarrow> readonly \<Longrightarrow> \<not> writable q'"
proof -
  have d: "is_open (snd (o_deserialize sq q b f)) = is_open q"
    "fst (o_deserialize sq q b f) = SQLITE_OK \<Longrightarrow> writable (snd (o_deserialize sq q b f)) \<Longrightarrow> f AND SQLITE_DESERIALIZE_READONLY = 0" for f
    using assms(1) unfolding handles_documented_def by (auto simp: case_prod_beta)
  show "is_open q' = is_open q" using assms(2) d(1)
    by (auto simp: Deserialize_def Let_def case_prod_beta split: if_splits)
  show "\<not> writable q'" if "err = None" readonly using assms(2) d(2) [of 7] that
    by (auto simp: Deserialize_def Let_def case_prod_beta split: if_splits)
qed

section \<open>Properties\<close>

text \<open>C36: Opening leaks no handle and honours \<open>readonly\<close>.  If \<open>new Database\<close> throws, then because of an argument, before SQLite is
  called, or the handle it had opened is closed.  Otherwise the object owns an open handle, its invariant holds, and if
  \<open>readonly\<close> was asked for, the database cannot be written, even if it was deserialized from a buffer.\<close>

theorem open_safe:
  assumes "handles_documented env sq is_open writable"
  shows "case Database_JS_new env sq kb ks info of
      Inl (e, handle) \<Rightarrow> (case handle of None \<Rightarrow> first_error (new_checks info) = Some e | Some q \<Rightarrow> \<not> is_open q)
    | Inr r \<Rightarrow> is_open (d_handle (op_database r)) \<and> conn_inv env (op_database r) \<and>
        (bool_arg (info ! 3) \<longrightarrow> op_readonly r \<and> \<not> writable (d_handle (op_database r)))"
proof (cases "first_error (new_checks info)")
  case None
  let ?readonly = "bool_arg (info ! 3)" and ?cfg = "configure env sq kb ks (int32_arg (info ! 5))"
  obtain rc q where o: "o_open sq (utf8_value (e_v8 env) (string_arg (info ! 0))) (open_mask ?readonly (bool_arg (info ! 4))) = (rc, q)" by fastforce
  have close: "is_open x \<Longrightarrow> \<not> is_open (snd (o_close sq x))" for x using assms unfolding handles_documented_def by blast
  have q: "is_open q" "?readonly \<Longrightarrow> \<not> writable q"
    using open_handle [OF assms o] by (auto simp: open_mask_def)
  obtain err q' where d: "(case info ! 7 of JsBuffer b \<Rightarrow> Deserialize env sq b (?cfg q) ?readonly | _ \<Rightarrow> (None, ?cfg q)) = (err, q')" by fastforce
  have "is_open q' \<and> (err = None \<longrightarrow> ?readonly \<longrightarrow> \<not> writable q')"
    using d q configure_handle [OF assms, of kb ks "int32_arg (info ! 5)"] Deserialize_handle [OF assms]
    by (cases "info ! 7") (auto simp: keeps_handle_def)
  moreover have "conn_inv env (Database_new env q' (info ! 6))" by (rule Database_new_inv)
  moreover have "Database_JS_new env sq kb ks info =
      (if rc \<noteq> SQLITE_OK then Inl (SqliteError (e_errmsg env q) (e_extended_errcode env q), Some (snd (o_close sq q)))
       else case err of
              Some e \<Rightarrow> Inl (e, Some (snd (o_close sq q')))
            | None \<Rightarrow> Inr \<lparr>op_database = Database_new env q' (info ! 6), op_memory = bool_arg (info ! 2), op_readonly = ?readonly,
                         op_name = string_arg (info ! 1)\<rparr>)"
    unfolding Database_JS_new_def Let_def None option.case o prod.case d ..
  ultimately show ?thesis using close [OF q(1)] close [of q'] by (cases err) (simp_all add: Database_new_def)
qed (simp add: Database_JS_new_def)

text \<open>Handles that are closed (0), open (1), or open and writable (2).\<close>

definition example_open :: "nat open_api" where
  "example_open = \<lparr>o_open = (\<lambda>_ mask. (SQLITE_OK, if mask AND SQLITE_OPEN_READWRITE \<noteq> 0 then 2 else 1)), o_close = (\<lambda>_. (SQLITE_OK, 0)),
     o_extended_result_codes = id, o_busy_timeout = (\<lambda>_ q. q), o_limit = (\<lambda>_ _ q. q), o_config = (\<lambda>_ q. q), o_malloc64 = (\<lambda>_. True),
     o_deserialize = (\<lambda>q _ flags. (SQLITE_OK, if q = 0 then 0 else if flags AND SQLITE_DESERIALIZE_READONLY = 0 then 2 else 1))\<rparr>"

definition example_open_info :: "js_value list" where
  "example_open_info = [JsString [], JsString [], JsBoolean True, JsBoolean True, JsBoolean False, JsNumber 0, JsUndefined, JsBuffer [0x53]]"

lemma example_defensive: "e_defensive example_env q b = q"
  by (simp add: example_env_def)

theorem open_safe_witness:
  "\<exists>r. Database_JS_new example_env example_open 100 100 example_open_info = Inr r \<and> op_readonly r \<and>
    d_handle (op_database r) \<noteq> 0 \<and> d_handle (op_database r) \<noteq> 2"
proof -
  have "handles_documented example_env example_open (\<lambda>q. q \<noteq> 0) (\<lambda>q. q = 2)"
    unfolding handles_documented_def by (intro conjI allI) (auto simp: keeps_handle_def example_open_def example_defensive)
  note s = open_safe [OF this, where kb = 100 and ks = 100 and info = example_open_info]
  have b: "bool_arg (example_open_info ! 3)" by (simp add: example_open_info_def)
  have "\<exists>r. Database_JS_new example_env example_open 100 100 example_open_info = Inr r"
    by (simp add: Database_JS_new_def new_checks_def require_argument_def require_def IsString_def IsBoolean_def IsInt32_def int32_value_def int64_of_double_def
        double_exponent_def double_fraction_def double_of_int_def example_open_info_def example_open_def configure_def example_env_def Let_def Deserialize_def)
  then obtain r where r: "Database_JS_new example_env example_open 100 100 example_open_info = Inr r" ..
  then show ?thesis using s b by (intro exI [of _ r]) simp
qed

end
