(* ===== verification/Dataflow.thy ===== *)
theory Dataflow
  imports Prelude "HOL-Library.Multiset" "HOL-Library.Monad_Syntax"
begin

text \<open>
  The dataflow engine of noria-sqlite (src/dataflow: mod.rs, state.rs and ops.rs): records that are added or
  removed, the states of views, and the operators that look at one record at a time.

  \<open>None\<close> is a panic: a column beyond the end of a row.
\<close>

section \<open>Values and records\<close>

text \<open>
  The values the engine gets through the C interface (noria/src/data.rs): integers, reals as integral part and
  billionths, and texts.  A text of up to 15 bytes is an array filled up with zeros, a longer one a
  counted C string of the crate arccstr.  A text read back from an array ends at its first zero, unless
  the array is full.  The arrays have 15 bytes and the C strings more, so equality of Rust is equality.
\<close>

datatype data_type = DNone | DBigInt int | DReal int int | DText bytes | DTinyText bytes

definition TINYTEXT_WIDTH :: nat where
  "TINYTEXT_WIDTH = 15"

text \<open>\<open>DataType::try_from\<close> for bytes; \<open>arc\<close> is \<open>ArcCStr::try_from\<close> with the text of its result.\<close>

definition try_from_bytes :: "(bytes \<Rightarrow> bytes option) \<Rightarrow> bytes \<Rightarrow> data_type option" where
  "try_from_bytes arc b =
     (if length b \<le> TINYTEXT_WIDTH then Some (DTinyText (b @ replicate (TINYTEXT_WIDTH - length b) 0))
      else map_option DText (arc b))"

text \<open>The text of a value (\<open>&str\<close> of a \<open>DataType\<close>); it is applied to texts only.\<close>

definition text_str :: "data_type \<Rightarrow> bytes" where
  "text_str d =
     (case d of
        DText s \<Rightarrow> s
      | DTinyText bts \<Rightarrow> if bts ! (TINYTEXT_WIDTH - 1) = 0 then takeWhile (\<lambda>b. b \<noteq> 0) bts else bts
      | _ \<Rightarrow> [])"

lemma text_str_from:
  assumes "0 \<notin> set b" "try_from_bytes arc b = Some d" "TINYTEXT_WIDTH < length b \<longrightarrow> arc b = Some b"
  shows "text_str d = b"
proof (cases "length b \<le> TINYTEXT_WIDTH")
  case True
  then have d: "d = DTinyText (b @ replicate (TINYTEXT_WIDTH - length b) 0)" using assms(2) by (simp add: try_from_bytes_def)
  have "\<forall>x\<in>set b. x \<noteq> 0" using assms(1) by metis
  then have t: "takeWhile (\<lambda>x. x \<noteq> 0) (b @ replicate n 0) = b" for n by (cases n) (simp_all add: takeWhile_append2)
  show ?thesis
  proof (cases "length b = TINYTEXT_WIDTH")
    case True
    then have "b ! (TINYTEXT_WIDTH - 1) \<in> set b" by (simp add: TINYTEXT_WIDTH_def)
    then show ?thesis using d True assms(1) by (auto simp: text_str_def)
  next
    case False
    with True have "(b @ replicate (TINYTEXT_WIDTH - length b) 0) ! (TINYTEXT_WIDTH - 1) = 0" by (simp add: nth_append TINYTEXT_WIDTH_def)
    then show ?thesis using d t by (simp add: text_str_def)
  qed
next
  case False
  then show ?thesis using assms(2,3) by (auto simp: try_from_bytes_def text_str_def)
qed

type_synonym row = "data_type list"

datatype dataflow_record = Positive row | Negative row

fun record_row :: "dataflow_record \<Rightarrow> row" where
  "record_row (Positive v) = v"
| "record_row (Negative v) = v"

fun is_positive :: "dataflow_record \<Rightarrow> bool" where
  "is_positive (Positive _) = True"
| "is_positive (Negative _) = False"

fun with_row :: "dataflow_record \<Rightarrow> row \<Rightarrow> dataflow_record" where
  "with_row (Positive _) v = Positive v"
| "with_row (Negative _) v = Negative v"

text \<open>Indexing, and the values of several columns.\<close>

definition column :: "row \<Rightarrow> nat \<Rightarrow> data_type option" where
  "column row c = (if c < length row then Some (row ! c) else None)"

fun columns_of :: "row \<Rightarrow> nat list \<Rightarrow> row option" where
  "columns_of row [] = Some []"
| "columns_of row (c # cs) = do { v \<leftarrow> column row c; vs \<leftarrow> columns_of row cs; Some (v # vs) }"

section \<open>States\<close>

datatype state_key = Single data_type | Multi row

definition from_row :: "row \<Rightarrow> nat list \<Rightarrow> state_key option" where
  "from_row row key_columns =
     (case key_columns of
        [c] \<Rightarrow> map_option Single (column row c)
      | _ \<Rightarrow> map_option Multi (columns_of row key_columns))"

definition from_slice :: "row \<Rightarrow> state_key" where
  "from_slice key = (case key of [v] \<Rightarrow> Single v | _ \<Rightarrow> Multi key)"

datatype lookup_answer = Rows "row list" | NoRows | Missing

record memory_state =
  ms_key_columns :: "nat list"
  ms_data :: "state_key \<Rightarrow> row list option"
  ms_row_count :: nat

definition MemoryState_new :: "nat list \<Rightarrow> memory_state" where
  "MemoryState_new key_columns = \<lparr>ms_key_columns = key_columns, ms_data = (\<lambda>_. None), ms_row_count = 0\<rparr>"

text \<open>\<open>position\<close> and \<open>remove\<close> of Rust's iterators and vectors.\<close>

fun position :: "('a \<Rightarrow> bool) \<Rightarrow> 'a list \<Rightarrow> nat option" where
  "position p [] = None"
| "position p (x # xs) = (if p x then Some 0 else map_option Suc (position p xs))"

definition remove_nth :: "nat \<Rightarrow> 'a list \<Rightarrow> 'a list" where
  "remove_nth i xs = take i xs @ drop (Suc i) xs"

definition wildcard_match :: "row \<Rightarrow> row \<Rightarrow> bool" where
  "wildcard_match row r \<longleftrightarrow> length r = length row \<and> list_all (\<lambda>(stored, new). stored = new \<or> new = DNone) (zip r row)"

definition process_record :: "dataflow_record \<Rightarrow> memory_state \<Rightarrow> memory_state option" where
  "process_record rec s = do {
     key \<leftarrow> from_row (record_row rec) (ms_key_columns s);
     let row = record_row rec;
     Some (if is_positive rec then
             s\<lparr>ms_data := (ms_data s)(key \<mapsto> (case ms_data s key of Some rows \<Rightarrow> rows | None \<Rightarrow> []) @ [row]),
               ms_row_count := ms_row_count s + 1\<rparr>
           else
             case ms_data s key of
               None \<Rightarrow> s
             | Some rows \<Rightarrow>
                 let pos = (case position (\<lambda>r. r = row) rows of Some p \<Rightarrow> Some p | None \<Rightarrow> position (wildcard_match row) rows);
                     rows' = (case pos of Some p \<Rightarrow> remove_nth p rows | None \<Rightarrow> rows);
                     count = (case pos of Some _ \<Rightarrow> ms_row_count s - 1 | None \<Rightarrow> ms_row_count s)
                 in s\<lparr>ms_data := (ms_data s)(key := if rows' = [] then None else Some rows'), ms_row_count := count\<rparr>)
   }"

fun process_records :: "dataflow_record list \<Rightarrow> memory_state \<Rightarrow> memory_state option" where
  "process_records [] s = Some s"
| "process_records (rec # recs) s = do { s \<leftarrow> process_record rec s; process_records recs s }"

definition state_lookup :: "memory_state \<Rightarrow> row \<Rightarrow> lookup_answer" where
  "state_lookup s key =
     (case ms_data s (from_slice key) of
        Some rows \<Rightarrow> if rows = [] then NoRows else Rows rows
      | None \<Rightarrow> Missing)"

section \<open>Operators\<close>

text \<open>The order of values: integers, reals and texts among themselves; a value is greater than one of another type.\<close>

fun less_bytes :: "bytes \<Rightarrow> bytes \<Rightarrow> bool" where
  "less_bytes [] ys = (ys \<noteq> [])"
| "less_bytes (x # xs) [] = False"
| "less_bytes (x # xs) (y # ys) = (x < y \<or> x = y \<and> less_bytes xs ys)"

fun less_data :: "data_type \<Rightarrow> data_type \<Rightarrow> bool" where
  "less_data (DBigInt a) (DBigInt b) = (a < b)"
| "less_data (DReal ai af) (DReal bi bf) = (ai < bi \<or> ai = bi \<and> af < bf)"
| "less_data (DText a) (DText b) = less_bytes a b"
| "less_data (DTinyText a) (DTinyText b) = less_bytes a b"
| "less_data (DText a) (DTinyText b) = less_bytes a (text_str (DTinyText b))"
| "less_data (DTinyText a) (DText b) = less_bytes (text_str (DTinyText a)) b"
| "less_data _ _ = False"

fun same_type :: "data_type \<Rightarrow> data_type \<Rightarrow> bool" where
  "same_type DNone DNone = True"
| "same_type (DBigInt _) (DBigInt _) = True"
| "same_type (DReal _ _) (DReal _ _) = True"
| "same_type (DText _) (DText _) = True"
| "same_type (DTinyText _) (DTinyText _) = True"
| "same_type (DText _) (DTinyText _) = True"
| "same_type (DTinyText _) (DText _) = True"
| "same_type _ _ = False"

definition greater_data :: "data_type \<Rightarrow> data_type \<Rightarrow> bool" where
  "greater_data a b \<longleftrightarrow> (if same_type a b then less_data b a else True)"

datatype filter_condition =
    FEq nat data_type
  | FNe nat data_type
  | FGt nat data_type
  | FLt nat data_type
  | FIsNull nat
  | FIsNotNull nat
  | FAnd "filter_condition list"
  | FOr "filter_condition list"
  | FAlwaysTrue

fun evaluate :: "filter_condition \<Rightarrow> row \<Rightarrow> bool option"
  and evaluate_all :: "filter_condition list \<Rightarrow> row \<Rightarrow> bool option"
  and evaluate_any :: "filter_condition list \<Rightarrow> row \<Rightarrow> bool option" where
  "evaluate (FEq c v) row = map_option (\<lambda>x. x = v) (column row c)"
| "evaluate (FNe c v) row = map_option (\<lambda>x. x \<noteq> v) (column row c)"
| "evaluate (FGt c v) row = map_option (\<lambda>x. greater_data x v) (column row c)"
| "evaluate (FLt c v) row = map_option (\<lambda>x. less_data x v) (column row c)"
| "evaluate (FIsNull c) row = map_option (\<lambda>x. x = DNone) (column row c)"
| "evaluate (FIsNotNull c) row = map_option (\<lambda>x. x \<noteq> DNone) (column row c)"
| "evaluate (FAnd conds) row = evaluate_all conds row"
| "evaluate (FOr conds) row = evaluate_any conds row"
| "evaluate FAlwaysTrue row = Some True"
| "evaluate_all [] row = Some True"
| "evaluate_all (c # cs) row = do { b \<leftarrow> evaluate c row; if b then evaluate_all cs row else Some False }"
| "evaluate_any [] row = Some False"
| "evaluate_any (c # cs) row = do { b \<leftarrow> evaluate c row; if b then Some True else evaluate_any cs row }"

datatype join_type = InnerJoin | LeftJoin | RightJoin

record join_op =
  jo_type :: join_type
  left_key :: nat
  right_key :: nat
  jo_emit :: "(bool \<times> nat) list"

fun process_filter :: "filter_condition \<Rightarrow> dataflow_record list \<Rightarrow> dataflow_record list option" where
  "process_filter cond [] = Some []"
| "process_filter cond (rec # recs) = do {
     b \<leftarrow> evaluate cond (record_row rec);
     rest \<leftarrow> process_filter cond recs;
     Some (if b then rec # rest else rest)
   }"

fun process_project :: "nat list \<Rightarrow> dataflow_record list \<Rightarrow> dataflow_record list option" where
  "process_project emit [] = Some []"
| "process_project emit (rec # recs) = do {
     v \<leftarrow> columns_of (record_row rec) emit;
     rest \<leftarrow> process_project emit recs;
     Some (with_row rec v # rest)
   }"

fun combine :: "(bool \<times> nat) list \<Rightarrow> row \<Rightarrow> row \<Rightarrow> row option" where
  "combine [] left right = Some []"
| "combine ((is_left, c) # es) left right = do {
     v \<leftarrow> column (if is_left then left else right) c;
     vs \<leftarrow> combine es left right;
     Some (v # vs)
   }"

fun combine_all :: "join_op \<Rightarrow> nat \<Rightarrow> dataflow_record \<Rightarrow> row list \<Rightarrow> dataflow_record list option" where
  "combine_all j from_parent rec [] = Some []"
| "combine_all j from_parent rec (other # others) = do {
     v \<leftarrow> (if from_parent = 0 then combine (jo_emit j) (record_row rec) other else combine (jo_emit j) other (record_row rec));
     rest \<leftarrow> combine_all j from_parent rec others;
     Some (with_row rec v # rest)
   }"

fun left_only :: "(bool \<times> nat) list \<Rightarrow> row \<Rightarrow> row option" where
  "left_only [] row = Some []"
| "left_only ((is_left, c) # es) row = do {
     v \<leftarrow> (if is_left then column row c else Some DNone);
     vs \<leftarrow> left_only es row;
     Some (v # vs)
   }"

fun process_join :: "join_op \<Rightarrow> nat \<Rightarrow> memory_state \<Rightarrow> dataflow_record list \<Rightarrow> dataflow_record list option" where
  "process_join j from_parent s [] = Some []"
| "process_join j from_parent s (rec # recs) = do {
     k \<leftarrow> column (record_row rec) (if from_parent = 0 then left_key j else right_key j);
     out \<leftarrow> (case state_lookup s [k] of
               Rows others \<Rightarrow> combine_all j from_parent rec others
             | _ \<Rightarrow> if jo_type j = LeftJoin \<and> from_parent = 0
                   then map_option (\<lambda>v. [with_row rec v]) (left_only (jo_emit j) (record_row rec)) else Some []);
     rest \<leftarrow> process_join j from_parent s recs;
     Some (out @ rest)
   }"

section \<open>A state represents a multiset of rows\<close>

definition rows_of :: "memory_state \<Rightarrow> state_key \<Rightarrow> row list" where
  "rows_of s k = (case ms_data s k of Some rows \<Rightarrow> rows | None \<Rightarrow> [])"

definition with_key :: "nat list \<Rightarrow> state_key \<Rightarrow> row multiset \<Rightarrow> row multiset" where
  "with_key key_columns k M = filter_mset (\<lambda>r. from_row r key_columns = Some k) M"

definition represents :: "memory_state \<Rightarrow> row multiset \<Rightarrow> bool" where
  "represents s M \<longleftrightarrow> (\<forall>r\<in>#M. from_row r (ms_key_columns s) \<noteq> None) \<and> ms_row_count s = size M \<and>
     (\<forall>k. ms_data s k \<noteq> Some []) \<and> (\<forall>k. mset (rows_of s k) = with_key (ms_key_columns s) k M)"

fun apply_record :: "dataflow_record \<Rightarrow> row multiset \<Rightarrow> row multiset" where
  "apply_record (Positive r) M = add_mset r M"
| "apply_record (Negative r) M = M - {#r#}"

text \<open>Records that only remove rows that are there.\<close>

fun valid_records :: "dataflow_record list \<Rightarrow> row multiset \<Rightarrow> bool" where
  "valid_records [] M = True"
| "valid_records (rec # recs) M = ((is_positive rec \<or> record_row rec \<in># M) \<and> valid_records recs (apply_record rec M))"

lemma position_Some: "position p xs = Some i \<Longrightarrow> i < length xs \<and> p (xs ! i)"
  by (induction xs arbitrary: i) (auto split: if_splits)

lemma position_exists: "x \<in> set xs \<Longrightarrow> p x \<Longrightarrow> \<exists>i. position p xs = Some i"
  by (induction xs) auto

lemma mset_remove_nth: "i < length xs \<Longrightarrow> mset (remove_nth i xs) = mset xs - {#xs ! i#}"
proof -
  assume i: "i < length xs"
  have "mset xs = mset (take i xs @ xs ! i # drop (Suc i) xs)" using id_take_nth_drop [OF i] by simp
  then show ?thesis by (simp add: remove_nth_def)
qed

lemma rows_of_update: "rows_of (s\<lparr>ms_data := (ms_data s)(k := x), ms_row_count := n\<rparr>) k' =
    (if k' = k then (case x of Some rows \<Rightarrow> rows | None \<Rightarrow> []) else rows_of s k')"
  by (simp add: rows_of_def)

lemma represents_new: "represents (MemoryState_new key_columns) {#}"
  by (simp add: represents_def MemoryState_new_def rows_of_def with_key_def)

lemma process_positive:
  assumes "represents s M" "from_row r (ms_key_columns s) = Some k"
  shows "\<exists>s'. process_record (Positive r) s = Some s' \<and> represents s' (add_mset r M) \<and> ms_key_columns s' = ms_key_columns s"
proof -
  let ?s = "s\<lparr>ms_data := (ms_data s)(k \<mapsto> rows_of s k @ [r]), ms_row_count := ms_row_count s + 1\<rparr>"
  have "process_record (Positive r) s = Some ?s" using assms(2) by (simp add: process_record_def rows_of_def)
  moreover have "mset (rows_of ?s k') = with_key (ms_key_columns s) k' (add_mset r M)" for k'
    using assms by (simp add: rows_of_update represents_def with_key_def)
  ultimately show ?thesis using assms by (simp add: represents_def)
qed

lemma process_negative:
  assumes "represents s M" "r \<in># M"
  shows "\<exists>s'. process_record (Negative r) s = Some s' \<and> represents s' (M - {#r#}) \<and> ms_key_columns s' = ms_key_columns s"
proof -
  obtain k where k: "from_row r (ms_key_columns s) = Some k" using assms by (auto simp: represents_def)
  have rows: "mset (rows_of s k) = with_key (ms_key_columns s) k M" using assms(1) by (simp add: represents_def)
  then have "set_mset (mset (rows_of s k)) = set_mset (with_key (ms_key_columns s) k M)" by simp
  then have "r \<in> set (rows_of s k)" using assms(2) k by (auto simp: with_key_def)
  then obtain i where i: "position (\<lambda>x. x = r) (rows_of s k) = Some i" using position_exists [of r "rows_of s k" "\<lambda>x. x = r"] by auto
  have d: "ms_data s k = Some (rows_of s k)" using \<open>r \<in> set (rows_of s k)\<close> by (cases "ms_data s k") (simp_all add: rows_of_def)
  have il: "i < length (rows_of s k)" "rows_of s k ! i = r" using position_Some [OF i] by simp_all
  let ?rows = "remove_nth i (rows_of s k)"
  let ?s = "s\<lparr>ms_data := (ms_data s)(k := if ?rows = [] then None else Some ?rows), ms_row_count := ms_row_count s - 1\<rparr>"
  have p: "process_record (Negative r) s = Some ?s" using k d i by (simp add: process_record_def)
  have "mset (rows_of ?s k') = with_key (ms_key_columns s) k' (M - {#r#})" for k'
  proof (cases "k' = k")
    case True
    have "mset ?rows = with_key (ms_key_columns s) k (M - {#r#})"
      using mset_remove_nth [OF il(1)] il(2) rows k by (simp add: with_key_def)
    then show ?thesis using True by (cases "?rows = []") (simp_all add: rows_of_update)
  next
    case False
    then show ?thesis using assms(1) k by (simp add: rows_of_update with_key_def represents_def)
  qed
  moreover have "\<forall>x\<in>#M - {#r#}. from_row x (ms_key_columns s) \<noteq> None" using assms(1) by (auto simp: represents_def dest: in_diffD)
  ultimately have "represents ?s (M - {#r#})" using assms by (simp add: represents_def size_Diff_singleton)
  with p show ?thesis by auto
qed

definition apply_records :: "dataflow_record list \<Rightarrow> row multiset \<Rightarrow> row multiset" where
  "apply_records recs M = fold apply_record recs M"

lemma process_represents:
  assumes "represents s M" "valid_records recs M" "\<forall>rec\<in>set recs. from_row (record_row rec) (ms_key_columns s) \<noteq> None"
  shows "\<exists>s'. process_records recs s = Some s' \<and> represents s' (apply_records recs M) \<and> ms_key_columns s' = ms_key_columns s"
  using assms
proof (induction recs arbitrary: s M)
  case (Cons rec recs)
  have "\<exists>s'. process_record rec s = Some s' \<and> represents s' (apply_record rec M) \<and> ms_key_columns s' = ms_key_columns s"
  proof (cases rec)
    case (Positive r)
    then obtain k where "from_row r (ms_key_columns s) = Some k" using Cons.prems(3) by auto
    then show ?thesis using process_positive [OF Cons.prems(1)] Positive by simp
  next
    case (Negative r)
    then show ?thesis using process_negative [OF Cons.prems(1)] Cons.prems(2) by simp
  qed
  then obtain s' where "process_record rec s = Some s'" "represents s' (apply_record rec M)" "ms_key_columns s' = ms_key_columns s" by blast
  then show ?case using Cons.IH [of s' "apply_record rec M"] Cons.prems by (simp add: apply_records_def)
qed (simp add: apply_records_def)

lemma lookup_represents:
  assumes "represents s M"
  shows "case state_lookup s key of
      Rows rows \<Rightarrow> rows \<noteq> [] \<and> mset rows = with_key (ms_key_columns s) (from_slice key) M
    | NoRows \<Rightarrow> False
    | Missing \<Rightarrow> with_key (ms_key_columns s) (from_slice key) M = {#}"
proof -
  have m: "mset (rows_of s (from_slice key)) = with_key (ms_key_columns s) (from_slice key) M" "ms_data s (from_slice key) \<noteq> Some []"
    using assms by (simp_all add: represents_def)
  show ?thesis
  proof (cases "ms_data s (from_slice key)")
    case None
    then show ?thesis using m by (simp add: state_lookup_def rows_of_def)
  next
    case (Some rows)
    then show ?thesis using m by (simp add: state_lookup_def rows_of_def)
  qed
qed

section \<open>Operators that maintain a query\<close>

text \<open>
  A change of a table: records that only remove rows that are there and leave fewer than 2^63 rows, so that a
  64-bit count of them does not overflow.
\<close>

definition valid_change :: "dataflow_record list \<Rightarrow> row multiset \<Rightarrow> bool" where
  "valid_change recs M \<longleftrightarrow> valid_records recs M \<and> size (apply_records recs M) < 2 ^ 63"

lemma valid_changeD: "valid_change recs M \<Longrightarrow> valid_records recs M"
  by (simp add: valid_change_def)

text \<open>Batches of records, one after the other: the rows they leave in the base table.\<close>

fun valid_batches :: "dataflow_record list list \<Rightarrow> row multiset \<Rightarrow> bool" where
  "valid_batches [] M = True"
| "valid_batches (recs # batches) M = (valid_change recs M \<and> valid_batches batches (apply_records recs M))"

definition table_rows :: "dataflow_record list list \<Rightarrow> row multiset \<Rightarrow> row multiset" where
  "table_rows batches M = fold apply_records batches M"

text \<open>Batches through an operator with a state, applied to the rows of the view below it.\<close>

fun run_batches :: "('s \<Rightarrow> dataflow_record list \<Rightarrow> (dataflow_record list \<times> 's) option) \<Rightarrow> 's \<Rightarrow> dataflow_record list list \<Rightarrow>
    row multiset \<Rightarrow> ('s \<times> row multiset) option" where
  "run_batches step s [] V = Some (s, V)"
| "run_batches step s (recs # batches) V = do { (out, s) \<leftarrow> step s recs; run_batches step s batches (apply_records out V) }"

text \<open>
  The contract of an operator: from records that take the rows below it from \<open>M\<close> to \<open>M'\<close> it makes records that
  take its result over \<open>M\<close> to its result over \<open>M'\<close>, and never one that removes a row that is not there.
\<close>

locale incremental_operator =
  fixes step :: "'s \<Rightarrow> dataflow_record list \<Rightarrow> (dataflow_record list \<times> 's) option"
    and keeps :: "'s \<Rightarrow> row multiset \<Rightarrow> bool"
    and fits :: "dataflow_record \<Rightarrow> bool"
    and emits :: "dataflow_record \<Rightarrow> bool"
    and result :: "row multiset \<Rightarrow> row multiset"
  assumes step_maintains: "keeps s M \<Longrightarrow> valid_change recs M \<Longrightarrow> \<forall>rec\<in>set recs. fits rec \<Longrightarrow>
    \<exists>out s'. step s recs = Some (out, s') \<and> keeps s' (apply_records recs M) \<and> (\<forall>rec\<in>set out. emits rec) \<and>
      valid_change out (result M) \<and> apply_records out (result M) = result (apply_records recs M)"
begin

lemma run_maintains:
  assumes "keeps s M" "valid_batches batches M" "\<forall>recs\<in>set batches. \<forall>rec\<in>set recs. fits rec"
  shows "\<exists>s'. run_batches step s batches (result M) = Some (s', result (table_rows batches M)) \<and> keeps s' (table_rows batches M)"
  using assms
proof (induction batches arbitrary: s M)
  case (Cons recs batches)
  obtain out s1 where "step s recs = Some (out, s1)" "keeps s1 (apply_records recs M)" "apply_records out (result M) = result (apply_records recs M)"
    using step_maintains [of s M recs] Cons.prems by auto
  then show ?case using Cons.IH [of s1 "apply_records recs M"] Cons.prems by (simp add: table_rows_def)
qed (simp add: table_rows_def)

end

end
