(* ===== verification/Aggregates.thy ===== *)
theory Aggregates
  imports Dataflow
begin

text \<open>
  The aggregate operator of the engine (\<open>AggregateOp\<close>, src/dataflow/ops.rs): it keeps a count and a sum for each
  group and emits, for each group a batch touches, the old row of the group as removed and the new one as added.

  The counts and the sums are 64-bit integers that wrap around, as in a release build.  A batch visits its groups in the
  order of a hash table, which is a parameter: \<open>order\<close> arranges the groups it is given.
\<close>

section \<open>The operator\<close>

datatype aggregate_func = AggCount | AggSum nat | AggAvg nat | AggMin nat | AggMax nat

record group_state =
  gs_count :: int
  gs_sum :: int

record aggregate_op =
  ag_group_by :: "nat list"
  ag_func :: aggregate_func
  ag_internal_state :: "state_key \<Rightarrow> group_state option"

definition AggregateOp_new :: "nat list \<Rightarrow> aggregate_func \<Rightarrow> aggregate_op" where
  "AggregateOp_new group_by func = \<lparr>ag_group_by = group_by, ag_func = func, ag_internal_state = (\<lambda>_. None)\<rparr>"

definition i64 :: "int \<Rightarrow> int" where
  "i64 x = sint (word_of_int x :: 64 word)"

definition delta_of :: "dataflow_record \<Rightarrow> int" where
  "delta_of rec = (if is_positive rec then 1 else -1)"

definition value_delta :: "aggregate_func \<Rightarrow> dataflow_record \<Rightarrow> int option" where
  "value_delta func rec =
     (case func of
        AggSum col \<Rightarrow> map_option (\<lambda>v. case v of DBigInt v \<Rightarrow> i64 (v * delta_of rec) | _ \<Rightarrow> 0) (column (record_row rec) col)
      | AggAvg col \<Rightarrow> map_option (\<lambda>v. case v of DBigInt v \<Rightarrow> i64 (v * delta_of rec) | _ \<Rightarrow> 0) (column (record_row rec) col)
      | _ \<Rightarrow> Some 0)"

text \<open>The groups a batch touches, in the order of their first record, with what it adds to their count and sum.\<close>

fun group_changes :: "aggregate_op \<Rightarrow> dataflow_record list \<Rightarrow> state_key list \<Rightarrow> (state_key \<Rightarrow> int \<times> int) \<Rightarrow>
    (state_key list \<times> (state_key \<Rightarrow> int \<times> int)) option" where
  "group_changes op [] keys m = Some (keys, m)"
| "group_changes op (rec # recs) keys m = do {
     group_key \<leftarrow> from_row (record_row rec) (ag_group_by op);
     d \<leftarrow> value_delta (ag_func op) rec;
     let (c, s) = (if group_key \<in> set keys then m group_key else (0, 0));
     group_changes op recs (if group_key \<in> set keys then keys else keys @ [group_key])
       (m(group_key := (i64 (c + delta_of rec), i64 (s + d))))
   }"

definition group_values :: "state_key \<Rightarrow> row" where
  "group_values k = (case k of Single v \<Rightarrow> [v] | Multi vs \<Rightarrow> vs)"

text \<open>Division of Rust, which rounds towards zero.\<close>

definition rust_div :: "int \<Rightarrow> int \<Rightarrow> int" where
  "rust_div a b = (if a < 0 then - ((- a) div b) else a div b)"

definition aggregate_value :: "aggregate_func \<Rightarrow> int \<Rightarrow> int \<Rightarrow> data_type" where
  "aggregate_value func c s =
     (case func of
        AggCount \<Rightarrow> DBigInt c
      | AggSum _ \<Rightarrow> DBigInt s
      | AggAvg _ \<Rightarrow> DBigInt (rust_div s c)
      | AggMin _ \<Rightarrow> DBigInt s
      | AggMax _ \<Rightarrow> DBigInt s)"

definition process_group :: "(state_key \<Rightarrow> int \<times> int) \<Rightarrow> state_key \<Rightarrow> dataflow_record list \<times> aggregate_op \<Rightarrow> dataflow_record list \<times> aggregate_op" where
  "process_group m group_key st =
     (case st of (results, op) \<Rightarrow>
        let (count_delta, sum_delta) = m group_key;
            internal = (case ag_internal_state op group_key of Some g \<Rightarrow> g | None \<Rightarrow> \<lparr>gs_count = 0, gs_sum = 0\<rparr>);
            new_count = i64 (gs_count internal + count_delta);
            new_sum = i64 (gs_sum internal + sum_delta);
            row = (\<lambda>c s. group_values group_key @ [aggregate_value (ag_func op) c s])
        in (results @ (if gs_count internal > 0 then [Negative (row (gs_count internal) (gs_sum internal))] else [])
              @ (if new_count > 0 then [Positive (row new_count new_sum)] else []),
            op\<lparr>ag_internal_state := (ag_internal_state op)(group_key :=
              if new_count \<le> 0 then None else Some \<lparr>gs_count = new_count, gs_sum = new_sum\<rparr>)\<rparr>))"

definition process_aggregate :: "(state_key list \<Rightarrow> state_key list) \<Rightarrow> aggregate_op \<Rightarrow> dataflow_record list \<Rightarrow>
    (dataflow_record list \<times> aggregate_op) option" where
  "process_aggregate order op recs = do {
     (keys, m) \<leftarrow> group_changes op recs [] (\<lambda>_. (0, 0));
     Some (fold (process_group m) (order keys) ([], op))
   }"

section \<open>Groups of a multiset of rows\<close>

text \<open>The number of rows of a group, and the sum over them, as the operator counts it.\<close>

definition group_rows :: "nat list \<Rightarrow> state_key \<Rightarrow> row multiset \<Rightarrow> row multiset" where
  "group_rows g k M = filter_mset (\<lambda>r. from_row r g = Some k) M"

definition row_value :: "aggregate_func \<Rightarrow> row \<Rightarrow> int" where
  "row_value f r =
     (case f of
        AggSum col \<Rightarrow> (case column r col of Some (DBigInt v) \<Rightarrow> v | _ \<Rightarrow> 0)
      | AggAvg col \<Rightarrow> (case column r col of Some (DBigInt v) \<Rightarrow> v | _ \<Rightarrow> 0)
      | _ \<Rightarrow> 0)"

definition group_sum :: "aggregate_func \<Rightarrow> nat list \<Rightarrow> state_key \<Rightarrow> row multiset \<Rightarrow> int" where
  "group_sum f g k M = i64 (\<Sum>r\<in>#group_rows g k M. row_value f r)"

definition group_row :: "aggregate_func \<Rightarrow> nat list \<Rightarrow> state_key \<Rightarrow> row multiset \<Rightarrow> row multiset" where
  "group_row f g k M =
     (if group_rows g k M = {#} then {#}
      else {#group_values k @ [aggregate_value f (int (size (group_rows g k M))) (group_sum f g k M)]#})"

definition group_keys :: "nat list \<Rightarrow> row multiset \<Rightarrow> state_key set" where
  "group_keys g M = {k. \<exists>r\<in>#M. from_row r g = Some k}"

text \<open>The result of the grouped query.\<close>

definition grouped :: "aggregate_func \<Rightarrow> nat list \<Rightarrow> row multiset \<Rightarrow> row multiset" where
  "grouped f g M = (\<Sum>k\<in>group_keys g M. group_row f g k M)"

section \<open>What a batch adds to a group\<close>

lemma i64_add: "i64 (i64 a + b) = i64 (a + b)" "i64 (a + i64 b) = i64 (a + b)"
  by (simp_all add: i64_def wi_hom_syms)

lemma i64_add3: "i64 (i64 (a + i64 b) + x) = i64 (a + (b + x))"
proof -
  have "i64 (i64 (a + i64 b) + x) = i64 ((a + x) + i64 b)" unfolding i64_add by (simp add: ac_simps)
  also have "\<dots> = i64 ((a + x) + b)" by (rule i64_add)
  finally show ?thesis by (simp add: ac_simps)
qed

lemma i64_small: "0 \<le> a \<Longrightarrow> a < 2 ^ 63 \<Longrightarrow> i64 a = a"
  by (simp add: i64_def sint_sbintrunc' signed_take_bit_int_eq_self)

lemma i64_0 [simp]: "i64 0 = 0" "i64 (i64 a) = i64 a"
  by (simp_all add: i64_def)

definition net_count :: "nat list \<Rightarrow> state_key \<Rightarrow> dataflow_record list \<Rightarrow> int" where
  "net_count g k recs = sum_list (map (\<lambda>rec. if from_row (record_row rec) g = Some k then delta_of rec else 0) recs)"

definition net_sum :: "aggregate_func \<Rightarrow> nat list \<Rightarrow> state_key \<Rightarrow> dataflow_record list \<Rightarrow> int" where
  "net_sum f g k recs = sum_list (map (\<lambda>rec. if from_row (record_row rec) g = Some k then row_value f (record_row rec) * delta_of rec else 0) recs)"

text \<open>A row wide enough for the operator.\<close>

definition groupable :: "aggregate_op \<Rightarrow> dataflow_record \<Rightarrow> bool" where
  "groupable op rec \<longleftrightarrow> from_row (record_row rec) (ag_group_by op) \<noteq> None \<and> value_delta (ag_func op) rec \<noteq> None"

lemma value_delta_row: "value_delta f rec = Some d \<Longrightarrow> d = i64 (row_value f (record_row rec) * delta_of rec)"
proof (cases f)
  case (AggSum col)
  then show "value_delta f rec = Some d \<Longrightarrow> d = i64 (row_value f (record_row rec) * delta_of rec)"
    by (cases "column (record_row rec) col"; cases "the (column (record_row rec) col)") (simp_all add: value_delta_def row_value_def)
next
  case (AggAvg col)
  then show "value_delta f rec = Some d \<Longrightarrow> d = i64 (row_value f (record_row rec) * delta_of rec)"
    by (cases "column (record_row rec) col"; cases "the (column (record_row rec) col)") (simp_all add: value_delta_def row_value_def)
qed (simp_all add: value_delta_def row_value_def)

lemma group_changes_net:
  assumes "\<forall>rec\<in>set recs. groupable op rec" "distinct keys" "\<forall>k. k \<notin> set keys \<longrightarrow> m k = (0, 0)"
  shows "\<exists>keys' m'. group_changes op recs keys m = Some (keys', m') \<and> distinct keys' \<and>
    set keys' = set keys \<union> {k. \<exists>rec\<in>set recs. from_row (record_row rec) (ag_group_by op) = Some k} \<and>
    (\<forall>k. i64 (fst (m' k)) = i64 (fst (m k) + net_count (ag_group_by op) k recs) \<and>
         i64 (snd (m' k)) = i64 (snd (m k) + net_sum (ag_func op) (ag_group_by op) k recs))"
  using assms
proof (induction recs arbitrary: keys m)
  case (Cons rec recs)
  obtain k0 d where k0: "from_row (record_row rec) (ag_group_by op) = Some k0" "value_delta (ag_func op) rec = Some d"
    using Cons.prems(1) by (auto simp: groupable_def)
  let ?keys = "if k0 \<in> set keys then keys else keys @ [k0]"
  let ?m = "m(k0 := (i64 (fst (m k0) + delta_of rec), i64 (snd (m k0) + d)))"
  have m0: "(if k0 \<in> set keys then m k0 else (0, 0)) = m k0" using Cons.prems(3) by simp
  have g: "group_changes op (rec # recs) keys m = group_changes op recs ?keys ?m"
    using k0 by (simp add: m0 Let_def split: prod.split)
  have p: "\<forall>rec\<in>set recs. groupable op rec" "distinct ?keys" "\<forall>k. k \<notin> set ?keys \<longrightarrow> ?m k = (0, 0)" using Cons.prems by simp_all
  obtain keys' m' where IH: "group_changes op recs ?keys ?m = Some (keys', m')" "distinct keys'"
    "set keys' = set ?keys \<union> {k. \<exists>rec\<in>set recs. from_row (record_row rec) (ag_group_by op) = Some k}"
    "\<forall>k. i64 (fst (m' k)) = i64 (fst (?m k) + net_count (ag_group_by op) k recs) \<and> i64 (snd (m' k)) = i64 (snd (?m k) + net_sum (ag_func op) (ag_group_by op) k recs)"
    using Cons.IH [OF p] by blast
  have d: "d = i64 (row_value (ag_func op) (record_row rec) * delta_of rec)" using value_delta_row [OF k0(2)] .
  have "i64 (fst (m' k)) = i64 (fst (m k) + net_count (ag_group_by op) k (rec # recs)) \<and>
      i64 (snd (m' k)) = i64 (snd (m k) + net_sum (ag_func op) (ag_group_by op) k (rec # recs))" for k
  proof (cases "k = k0")
    case True
    have "i64 (i64 (snd (m k0) + d) + x) = i64 (snd (m k0) + (row_value (ag_func op) (record_row rec) * delta_of rec + x))" for x
      unfolding d by (rule i64_add3)
    then show ?thesis using IH(4) True k0(1) by (simp add: net_count_def net_sum_def i64_add(1) add.assoc)
  next
    case False
    then show ?thesis using IH(4) k0(1) by (simp add: net_count_def net_sum_def)
  qed
  moreover have "set keys' = set keys \<union> {k. \<exists>rec\<in>set (rec # recs). from_row (record_row rec) (ag_group_by op) = Some k}"
    using IH(3) k0(1) by auto
  ultimately show ?case using g IH(1,2) by auto
qed (simp add: net_count_def net_sum_def)

lemma net_applied:
  assumes "valid_records recs M"
  shows "int (size (group_rows g k (apply_records recs M))) = int (size (group_rows g k M)) + net_count g k recs \<and>
    (\<Sum>r\<in>#group_rows g k (apply_records recs M). row_value f r) = (\<Sum>r\<in>#group_rows g k M. row_value f r) + net_sum f g k recs"
  using assms
proof (induction recs arbitrary: M)
  case (Cons rec recs)
  have one: "int (size (group_rows g k (apply_record rec M))) = int (size (group_rows g k M)) + net_count g k [rec] \<and>
      (\<Sum>r\<in>#group_rows g k (apply_record rec M). row_value f r) = (\<Sum>r\<in>#group_rows g k M. row_value f r) + net_sum f g k [rec]"
  proof (cases rec)
    case (Positive r)
    then show ?thesis by (simp add: group_rows_def net_count_def net_sum_def delta_of_def)
  next
    case (Negative r)
    then have "r \<in># M" using Cons.prems by simp
    then obtain N where "M = add_mset r N" by (meson multi_member_split)
    then show ?thesis using Negative by (simp add: group_rows_def net_count_def net_sum_def delta_of_def)
  qed
  have "net_count g k (rec # recs) = net_count g k [rec] + net_count g k recs" "net_sum f g k (rec # recs) = net_sum f g k [rec] + net_sum f g k recs"
    by (simp_all add: net_count_def net_sum_def)
  then show ?case using Cons.IH [of "apply_record rec M"] Cons.prems one by (simp add: apply_records_def)
qed (simp add: apply_records_def net_count_def net_sum_def)

section \<open>Incremental maintenance\<close>

text \<open>What the operator keeps for a group of the rows it has seen.\<close>

definition group_entry :: "aggregate_func \<Rightarrow> nat list \<Rightarrow> state_key \<Rightarrow> row multiset \<Rightarrow> group_state option" where
  "group_entry f g k M =
     (if group_rows g k M = {#} then None else Some \<lparr>gs_count = int (size (group_rows g k M)), gs_sum = group_sum f g k M\<rparr>)"

definition aggregates :: "aggregate_op \<Rightarrow> row multiset \<Rightarrow> bool" where
  "aggregates op M \<longleftrightarrow> (\<forall>k. ag_internal_state op k = group_entry (ag_func op) (ag_group_by op) k M)"

lemma valid_records_append: "valid_records (xs @ ys) M \<longleftrightarrow> valid_records xs M \<and> valid_records ys (apply_records xs M)"
  by (induction xs arbitrary: M) (simp_all add: apply_records_def)

lemma apply_records_append: "apply_records (xs @ ys) M = apply_records ys (apply_records xs M)"
  by (simp add: apply_records_def)

lemma process_group_entry:
  assumes "ag_internal_state op k = group_entry f g k M" "ag_func op = f"
    and "int (size (group_rows g k M')) = i64 (int (size (group_rows g k M)) + fst (m k))"
    and "group_sum f g k M' = i64 (group_sum f g k M + snd (m k))"
  shows "\<exists>out. process_group m k (res, op) = (res @ out, op\<lparr>ag_internal_state := (ag_internal_state op)(k := group_entry f g k M')\<rparr>) \<and>
    (\<forall>V. valid_records out (V + group_row f g k M) \<and> apply_records out (V + group_row f g k M) = V + group_row f g k M')"
proof -
  let ?r = "\<lambda>M. group_values k @ [aggregate_value f (int (size (group_rows g k M))) (group_sum f g k M)]"
  let ?out = "(if group_rows g k M = {#} then [] else [Negative (?r M)]) @ (if group_rows g k M' = {#} then [] else [Positive (?r M')])"
  let ?I = "case ag_internal_state op k of Some x \<Rightarrow> x | None \<Rightarrow> \<lparr>gs_count = 0, gs_sum = 0\<rparr>"
  have I: "gs_count ?I = int (size (group_rows g k M))" "gs_sum ?I = group_sum f g k M"
    using assms(1) by (simp_all add: group_entry_def group_sum_def)
  have pos: "0 < int (size N) \<longleftrightarrow> N \<noteq> {#}" "int (size N) \<le> 0 \<longleftrightarrow> N = {#}" for N :: "row multiset"
    by (simp_all add: nonempty_has_size)
  have "process_group m k (res, op) =
      (res @ (if gs_count ?I > 0 then [Negative (group_values k @ [aggregate_value (ag_func op) (gs_count ?I) (gs_sum ?I)])] else [])
         @ (if i64 (gs_count ?I + fst (m k)) > 0 then [Positive (group_values k @ [aggregate_value (ag_func op) (i64 (gs_count ?I + fst (m k))) (i64 (gs_sum ?I + snd (m k)))])] else []),
       op\<lparr>ag_internal_state := (ag_internal_state op)(k :=
         if i64 (gs_count ?I + fst (m k)) \<le> 0 then None else Some \<lparr>gs_count = i64 (gs_count ?I + fst (m k)), gs_sum = i64 (gs_sum ?I + snd (m k))\<rparr>)\<rparr>)"
    by (simp only: process_group_def Let_def case_prod_beta fst_conv snd_conv)
  then have "process_group m k (res, op) = (res @ ?out, op\<lparr>ag_internal_state := (ag_internal_state op)(k := group_entry f g k M')\<rparr>)"
    unfolding I assms(2) assms(3,4) [symmetric] pos group_entry_def by simp
  moreover have "valid_records ?out (V + group_row f g k M) \<and> apply_records ?out (V + group_row f g k M) = V + group_row f g k M'" for V
    by (simp add: group_row_def apply_records_def)
  ultimately show ?thesis by blast
qed

lemma group_row_none: "k \<notin> group_keys g M \<Longrightarrow> group_row f g k M = {#}"
  by (auto simp: group_row_def group_rows_def group_keys_def filter_mset_eq_conv)

lemma group_keys_finite: "finite (group_keys g M)"
proof -
  have "group_keys g M \<subseteq> (\<lambda>r. the (from_row r g)) ` set_mset M" by (force simp: group_keys_def)
  then show ?thesis by (rule finite_subset) simp
qed

lemma grouped_over: "finite K \<Longrightarrow> group_keys g M \<subseteq> K \<Longrightarrow> grouped f g M = (\<Sum>k\<in>K. group_row f g k M)"
  unfolding grouped_def by (rule sum.mono_neutral_left) (auto simp: group_row_none)

text \<open>One after the other, the groups go from the old rows to the new.\<close>

lemma process_groups:
  assumes "finite K" "set ks \<subseteq> K" "distinct ks" "set ks \<inter> D = {}" "ag_func op = f"
    and "\<forall>k. ag_internal_state op k = group_entry f g k (if k \<in> D then M' else M)"
    and "\<forall>k\<in>set ks. int (size (group_rows g k M')) = i64 (int (size (group_rows g k M)) + fst (m k)) \<and>
      group_sum f g k M' = i64 (group_sum f g k M + snd (m k))"
  shows "\<exists>out op'. fold (process_group m) ks (res, op) = (res @ out, op') \<and> ag_func op' = f \<and> ag_group_by op' = ag_group_by op \<and>
    (\<forall>k. ag_internal_state op' k = group_entry f g k (if k \<in> D \<union> set ks then M' else M)) \<and>
    valid_records out (\<Sum>k\<in>K. group_row f g k (if k \<in> D then M' else M)) \<and>
    apply_records out (\<Sum>k\<in>K. group_row f g k (if k \<in> D then M' else M)) = (\<Sum>k\<in>K. group_row f g k (if k \<in> D \<union> set ks then M' else M))"
  using assms(2-)
proof (induction ks arbitrary: D op res)
  case (Cons k ks)
  let ?V = "\<lambda>D. \<Sum>k\<in>K. group_row f g k (if k \<in> D then M' else M)"
  have k: "k \<in> K" "k \<notin> D" "k \<notin> set ks" using Cons.prems(1-3) by auto
  have c: "int (size (group_rows g k M')) = i64 (int (size (group_rows g k M)) + fst (m k))" "group_sum f g k M' = i64 (group_sum f g k M + snd (m k))"
    using Cons.prems(6) by simp_all
  have i: "ag_internal_state op k = group_entry f g k M" using Cons.prems(5) k(2) by simp
  from process_group_entry [where m = m, OF i Cons.prems(4) c, of res] obtain out1 where
    o1: "process_group m k (res, op) = (res @ out1, op\<lparr>ag_internal_state := (ag_internal_state op)(k := group_entry f g k M')\<rparr>)"
    "\<And>V. valid_records out1 (V + group_row f g k M) \<and> apply_records out1 (V + group_row f g k M) = V + group_row f g k M'" by blast
  let ?op = "op\<lparr>ag_internal_state := (ag_internal_state op)(k := group_entry f g k M')\<rparr>"
  have split: "?V E = (\<Sum>j\<in>K - {k}. group_row f g j (if j \<in> E then M' else M)) + group_row f g k (if k \<in> E then M' else M)" for E
    by (simp add: sum.remove [OF assms(1) k(1)])
  have "(\<Sum>j\<in>K - {k}. group_row f g j (if j \<in> insert k D then M' else M)) = (\<Sum>j\<in>K - {k}. group_row f g j (if j \<in> D then M' else M))"
    by (rule sum.cong) auto
  then have step: "valid_records out1 (?V D) \<and> apply_records out1 (?V D) = ?V (insert k D)"
    using o1(2) k(2) unfolding split by simp
  have p: "set ks \<subseteq> K" "distinct ks" "set ks \<inter> insert k D = {}" "ag_func ?op = f"
    "\<forall>j. ag_internal_state ?op j = group_entry f g j (if j \<in> insert k D then M' else M)"
    "\<forall>k\<in>set ks. int (size (group_rows g k M')) = i64 (int (size (group_rows g k M)) + fst (m k)) \<and> group_sum f g k M' = i64 (group_sum f g k M + snd (m k))"
    using Cons.prems k by auto
  obtain out op' where IH: "fold (process_group m) ks (res @ out1, ?op) = ((res @ out1) @ out, op')" "ag_func op' = f" "ag_group_by op' = ag_group_by ?op"
    "\<forall>j. ag_internal_state op' j = group_entry f g j (if j \<in> insert k D \<union> set ks then M' else M)"
    "valid_records out (?V (insert k D))" "apply_records out (?V (insert k D)) = ?V (insert k D \<union> set ks)"
    using Cons.IH [OF p, of "res @ out1"] by blast
  have D: "insert k D \<union> set ks = D \<union> set (k # ks)" by auto
  show ?case
    by (rule exI [of _ "out1 @ out"], rule exI [of _ op'])
      (use o1(1) IH step D in \<open>simp add: valid_records_append apply_records_append\<close>)
qed (simp add: apply_records_def)

lemma apply_records_keys:
  "group_keys g (apply_records recs M) \<subseteq> group_keys g M \<union> {k. \<exists>rec\<in>set recs. from_row (record_row rec) g = Some k}"
proof (induction recs arbitrary: M)
  case (Cons rec recs)
  have "group_keys g (apply_record rec M) \<subseteq> group_keys g M \<union> {k. from_row (record_row rec) g = Some k}"
    by (cases rec) (auto simp: group_keys_def dest: in_diffD)
  then show ?case using Cons.IH [of "apply_record rec M"] by (auto simp: apply_records_def)
qed (simp add: apply_records_def)

lemma untouched_rows:
  "\<not> (\<exists>rec\<in>set recs. from_row (record_row rec) g = Some k) \<Longrightarrow> group_rows g k (apply_records recs M) = group_rows g k M"
proof (induction recs arbitrary: M)
  case (Cons rec recs)
  have "group_rows g k (apply_record rec M) = group_rows g k M"
    using Cons.prems by (cases rec) (simp_all add: group_rows_def)
  then show ?case using Cons by (simp add: apply_records_def)
qed (simp add: apply_records_def)

text \<open>The rows the operator emits have the values of a group and one more.\<close>

lemma from_row_width: "from_row r g = Some k \<Longrightarrow> length (group_values k) = length g"
proof -
  have c: "columns_of r cs = Some vs \<Longrightarrow> length vs = length cs" for cs vs
    by (induction cs arbitrary: vs) (auto split: bind_splits)
  show "from_row r g = Some k \<Longrightarrow> length (group_values k) = length g"
    by (auto simp: from_row_def group_values_def simp del: columns_of.simps split: list.splits dest: c)
qed

lemma process_groups_width:
  assumes "\<forall>k\<in>set ks. length (group_values k) = n" "\<forall>rec\<in>set (fst st). length (record_row rec) = Suc n"
  shows "\<forall>rec\<in>set (fst (fold (process_group m) ks st)). length (record_row rec) = Suc n"
  using assms
proof (induction ks arbitrary: st)
  case (Cons k ks)
  have "\<forall>rec\<in>set (fst (process_group m k st)). length (record_row rec) = Suc n"
    using Cons.prems by (auto simp: process_group_def Let_def split: prod.splits)
  then show ?case using Cons.IH [of "process_group m k st"] Cons.prems(1) by simp
qed simp

text \<open>The grouped query has at most as many rows as its table.\<close>

lemma group_rows_size: "size (group_rows g k M) \<le> size M"
  by (simp add: group_rows_def size_filter_mset_lesseq)

lemma grouped_size: "size (grouped f g M) \<le> size M"
proof -
  have card_le: "card (set_mset M) \<le> size M" by (induction M) (simp_all add: card_insert_if)
  have "size (grouped f g M) = (\<Sum>k\<in>group_keys g M. size (group_row f g k M))" unfolding grouped_def
    by (induction "group_keys g M" rule: infinite_finite_induct) simp_all
  also have "\<dots> \<le> card (group_keys g M)" using sum_bounded_above [of "group_keys g M" "\<lambda>k. size (group_row f g k M)" 1]
    by (simp add: group_row_def)
  also have "\<dots> \<le> card ((\<lambda>r. the (from_row r g)) ` set_mset M)" by (rule card_mono) (force simp: group_keys_def)+
  also have "\<dots> \<le> size M" using card_image_le [of "set_mset M"] card_le by (meson finite_set_mset le_trans)
  finally show ?thesis .
qed

lemma process_aggregate_grouped:
  assumes "aggregates op M" "valid_change recs M" "\<forall>rec\<in>set recs. groupable op rec" "\<forall>ks. mset (order ks) = mset ks"
  shows "\<exists>out op'. process_aggregate order op recs = Some (out, op') \<and> ag_func op' = ag_func op \<and> ag_group_by op' = ag_group_by op \<and>
    aggregates op' (apply_records recs M) \<and> (\<forall>rec\<in>set out. length (record_row rec) = Suc (length (ag_group_by op))) \<and>
    valid_change out (grouped (ag_func op) (ag_group_by op) M) \<and>
    apply_records out (grouped (ag_func op) (ag_group_by op) M) = grouped (ag_func op) (ag_group_by op) (apply_records recs M)"
proof -
  let ?f = "ag_func op" and ?g = "ag_group_by op" and ?M = "apply_records recs M"
  let ?T = "{k. \<exists>rec\<in>set recs. from_row (record_row rec) ?g = Some k}"
  obtain keys m where gc: "group_changes op recs [] (\<lambda>_. (0, 0)) = Some (keys, m)" "distinct keys" "set keys = ?T"
    "\<forall>k. i64 (fst (m k)) = i64 (net_count ?g k recs) \<and> i64 (snd (m k)) = i64 (net_sum ?f ?g k recs)"
    using group_changes_net [OF assms(3), of "[]" "\<lambda>_. (0, 0)"] by auto
  have ord: "set (order keys) = ?T" "distinct (order keys)" using assms(4) gc(2,3) by (metis mset_eq_setD, metis mset_eq_imp_distinct_iff)
  let ?K = "group_keys ?g M \<union> ?T"
  have fin: "finite ?K" using group_keys_finite gc(3) by (metis finite_UnI List.finite_set)
  have v: "valid_records recs M" "size ?M < 2 ^ 63" using assms(2) by (simp_all add: valid_change_def)
  have net: "int (size (group_rows ?g k ?M)) = i64 (int (size (group_rows ?g k M)) + fst (m k)) \<and> group_sum ?f ?g k ?M = i64 (group_sum ?f ?g k M + snd (m k))" for k
  proof -
    have "i64 (group_sum ?f ?g k M + snd (m k)) = i64 ((\<Sum>r\<in>#group_rows ?g k M. row_value ?f r) + i64 (snd (m k)))"
      by (simp add: group_sum_def i64_add)
    also have "\<dots> = group_sum ?f ?g k ?M" using gc(4) net_applied [OF v(1), of ?g k ?f] by (simp add: group_sum_def i64_add)
    finally have s: "group_sum ?f ?g k ?M = i64 (group_sum ?f ?g k M + snd (m k))" ..
    have "i64 (int (size (group_rows ?g k M)) + fst (m k)) = i64 (int (size (group_rows ?g k M)) + i64 (fst (m k)))" by (simp only: i64_add)
    also have "\<dots> = i64 (int (size (group_rows ?g k ?M)))" using gc(4) net_applied [OF v(1), of ?g k ?f] by (simp add: i64_add)
    also have "\<dots> = int (size (group_rows ?g k ?M))" using group_rows_size [of ?g k ?M] v(2) by (intro i64_small) simp_all
    finally show ?thesis using s by simp
  qed
  have old: "\<forall>k. ag_internal_state op k = group_entry ?f ?g k (if k \<in> {} then ?M else M)" using assms(1) by (simp add: aggregates_def)
  have sub: "set (order keys) \<subseteq> ?K" "set (order keys) \<inter> {} = {}" using ord by auto
  obtain out op' where o: "fold (process_group m) (order keys) ([], op) = ([] @ out, op')" "ag_func op' = ?f" "ag_group_by op' = ?g"
    "\<forall>k. ag_internal_state op' k = group_entry ?f ?g k (if k \<in> {} \<union> set (order keys) then ?M else M)"
    "valid_records out (\<Sum>k\<in>?K. group_row ?f ?g k (if k \<in> {} then ?M else M))"
    "apply_records out (\<Sum>k\<in>?K. group_row ?f ?g k (if k \<in> {} then ?M else M)) = (\<Sum>k\<in>?K. group_row ?f ?g k (if k \<in> {} \<union> set (order keys) then ?M else M))"
    using process_groups [OF fin sub(1) ord(2) sub(2) refl old, of m "[]"] net by blast
  have same: "group_rows ?g k ?M = group_rows ?g k M" if "k \<notin> ?T" for k
    using untouched_rows that by blast
  have "group_row ?f ?g k (if k \<in> ?T then ?M else M) = group_row ?f ?g k ?M" "group_entry ?f ?g k (if k \<in> ?T then ?M else M) = group_entry ?f ?g k ?M" for k
    using same [of k] by (simp_all add: group_row_def group_entry_def group_sum_def)
  then have "aggregates op' ?M" "(\<Sum>k\<in>?K. group_row ?f ?g k (if k \<in> {} \<union> set (order keys) then ?M else M)) = (\<Sum>k\<in>?K. group_row ?f ?g k ?M)"
    using o(2-4) ord(1) by (simp_all add: aggregates_def)
  moreover have "grouped ?f ?g M = (\<Sum>k\<in>?K. group_row ?f ?g k M)" "grouped ?f ?g ?M = (\<Sum>k\<in>?K. group_row ?f ?g k ?M)"
    using grouped_over [OF fin] apply_records_keys by blast+
  moreover have "\<forall>k\<in>set (order keys). length (group_values k) = length ?g" using ord(1) from_row_width by blast
  from process_groups_width [OF this, of "([], op)" m] have "\<forall>rec\<in>set out. length (record_row rec) = Suc (length ?g)" using o(1) by simp
  ultimately show ?thesis using o gc(1) grouped_size [of ?f ?g ?M] v(2) by (simp add: process_aggregate_def valid_change_def)
qed

text \<open>The operator meets the contract, for any order that arranges the groups.\<close>

definition aggregating :: "(state_key list \<Rightarrow> state_key list) \<Rightarrow> nat list \<Rightarrow> aggregate_func \<Rightarrow> aggregate_op \<Rightarrow> row multiset \<Rightarrow> bool" where
  "aggregating order g f op M \<longleftrightarrow> (\<forall>ks. mset (order ks) = mset ks) \<and> ag_group_by op = g \<and> ag_func op = f \<and> aggregates op M"

interpretation aggregate: incremental_operator "process_aggregate order" "aggregating order g f" "groupable (AggregateOp_new g f)"
    "\<lambda>rec. length (record_row rec) = Suc (length g)" "grouped f g"
  for order g f
proof
  fix op M recs
  assume op: "aggregating order g f op M" and v: "valid_change recs M" and w: "\<forall>rec\<in>set recs. groupable (AggregateOp_new g f) rec"
  have a: "aggregates op M" "\<forall>ks. mset (order ks) = mset ks" "ag_func op = f" "ag_group_by op = g" using op by (simp_all add: aggregating_def)
  have "\<forall>rec\<in>set recs. groupable op rec" using w a(3,4) by (simp add: groupable_def AggregateOp_new_def)
  from process_aggregate_grouped [OF a(1) v this a(2)] show "\<exists>out op'. process_aggregate order op recs = Some (out, op') \<and>
      aggregating order g f op' (apply_records recs M) \<and> (\<forall>rec\<in>set out. length (record_row rec) = Suc (length g)) \<and>
      valid_change out (grouped f g M) \<and>
      apply_records out (grouped f g M) = grouped f g (apply_records recs M)"
    using a by (auto simp: aggregating_def)
qed

lemma aggregates_new: "\<forall>ks. mset (order ks) = mset ks \<Longrightarrow> aggregating order g f (AggregateOp_new g f) {#}" "grouped f g {#} = {#}"
  by (simp_all add: aggregating_def aggregates_def AggregateOp_new_def group_entry_def group_rows_def grouped_def group_keys_def)

section \<open>Properties\<close>

text \<open>C9: an aggregate stays equal to its grouped query.  Whatever the order in which the groups of a batch are
  visited, after any sequence of batches that delete only rows that are there, never leave 2^63 rows and whose rows are wide
  enough, the records the operator has emitted leave one row for each group with rows: its values, and the
  count, the sum or the average of its rows (sums modulo 2^64).\<close>

theorem aggregate_maintained:
  assumes "valid_batches batches {#}" and "\<forall>recs\<in>set batches. \<forall>rec\<in>set recs. groupable (AggregateOp_new g f) rec"
    and "\<forall>ks. mset (order ks) = mset ks"
  shows "\<exists>op'. run_batches (process_aggregate order) (AggregateOp_new g f) batches {#} = Some (op', grouped f g (table_rows batches {#}))"
  using aggregate.run_maintains [OF aggregates_new(1) [OF assms(3)] assms(1,2)] aggregates_new(2) by auto

definition example_votes :: "dataflow_record list list" where
  "example_votes = [[Positive [DBigInt 7, DBigInt 5], Positive [DBigInt 8, DBigInt 1]], [Positive [DBigInt 7, DBigInt 3], Negative [DBigInt 8, DBigInt 1]]]"

lemma example_votes:
  "valid_batches example_votes {#}" "table_rows example_votes {#} = {#[DBigInt 7, DBigInt 3], [DBigInt 7, DBigInt 5]#}"
  "\<forall>recs\<in>set example_votes. \<forall>rec\<in>set recs. groupable (AggregateOp_new [0] (AggSum 1)) rec"
  "\<forall>recs\<in>set example_votes. \<forall>rec\<in>set recs. groupable (AggregateOp_new [0] (AggMax 1)) rec"
  by (simp_all add: example_votes_def valid_change_def apply_records_def table_rows_def groupable_def AggregateOp_new_def value_delta_def from_row_def column_def)

theorem aggregate_maintained_witness:
  "\<exists>op'. run_batches (process_aggregate rev) (AggregateOp_new [0] (AggSum 1)) example_votes {#} = Some (op', {#[DBigInt 7, DBigInt 8]#})"
proof -
  let ?M = "{#[DBigInt 7, DBigInt 3], [DBigInt 7, DBigInt 5]#}"
  have "group_keys [0] ?M = {Single (DBigInt 7)}" by (auto simp: group_keys_def from_row_def column_def)
  then have "grouped (AggSum 1) [0] ?M = {#[DBigInt 7, DBigInt 8]#}"
    by (simp add: grouped_def group_row_def group_rows_def from_row_def column_def group_values_def aggregate_value_def group_sum_def row_value_def i64_def)
  then show ?thesis using aggregate_maintained [OF example_votes(1,3), of rev] example_votes(2) by simp
qed

text \<open>C22: the views of MIN and MAX show 0.  Whatever the rows, the view of such an aggregate has the value 0 for each
  group.\<close>

theorem min_max_zero:
  assumes "f = AggMin c \<or> f = AggMax c"
    and "valid_batches batches {#}" "\<forall>recs\<in>set batches. \<forall>rec\<in>set recs. groupable (AggregateOp_new g f) rec" "\<forall>ks. mset (order ks) = mset ks"
  shows "\<exists>op'. run_batches (process_aggregate order) (AggregateOp_new g f) batches {#} =
    Some (op', \<Sum>k\<in>group_keys g (table_rows batches {#}). {#group_values k @ [DBigInt 0]#})"
proof -
  have z: "group_sum f g k M = 0" for k M using assms(1) by (auto simp: group_sum_def row_value_def)
  have "group_rows g k M \<noteq> {#}" if "k \<in> group_keys g M" for k M
    using that by (auto simp: group_keys_def group_rows_def filter_mset_eq_conv)
  then have "grouped f g M = (\<Sum>k\<in>group_keys g M. {#group_values k @ [DBigInt 0]#})" for M
    using assms(1) z unfolding grouped_def by (intro sum.cong) (auto simp: group_row_def aggregate_value_def)
  then show ?thesis using aggregate.run_maintains [OF aggregates_new(1) [OF assms(4)] assms(2,3)] aggregates_new(2) by auto
qed

theorem min_max_zero_witness:
  "\<exists>op'. run_batches (process_aggregate rev) (AggregateOp_new [0] (AggMax 1)) example_votes {#} = Some (op', {#[DBigInt 7, DBigInt 0]#})"
proof -
  have "group_keys [0] {#[DBigInt 7, DBigInt 3], [DBigInt 7, DBigInt 5]#} = {Single (DBigInt 7)}"
    by (auto simp: group_keys_def from_row_def column_def)
  then show ?thesis using min_max_zero [OF _ example_votes(1,4), of 1 rev] example_votes(2) by (simp add: group_values_def)
qed

end
