(* ===== verification/Executor.thy ===== *)
theory Executor
  imports Aggregates
begin

text \<open>
  The executor of noria-sqlite (src/dataflow/executor.rs, and \<open>OperatorType\<close> of ops.rs): a graph of base
  tables and operators, some of them with a state, through which writes flow depth first.

  \<open>order\<close> stands for the order of the hash table in which an aggregate visits its groups, by the node of the
  aggregate.
\<close>

type_synonym group_order = "nat \<Rightarrow> state_key list \<Rightarrow> state_key list"

datatype operator_type =
    FilterOp filter_condition
  | ProjectOp "nat list"
  | JoinOp join_op
  | AggregateOp aggregate_op
  | IdentityOp

text \<open>The records an operator emits, and the operator after that.\<close>

definition process_op :: "(state_key list \<Rightarrow> state_key list) \<Rightarrow> operator_type \<Rightarrow> nat \<Rightarrow> dataflow_record list \<Rightarrow> memory_state option \<Rightarrow>
    (dataflow_record list \<times> operator_type) option" where
  "process_op order op from_parent recs s =
     (case op of
        FilterOp cond \<Rightarrow> map_option (\<lambda>out. (out, op)) (process_filter cond recs)
      | ProjectOp emit \<Rightarrow> map_option (\<lambda>out. (out, op)) (process_project emit recs)
      | JoinOp j \<Rightarrow> map_option (\<lambda>out. (out, op)) (case s of None \<Rightarrow> Some [] | Some s \<Rightarrow> process_join j from_parent s recs)
      | AggregateOp a \<Rightarrow> map_option (\<lambda>(out, a). (out, AggregateOp a)) (process_aggregate order a recs)
      | IdentityOp \<Rightarrow> Some (recs, op))"

section \<open>The graph\<close>

record node =
  nd_operator :: "operator_type option"
  nd_parents :: "nat list"
  nd_children :: "nat list"
  nd_state :: "memory_state option"
  nd_columns :: "bytes list"

record executor =
  ex_nodes :: "node list"
  ex_base_tables :: "bytes \<Rightarrow> nat option"

record view_handle =
  vh_node :: nat
  vh_key_columns :: "nat list"

definition LocalExecutor_new :: executor where
  "LocalExecutor_new = \<lparr>ex_nodes = [], ex_base_tables = (\<lambda>_. None)\<rparr>"

definition add_base_table :: "bytes \<Rightarrow> bytes list \<Rightarrow> executor \<Rightarrow> nat \<times> executor" where
  "add_base_table name cols ex =
     (length (ex_nodes ex),
      ex\<lparr>ex_nodes := ex_nodes ex @ [\<lparr>nd_operator = None, nd_parents = [], nd_children = [], nd_state = None, nd_columns = cols\<rparr>],
         ex_base_tables := (ex_base_tables ex)(name \<mapsto> length (ex_nodes ex))\<rparr>)"

definition get_or_add_base_table :: "bytes \<Rightarrow> bytes list \<Rightarrow> executor \<Rightarrow> nat \<times> executor" where
  "get_or_add_base_table name cols ex =
     (case ex_base_tables ex name of Some idx \<Rightarrow> (idx, ex) | None \<Rightarrow> add_base_table name cols ex)"

definition add_child :: "nat \<Rightarrow> nat \<Rightarrow> node list \<Rightarrow> node list" where
  "add_child idx parent nodes = nodes[parent := (nodes ! parent)\<lparr>nd_children := nd_children (nodes ! parent) @ [idx]\<rparr>]"

definition add_operator :: "operator_type \<Rightarrow> nat list \<Rightarrow> bytes list \<Rightarrow> executor \<Rightarrow> (nat \<times> executor) option" where
  "add_operator op parents cols ex =
     (let idx = length (ex_nodes ex)
      in if list_all (\<lambda>p. p < idx) parents then
           Some (idx, ex\<lparr>ex_nodes := fold (add_child idx) parents (ex_nodes ex) @
             [\<lparr>nd_operator = Some op, nd_parents = parents, nd_children = [], nd_state = None, nd_columns = cols\<rparr>]\<rparr>)
         else None)"

definition materialize :: "nat \<Rightarrow> nat list \<Rightarrow> executor \<Rightarrow> (view_handle \<times> executor) option" where
  "materialize nd key_columns ex =
     (if nd < length (ex_nodes ex) then
        Some (\<lparr>vh_node = nd, vh_key_columns = key_columns\<rparr>,
          ex\<lparr>ex_nodes := (ex_nodes ex)[nd := (ex_nodes ex ! nd)\<lparr>nd_state := Some (MemoryState_new key_columns)\<rparr>]\<rparr>)
      else None)"

definition lookup :: "executor \<Rightarrow> view_handle \<Rightarrow> row \<Rightarrow> row list option" where
  "lookup ex view key =
     (case nd_state (ex_nodes ex ! vh_node view) of
        Some s \<Rightarrow> (case state_lookup s key of Rows rows \<Rightarrow> Some rows | NoRows \<Rightarrow> Some [] | Missing \<Rightarrow> None)
      | None \<Rightarrow> None)"

definition update_state :: "nat \<Rightarrow> dataflow_record list \<Rightarrow> executor \<Rightarrow> executor option" where
  "update_state nd recs ex =
     (case nd_state (ex_nodes ex ! nd) of
        None \<Rightarrow> Some ex
      | Some s \<Rightarrow> map_option (\<lambda>s. ex\<lparr>ex_nodes := (ex_nodes ex)[nd := (ex_nodes ex ! nd)\<lparr>nd_state := Some s\<rparr>]\<rparr>) (process_records recs s))"

definition inject_into_view :: "view_handle \<Rightarrow> dataflow_record list \<Rightarrow> executor \<Rightarrow> executor option" where
  "inject_into_view view recs ex = update_state (vh_node view) recs ex"

section \<open>Writes\<close>

text \<open>What the operator of a child makes of the records of its parent.\<close>

definition child_output :: "group_order \<Rightarrow> executor \<Rightarrow> nat \<Rightarrow> nat \<Rightarrow> dataflow_record list \<Rightarrow> (dataflow_record list \<times> executor) option" where
  "child_output order ex from child recs =
     (let nd = ex_nodes ex ! child;
          parent_idx = (case position (\<lambda>p. p = from) (nd_parents nd) of Some i \<Rightarrow> i | None \<Rightarrow> 0);
          s = (if length (nd_parents nd) > 1 then nd_state (ex_nodes ex ! (nd_parents nd ! (1 - parent_idx))) else nd_state nd)
      in case nd_operator nd of
           Some op \<Rightarrow>
             map_option (\<lambda>(out, op). (out, ex\<lparr>ex_nodes := (ex_nodes ex)[child := nd\<lparr>nd_operator := Some op\<rparr>]\<rparr>))
               (process_op (order child) op parent_idx recs s)
         | None \<Rightarrow> Some (recs, ex))"

text \<open>\<open>propagate\<close>, depth first; \<open>fuel\<close> bounds the depth, \<open>None\<close> if it runs out.\<close>

function (sequential) propagate :: "nat \<Rightarrow> group_order \<Rightarrow> nat \<Rightarrow> dataflow_record list \<Rightarrow> executor \<Rightarrow> executor option"
  and propagate_children :: "nat \<Rightarrow> group_order \<Rightarrow> nat \<Rightarrow> dataflow_record list \<Rightarrow> nat list \<Rightarrow> executor \<Rightarrow> executor option" where
  "propagate 0 order from recs ex = None"
| "propagate (Suc fuel) order from recs ex =
     (if recs = [] then Some ex
      else do {
        ex \<leftarrow> update_state from recs ex;
        propagate_children fuel order from recs (nd_children (ex_nodes ex ! from)) ex
      })"
| "propagate_children fuel order from recs [] ex = Some ex"
| "propagate_children fuel order from recs (child # rest) ex = do {
     (out, ex) \<leftarrow> child_output order ex from child recs;
     ex \<leftarrow> propagate fuel order child out ex;
     propagate_children fuel order from recs rest ex
   }"
  by pat_completeness auto
termination
  by (relation "measures [case_sum (\<lambda>(n, _). n) (\<lambda>(n, _). n), case_sum (\<lambda>_. 0) (\<lambda>(_, _, _, _, cs, _). Suc (length cs))]")
    auto

definition apply_write :: "group_order \<Rightarrow> bytes \<Rightarrow> dataflow_record list \<Rightarrow> executor \<Rightarrow> executor option" where
  "apply_write order table recs ex =
     (case ex_base_tables ex table of
        Some base \<Rightarrow> propagate (Suc (length (ex_nodes ex))) order base recs ex
      | None \<Rightarrow> Some ex)"

end
