(* ===== verification/DataflowViews.thy ===== *)
theory DataflowViews
  imports Executor
begin

text \<open>
  Incremental view maintenance: what flows through filters, projections and aggregates keeps the state of each
  view equal to its query over the rows of the base table.
\<close>

section \<open>Operators as queries\<close>

text \<open>What a filter, a projection or an identity makes of one row: nothing or a row.\<close>

fun op_row :: "operator_type \<Rightarrow> row \<Rightarrow> row option" where
  "op_row (FilterOp cond) r = (if evaluate cond r = Some True then Some r else None)"
| "op_row (ProjectOp emit) r = columns_of r emit"
| "op_row IdentityOp r = Some r"
| "op_row _ r = None"

text \<open>What an operator makes of a multiset of rows.\<close>

definition rows_query :: "operator_type \<Rightarrow> row multiset \<Rightarrow> row multiset" where
  "rows_query op M = image_mset (\<lambda>r. the (op_row op r)) (filter_mset (\<lambda>r. op_row op r \<noteq> None) M)"

definition op_query :: "operator_type \<Rightarrow> row multiset \<Rightarrow> row multiset" where
  "op_query op M = (case op of AggregateOp a \<Rightarrow> grouped (ag_func a) (ag_group_by a) M | _ \<Rightarrow> rows_query op M)"

text \<open>The columns an operator needs, and how many it emits.\<close>

fun cond_fits :: "nat \<Rightarrow> filter_condition \<Rightarrow> bool" where
  "cond_fits n (FEq c v) = (c < n)"
| "cond_fits n (FNe c v) = (c < n)"
| "cond_fits n (FGt c v) = (c < n)"
| "cond_fits n (FLt c v) = (c < n)"
| "cond_fits n (FIsNull c) = (c < n)"
| "cond_fits n (FIsNotNull c) = (c < n)"
| "cond_fits n (FAnd conds) = list_all (cond_fits n) conds"
| "cond_fits n (FOr conds) = list_all (cond_fits n) conds"
| "cond_fits n FAlwaysTrue = True"

fun func_fits :: "nat \<Rightarrow> aggregate_func \<Rightarrow> bool" where
  "func_fits n (AggSum c) = (c < n)"
| "func_fits n (AggAvg c) = (c < n)"
| "func_fits n _ = True"

fun op_fits :: "nat \<Rightarrow> operator_type \<Rightarrow> bool" where
  "op_fits n (FilterOp cond) = cond_fits n cond"
| "op_fits n (ProjectOp emit) = list_all (\<lambda>c. c < n) emit"
| "op_fits n (JoinOp j) = False"
| "op_fits n (AggregateOp a) = (list_all (\<lambda>c. c < n) (ag_group_by a) \<and> func_fits n (ag_func a))"
| "op_fits n IdentityOp = True"

fun op_width :: "operator_type \<Rightarrow> nat \<Rightarrow> nat" where
  "op_width (ProjectOp emit) n = length emit"
| "op_width (AggregateOp a) n = Suc (length (ag_group_by a))"
| "op_width _ n = n"

text \<open>An operator without the groups it has seen, and whether those are the groups of some rows.\<close>

fun op_shape :: "operator_type \<Rightarrow> operator_type" where
  "op_shape (AggregateOp a) = AggregateOp (a\<lparr>ag_internal_state := (\<lambda>_. None)\<rparr>)"
| "op_shape op = op"

fun op_keeps :: "operator_type \<Rightarrow> row multiset \<Rightarrow> bool" where
  "op_keeps (AggregateOp a) M = aggregates a M"
| "op_keeps op M = True"

lemma column_fits: "c < length r \<Longrightarrow> column r c \<noteq> None"
  by (simp add: column_def)

lemma columns_fit: "list_all (\<lambda>c. c < length r) cs \<Longrightarrow> \<exists>vs. columns_of r cs = Some vs \<and> length vs = length cs"
  by (induction cs) (auto simp: column_def)

lemma evaluate_fits:
  "cond_fits (length r) cond \<Longrightarrow> evaluate cond r \<noteq> None"
  "list_all (cond_fits (length r)) conds \<Longrightarrow> evaluate_all conds r \<noteq> None"
  "list_all (cond_fits (length r)) conds \<Longrightarrow> evaluate_any conds r \<noteq> None"
  by (induction cond r and conds r and conds r rule: evaluate_evaluate_all_evaluate_any.induct) (auto simp: column_def)

lemma from_row_fits: "list_all (\<lambda>c. c < length r) cs \<Longrightarrow> from_row r cs \<noteq> None"
  using columns_fit [of r cs] by (auto simp: from_row_def column_def split: list.splits)

lemma shape_facts:
  assumes "op_shape op' = op_shape op"
  shows "op_query op' = op_query op" "op_fits n op' = op_fits n op" "op_width op' n = op_width op n"
proof -
  have "op' = op \<or> (\<exists>a b. op = AggregateOp a \<and> op' = AggregateOp b \<and> ag_func b = ag_func a \<and> ag_group_by b = ag_group_by a)"
    using assms by (cases op; cases op') (auto dest: arg_cong [of _ _ ag_func] arg_cong [of _ _ ag_group_by])
  then show "op_query op' = op_query op" "op_fits n op' = op_fits n op" "op_width op' n = op_width op n"
    by (auto simp: op_query_def fun_eq_iff)
qed

lemma op_query_empty [simp]: "op_query op {#} = {#}"
  by (simp add: op_query_def rows_query_def grouped_def group_keys_def split: operator_type.split)

lemma op_keeps_empty: "op_keeps (op_shape op) {#}"
  by (cases op) (simp_all add: aggregates_def group_entry_def group_rows_def)

section \<open>Operators on one record at a time\<close>

definition op_records :: "operator_type \<Rightarrow> dataflow_record list \<Rightarrow> dataflow_record list" where
  "op_records op recs = List.map_filter (\<lambda>rec. map_option (with_row rec) (op_row op (record_row rec))) recs"

lemma op_records_simps [simp]: "op_records op [] = []"
  "op_records op (rec # recs) = (case op_row op (record_row rec) of Some v \<Rightarrow> with_row rec v # op_records op recs | None \<Rightarrow> op_records op recs)"
  by (simp_all add: op_records_def map_filter_simps split: option.split)

lemma with_own_row [simp]: "with_row rec (record_row rec) = rec"
  by (cases rec) simp_all

lemma row_accessors [simp]: "record_row (with_row rec v) = v" "is_positive (with_row rec v) = is_positive rec"
  by (cases rec; simp)+

fun row_wise :: "operator_type \<Rightarrow> bool" where
  "row_wise (FilterOp cond) = True"
| "row_wise (ProjectOp emit) = True"
| "row_wise IdentityOp = True"
| "row_wise _ = False"

lemma process_op_records:
  assumes "row_wise op" "op_fits n op" "\<forall>rec\<in>set recs. length (record_row rec) = n"
  shows "process_op order op i recs s = Some (op_records op recs, op) \<and> (\<forall>rec\<in>set (op_records op recs). length (record_row rec) = op_width op n)"
proof (cases op)
  case (FilterOp cond)
  have "process_filter cond recs = Some (op_records op recs)"
    using assms(2,3) FilterOp
  proof (induction recs)
    case (Cons rec recs)
    then show ?case using evaluate_fits(1) [of "record_row rec" cond] by auto
  qed simp
  moreover have "\<forall>rec\<in>set (op_records op recs). length (record_row rec) = n"
    using assms(3) FilterOp by (induction recs) auto
  ultimately show ?thesis using FilterOp by (simp add: process_op_def)
next
  case (ProjectOp emit)
  have "process_project emit recs = Some (op_records op recs) \<and> (\<forall>rec\<in>set (op_records op recs). length (record_row rec) = length emit)"
    using assms(2,3) ProjectOp
  proof (induction recs)
    case (Cons rec recs)
    then show ?case using columns_fit [of "record_row rec" emit] by auto
  qed simp
  then show ?thesis using ProjectOp by (simp add: process_op_def)
next
  case IdentityOp
  have "op_records op recs = recs" using IdentityOp by (induction recs) simp_all
  then show ?thesis using assms(3) IdentityOp by (simp add: process_op_def)
qed (use assms(1) in simp_all)

lemma rows_query_add [simp]: "rows_query op (add_mset r M) = (case op_row op r of Some v \<Rightarrow> add_mset v (rows_query op M) | None \<Rightarrow> rows_query op M)"
  by (simp add: rows_query_def split: option.split)

lemma rows_query_remove:
  assumes "r \<in># M"
  shows "rows_query op (M - {#r#}) = (case op_row op r of Some v \<Rightarrow> rows_query op M - {#v#} | None \<Rightarrow> rows_query op M)"
proof -
  obtain N where "M = add_mset r N" using assms by (meson multi_member_split)
  then show ?thesis by (simp split: option.split)
qed

lemma rows_query_member: "r \<in># M \<Longrightarrow> op_row op r = Some v \<Longrightarrow> v \<in># rows_query op M"
  by (force simp: rows_query_def)

lemma op_records_query:
  assumes "valid_records recs M"
  shows "valid_records (op_records op recs) (rows_query op M) \<and>
    apply_records (op_records op recs) (rows_query op M) = rows_query op (apply_records recs M)"
  using assms
proof (induction recs arbitrary: M)
  case (Cons rec recs)
  note IH = Cons.IH [of "apply_record rec M"]
  show ?case
  proof (cases rec)
    case (Positive r)
    then show ?thesis using IH Cons.prems by (cases "op_row op r") (simp_all add: apply_records_def)
  next
    case (Negative r)
    then have "r \<in># M" using Cons.prems by simp
    then show ?thesis using IH Cons.prems Negative rows_query_member [of r M op]
      by (cases "op_row op r") (simp_all add: apply_records_def rows_query_remove)
  qed
qed (simp add: apply_records_def)

lemma op_records_change:
  assumes "valid_change recs M"
  shows "valid_change (op_records op recs) (rows_query op M) \<and>
    apply_records (op_records op recs) (rows_query op M) = rows_query op (apply_records recs M)"
proof -
  have "size (rows_query op (apply_records recs M)) \<le> size (apply_records recs M)"
    by (simp add: rows_query_def size_filter_mset_lesseq)
  then show ?thesis using op_records_query [of recs M op] assms by (auto simp: valid_change_def)
qed

section \<open>The operators meet the contract\<close>

definition operating :: "(state_key list \<Rightarrow> state_key list) \<Rightarrow> nat \<Rightarrow> operator_type \<Rightarrow> operator_type \<Rightarrow> row multiset \<Rightarrow> bool" where
  "operating order n op0 op M \<longleftrightarrow> (\<forall>ks. mset (order ks) = mset ks) \<and> op_fits n op0 \<and> op_shape op = op_shape op0 \<and> op_keeps op M"

lemma groupable_fits: "op_fits (length (record_row rec)) (AggregateOp a) \<Longrightarrow> groupable a rec"
  using from_row_fits [of "record_row rec" "ag_group_by a"]
  by (cases "ag_func a") (auto simp: groupable_def value_delta_def column_def)

interpretation one_input: incremental_operator "\<lambda>op recs. process_op order op i recs s" "operating order n op0"
    "\<lambda>rec. length (record_row rec) = n" "\<lambda>rec. length (record_row rec) = op_width op0 n" "op_query op0"
  for order i s n op0
proof
  fix op M recs
  assume op: "operating order n op0 op M" and v: "valid_change recs M" and w: "\<forall>rec\<in>set recs. length (record_row rec) = n"
  have o: "\<forall>ks. mset (order ks) = mset ks" "op_shape op = op_shape op0" "op_keeps op M" "op_fits n op" "op_fits n op0"
    using op shape_facts(2) [of op op0 n] by (simp_all add: operating_def)
  note f = shape_facts [OF o(2)]
  have rows: "\<exists>out op'. process_op order op i recs s = Some (out, op') \<and> operating order n op0 op' (apply_records recs M) \<and>
      (\<forall>rec\<in>set out. length (record_row rec) = op_width op0 n) \<and>
      valid_change out (op_query op0 M) \<and> apply_records out (op_query op0 M) = op_query op0 (apply_records recs M)" if "row_wise op"
  proof -
    have "op_query op = rows_query op" "op_keeps op (apply_records recs M)" using that by (cases op; simp add: op_query_def fun_eq_iff)+
    then show ?thesis using process_op_records [OF that o(4) w, of order i s] op_records_change [OF v, of op] o(1,2,5)
      unfolding operating_def f [symmetric] by simp
  qed
  show "\<exists>out op'. process_op order op i recs s = Some (out, op') \<and> operating order n op0 op' (apply_records recs M) \<and>
      (\<forall>rec\<in>set out. length (record_row rec) = op_width op0 n) \<and>
      valid_change out (op_query op0 M) \<and> apply_records out (op_query op0 M) = op_query op0 (apply_records recs M)"
  proof (cases op)
    case (AggregateOp a)
    have "\<forall>rec\<in>set recs. groupable a rec" using w o(4) AggregateOp groupable_fits by auto
    from process_aggregate_grouped [OF _ v this o(1)] o(3) AggregateOp obtain out a' where
      a': "process_aggregate order a recs = Some (out, a')" "ag_func a' = ag_func a" "ag_group_by a' = ag_group_by a"
      "aggregates a' (apply_records recs M)" "\<forall>rec\<in>set out. length (record_row rec) = Suc (length (ag_group_by a))"
      "valid_change out (grouped (ag_func a) (ag_group_by a) M)"
      "apply_records out (grouped (ag_func a) (ag_group_by a) M) = grouped (ag_func a) (ag_group_by a) (apply_records recs M)"
      by auto
    have "op_shape (AggregateOp a') = op_shape (AggregateOp a)" using a'(2,3) by simp
    then have "operating order n op0 (AggregateOp a') (apply_records recs M)" using o AggregateOp a'(4) unfolding operating_def by simp
    then show ?thesis using a' AggregateOp unfolding f [symmetric] by (simp add: process_op_def op_query_def)
  next
    case (JoinOp j)
    then show ?thesis using o(4) by simp
  next
    case (FilterOp cond)
    then show ?thesis using rows by simp
  next
    case (ProjectOp emit)
    then show ?thesis using rows by simp
  next
    case IdentityOp
    then show ?thesis using rows by simp
  qed
qed

text \<open>Several operators, one after the other.\<close>

definition query_rows :: "operator_type list \<Rightarrow> row multiset \<Rightarrow> row multiset" where
  "query_rows ops M = fold op_query ops M"

section \<open>Trees of operators\<close>

text \<open>Each operator has one parent, which lists it once, and comes after it.\<close>

definition tree_edge :: "executor \<Rightarrow> nat \<Rightarrow> nat \<Rightarrow> bool" where
  "tree_edge ex i c \<longleftrightarrow> i < c \<and> c < length (ex_nodes ex) \<and> nd_parents (ex_nodes ex ! c) = [i] \<and>
     (\<exists>op. nd_operator (ex_nodes ex ! c) = Some op \<and> (\<forall>j. op \<noteq> JoinOp j))"

definition tree :: "executor \<Rightarrow> bool" where
  "tree ex \<longleftrightarrow> (\<forall>i<length (ex_nodes ex). distinct (nd_children (ex_nodes ex ! i)) \<and>
     (\<forall>c\<in>set (nd_children (ex_nodes ex ! i)). tree_edge ex i c))"

inductive path :: "executor \<Rightarrow> nat \<Rightarrow> nat \<Rightarrow> operator_type list \<Rightarrow> bool" for ex where
  path_refl: "path ex v v []"
| path_step: "c \<in> set (nd_children (ex_nodes ex ! u)) \<Longrightarrow> nd_operator (ex_nodes ex ! c) = Some op \<Longrightarrow> path ex c v ops \<Longrightarrow> path ex u v (op # ops)"

definition state_of :: "executor \<Rightarrow> nat \<Rightarrow> memory_state option" where
  "state_of ex v = nd_state (ex_nodes ex ! v)"

definition op_of :: "executor \<Rightarrow> nat \<Rightarrow> operator_type option" where
  "op_of ex v = nd_operator (ex_nodes ex ! v)"

text \<open>Executors that differ in the rows of their states and in the groups of their aggregates only.\<close>

definition same_shape :: "executor \<Rightarrow> executor \<Rightarrow> bool" where
  "same_shape ex ex' \<longleftrightarrow> length (ex_nodes ex') = length (ex_nodes ex) \<and> ex_base_tables ex' = ex_base_tables ex \<and>
     (\<forall>i<length (ex_nodes ex). map_option op_shape (op_of ex' i) = map_option op_shape (op_of ex i) \<and>
        nd_parents (ex_nodes ex' ! i) = nd_parents (ex_nodes ex ! i) \<and> nd_children (ex_nodes ex' ! i) = nd_children (ex_nodes ex ! i) \<and>
        map_option ms_key_columns (state_of ex' i) = map_option ms_key_columns (state_of ex i))"

abbreviation children :: "executor \<Rightarrow> nat \<Rightarrow> nat list" where
  "children ex u \<equiv> nd_children (ex_nodes ex ! u)"

lemma tree_edgeD:
  assumes "tree ex" "c \<in> set (children ex u)" "u < length (ex_nodes ex)"
  shows "tree_edge ex u c"
  using assms unfolding tree_def by blast

lemma treeD:
  assumes "tree ex" "c \<in> set (children ex u)" "u < length (ex_nodes ex)"
  shows "u < c" "c < length (ex_nodes ex)" "nd_parents (ex_nodes ex ! c) = [u]" "\<exists>op. nd_operator (ex_nodes ex ! c) = Some op \<and> (\<forall>j. op \<noteq> JoinOp j)"
  using tree_edgeD [OF assms] unfolding tree_edge_def by blast+

lemma tree_distinct: "tree ex \<Longrightarrow> u < length (ex_nodes ex) \<Longrightarrow> distinct (children ex u)"
  unfolding tree_def by blast

lemma path_range: "path ex u v ops \<Longrightarrow> tree ex \<Longrightarrow> u < length (ex_nodes ex) \<Longrightarrow> u \<le> v \<and> v < length (ex_nodes ex)"
proof (induction rule: path.induct)
  case (path_step c u op v ops)
  then show ?case using treeD(1,2) [OF path_step.prems(1) path_step.hyps(1) path_step.prems(2)] by simp
qed simp

lemma path_parent:
  assumes "path ex u v ops" "u \<noteq> v" "tree ex" "u < length (ex_nodes ex)"
  shows "\<exists>p ops'. path ex u p ops' \<and> p < length (ex_nodes ex) \<and> v \<in> set (children ex p)"
  using assms
proof (induction rule: path.induct)
  case (path_step c u op v ops)
  show ?case
  proof (cases "c = v")
    case True
    show ?thesis by (rule exI [of _ u], rule exI [of _ "[]"]) (use True path_step.hyps(1) path_step.prems(3) path_refl in simp)
  next
    case False
    obtain p ops' where p: "path ex c p ops'" "p < length (ex_nodes ex)" "v \<in> set (children ex p)"
      using path_step.IH [OF False path_step.prems(2) treeD(2) [OF path_step.prems(2) path_step.hyps(1) path_step.prems(3)]] by (elim exE conjE)
    show ?thesis by (rule exI [of _ p], rule exI [of _ "op # ops'"]) (intro conjI path.path_step [OF path_step.hyps(1,2) p(1)] p(2,3))
  qed
qed simp

lemma path_linear:
  assumes "tree ex" "c < length (ex_nodes ex)" "c' < length (ex_nodes ex)" "path ex c v ops" "path ex c' v ops'"
  shows "(\<exists>o1. path ex c c' o1) \<or> (\<exists>o1. path ex c' c o1)"
  using assms(4,5)
proof (induction v arbitrary: ops ops' rule: less_induct)
  case (less v)
  show ?case
  proof (cases "c = v \<or> c' = v")
    case False
    obtain p o1 where p: "path ex c p o1" "p < length (ex_nodes ex)" "v \<in> set (children ex p)"
      using path_parent [OF less.prems(1)] False assms by blast
    obtain p' o2 where p': "path ex c' p' o2" "p' < length (ex_nodes ex)" "v \<in> set (children ex p')"
      using path_parent [OF less.prems(2)] False assms by blast
    have "p = p'" using treeD(3) [OF assms(1) p(3,2)] treeD(3) [OF assms(1) p'(3,2)] by simp
    then show ?thesis using less.IH [OF _ p(1)] p'(1) treeD(1) [OF assms(1) p(3,2)] by blast
  qed (use less.prems in blast)
qed

lemma sibling_no_path:
  assumes "tree ex" "u < length (ex_nodes ex)" "c \<in> set (children ex u)" "c' \<in> set (children ex u)" "path ex c c' ops"
  shows "c = c'"
proof (rule ccontr)
  assume "c \<noteq> c'"
  then obtain p ops' where p: "path ex c p ops'" "p < length (ex_nodes ex)" "c' \<in> set (children ex p)"
    using path_parent [OF assms(5)] assms treeD(2) by blast
  then have "p = u" using treeD(3) [OF assms(1) p(3,2)] treeD(3) [OF assms(1,4,2)] by simp
  then show False using path_range [OF p(1) assms(1)] treeD(1,2) [OF assms(1,3,2)] by simp
qed

lemma subtrees_disjoint:
  assumes "tree ex" "u < length (ex_nodes ex)" "c \<in> set (children ex u)" "c' \<in> set (children ex u)" "path ex c v ops" "path ex c' v ops'"
  shows "c = c'"
  using path_linear [OF assms(1) _ _ assms(5,6)] treeD(2) [OF assms(1) _ assms(2)] sibling_no_path [OF assms(1,2)] assms(3,4) by metis

section \<open>Propagation\<close>

lemma same_shape_refl [simp]: "same_shape ex ex"
  by (simp add: same_shape_def)

lemma same_shapeD:
  assumes "same_shape ex ex'" "i < length (ex_nodes ex)"
  shows "children ex' i = children ex i" "map_option op_shape (op_of ex' i) = map_option op_shape (op_of ex i)"
    "nd_parents (ex_nodes ex' ! i) = nd_parents (ex_nodes ex ! i)"
    "map_option ms_key_columns (state_of ex' i) = map_option ms_key_columns (state_of ex i)"
    "length (ex_nodes ex') = length (ex_nodes ex)"
  using assms by (simp_all add: same_shape_def)

lemma same_shape_trans: "same_shape g ex \<Longrightarrow> same_shape ex ex' \<Longrightarrow> same_shape g ex'"
  unfolding same_shape_def by simp

definition below :: "executor \<Rightarrow> nat \<Rightarrow> nat \<Rightarrow> bool" where
  "below g u v \<longleftrightarrow> (\<exists>ops. path g u v ops)"

abbreviation op_at :: "executor \<Rightarrow> nat \<Rightarrow> operator_type" where
  "op_at g c \<equiv> the (nd_operator (ex_nodes g ! c))"

definition same_node :: "executor \<Rightarrow> executor \<Rightarrow> nat \<Rightarrow> bool" where
  "same_node ex ex' v \<longleftrightarrow> state_of ex' v = state_of ex v \<and> op_of ex' v = op_of ex v"

text \<open>Each state below a node holds its query over the rows of that node, and so do the groups of aggregates.\<close>

definition state_holds :: "executor \<Rightarrow> nat \<Rightarrow> row multiset \<Rightarrow> bool" where
  "state_holds ex v M \<longleftrightarrow> (\<forall>s. state_of ex v = Some s \<longrightarrow> represents s M)"

definition op_holds :: "executor \<Rightarrow> nat \<Rightarrow> row multiset \<Rightarrow> bool" where
  "op_holds ex c M \<longleftrightarrow> (\<forall>op. op_of ex c = Some op \<longrightarrow> op_keeps op M)"

definition maintained :: "executor \<Rightarrow> executor \<Rightarrow> nat \<Rightarrow> row multiset \<Rightarrow> bool" where
  "maintained g ex u M \<longleftrightarrow> (\<forall>v ops. path g u v ops \<longrightarrow> state_holds ex v (query_rows ops M) \<and>
     (\<forall>c\<in>set (children g v). op_holds ex c (query_rows ops M)))"

definition kept :: "executor \<Rightarrow> executor \<Rightarrow> nat \<Rightarrow> row multiset \<Rightarrow> bool" where
  "kept g ex c M \<longleftrightarrow> op_holds ex c M \<and> maintained g ex c (op_query (op_at g c) M)"

text \<open>Every operator and every state uses columns that are there, and operators emit the columns of their node.\<close>

abbreviation ncols :: "executor \<Rightarrow> nat \<Rightarrow> nat" where
  "ncols g i \<equiv> length (nd_columns (ex_nodes g ! i))"

definition columns_ok :: "executor \<Rightarrow> bool" where
  "columns_ok g \<longleftrightarrow> (\<forall>i<length (ex_nodes g).
     (\<forall>s. state_of g i = Some s \<longrightarrow> list_all (\<lambda>c. c < ncols g i) (ms_key_columns s)) \<and>
     (\<forall>c\<in>set (children g i). op_fits (ncols g i) (op_at g c) \<and> op_width (op_at g c) (ncols g i) = ncols g c))"

abbreviation has_width :: "nat \<Rightarrow> dataflow_record list \<Rightarrow> bool" where
  "has_width n recs \<equiv> \<forall>rec\<in>set recs. length (record_row rec) = n"

lemma below_refl [simp]: "below g u u"
  unfolding below_def using path_refl by blast

lemma operator_at:
  assumes "tree g" "u < length (ex_nodes g)" "c \<in> set (children g u)"
  shows "nd_operator (ex_nodes g ! c) = Some (op_at g c)"
  using treeD(4) [OF assms(1,3,2)] by force

lemma path_child:
  assumes "tree g" "u < length (ex_nodes g)" "c \<in> set (children g u)" "path g c v ops"
  shows "path g u v (op_at g c # ops)"
  using path_step [OF assms(3) operator_at [OF assms(1-3)] assms(4)] .

lemma path_extend:
  assumes "tree g" "path g u v ops" "u < length (ex_nodes g)" "c \<in> set (children g v)"
  shows "path g u c (ops @ [op_at g c])"
  using assms(2,1,3,4)
proof (induction rule: path.induct)
  case (path_refl v)
  then show ?case using path_child [OF path_refl(1,2,3) path.path_refl] by simp
next
  case (path_step d u op v ops)
  then show ?case using path.path_step [OF path_step.hyps(1,2)] treeD(2) [OF path_step.prems(1) path_step.hyps(1) path_step.prems(2)] by simp
qed

lemma below_child:
  assumes "tree g" "u < length (ex_nodes g)" "below g u v" "c \<in> set (children g v)"
  shows "below g u c"
  using assms path_extend unfolding below_def by blast

lemma holds_cong:
  "same_node ex ex' v \<Longrightarrow> state_holds ex' v M = state_holds ex v M"
  "same_node ex ex' v \<Longrightarrow> op_holds ex' v M = op_holds ex v M"
  by (simp_all add: same_node_def state_holds_def op_holds_def)

lemma same_node_refl [simp]: "same_node ex ex v"
  by (simp add: same_node_def)

lemma same_node_trans: "same_node ex e1 v \<Longrightarrow> same_node e1 e2 v \<Longrightarrow> same_node ex e2 v"
  by (simp add: same_node_def)

lemma maintained_cong:
  assumes "tree g" "u < length (ex_nodes g)" "maintained g ex u M"
    and "state_of ex' u = state_of ex u" "\<And>v. below g u v \<Longrightarrow> v \<noteq> u \<Longrightarrow> same_node ex ex' v"
  shows "maintained g ex' u M"
  unfolding maintained_def
proof (intro allI impI conjI ballI)
  fix v ops assume p: "path g u v ops"
  have m: "state_holds ex v (query_rows ops M)" "\<And>c. c \<in> set (children g v) \<Longrightarrow> op_holds ex c (query_rows ops M)"
    using assms(3) p unfolding maintained_def by blast+
  have b: "below g u v" using p unfolding below_def by blast
  show "state_holds ex' v (query_rows ops M)"
    using m(1) assms(4) assms(5) [OF b] holds_cong(1) by (cases "v = u") (simp_all add: state_holds_def)
  fix c assume c: "c \<in> set (children g v)"
  have "u \<noteq> c" using path_range [OF p assms(1,2)] treeD(1) [OF assms(1) c] by auto
  then show "op_holds ex' c (query_rows ops M)" using m(2) [OF c] holds_cong(2) assms(5) [OF below_child [OF assms(1,2) b c]] by blast
qed

lemma kept_cong:
  assumes "tree g" "c < length (ex_nodes g)" "kept g ex c M" "\<And>v. below g c v \<Longrightarrow> same_node ex ex' v"
  shows "kept g ex' c M"
proof -
  have n: "same_node ex ex' c" using assms(4) by simp
  have "state_of ex' c = state_of ex c" using n by (simp add: same_node_def)
  then have "maintained g ex' c (op_query (op_at g c) M)"
    using maintained_cong [OF assms(1,2)] assms(3,4) unfolding kept_def by blast
  then show ?thesis using assms(3) holds_cong(2) [OF n] by (simp add: kept_def)
qed

lemma kept_child:
  assumes "tree g" "u < length (ex_nodes g)" "c \<in> set (children g u)" "maintained g ex u M"
  shows "kept g ex c M"
proof -
  have "op_holds ex c M" using assms(3,4) path_refl [of g u] unfolding maintained_def query_rows_def by fastforce
  moreover have "maintained g ex c (op_query (op_at g c) M)"
    unfolding maintained_def
  proof (intro allI impI)
    fix v ops assume "path g c v ops"
    then have "state_holds ex v (query_rows (op_at g c # ops) M) \<and> (\<forall>d\<in>set (children g v). op_holds ex d (query_rows (op_at g c # ops) M))"
      using assms(4) path_child [OF assms(1-3)] unfolding maintained_def by blast
    then show "state_holds ex v (query_rows ops (op_query (op_at g c) M)) \<and> (\<forall>d\<in>set (children g v). op_holds ex d (query_rows ops (op_query (op_at g c) M)))"
      by (simp add: query_rows_def)
  qed
  ultimately show ?thesis by (simp add: kept_def)
qed

lemma columns_okD:
  assumes "columns_ok g" "i < length (ex_nodes g)"
  shows "state_of g i = Some s \<Longrightarrow> list_all (\<lambda>c. c < ncols g i) (ms_key_columns s)"
    "c \<in> set (children g i) \<Longrightarrow> op_fits (ncols g i) (op_at g c)" "c \<in> set (children g i) \<Longrightarrow> op_width (op_at g c) (ncols g i) = ncols g c"
  using assms unfolding columns_ok_def by blast+

text \<open>What an operator does to the records of its parent, by its contract.\<close>

lemma child_output_step:
  assumes "tree g" "u < length (ex_nodes g)" "c \<in> set (children g u)" "columns_ok g" "has_width (ncols g u) recs"
    and "same_shape g ex" "valid_change recs M" "kept g ex c M" "\<forall>ks. mset (order c ks) = mset ks"
  shows "\<exists>out ex'. child_output order ex u c recs = Some (out, ex') \<and> same_shape g ex' \<and> op_holds ex' c (apply_records recs M) \<and>
    maintained g ex' c (op_query (op_at g c) M) \<and> (\<forall>v. v \<noteq> c \<longrightarrow> same_node ex ex' v) \<and>
    has_width (ncols g c) out \<and> valid_change out (op_query (op_at g c) M) \<and>
    apply_records out (op_query (op_at g c) M) = op_query (op_at g c) (apply_records recs M)"
proof -
  have c: "c < length (ex_nodes g)" by (rule treeD(2) [OF assms(1,3,2)])
  note d = same_shapeD [OF assms(6) c]
  have g: "op_of g c = Some (op_at g c)" using operator_at [OF assms(1-3)] by (simp add: op_of_def)
  then obtain op where op: "op_of ex c = Some op" "op_shape op = op_shape (op_at g c)" using d(2) by auto
  have "operating (order c) (ncols g u) (op_at g c) op M"
    using assms(8,9) op columns_okD(2) [OF assms(4,2,3)] by (simp add: operating_def kept_def op_holds_def)
  from one_input.step_maintains [OF this assms(7,5), of 0 "state_of ex c"] obtain out op' where
    o: "process_op (order c) op 0 recs (state_of ex c) = Some (out, op')" "operating (order c) (ncols g u) (op_at g c) op' (apply_records recs M)"
    "has_width (ncols g c) out" "valid_change out (op_query (op_at g c) M)"
    "apply_records out (op_query (op_at g c) M) = op_query (op_at g c) (apply_records recs M)"
    unfolding columns_okD(3) [OF assms(4,2,3)] by blast
  let ?ex = "ex\<lparr>ex_nodes := (ex_nodes ex)[c := (ex_nodes ex ! c)\<lparr>nd_operator := Some op'\<rparr>]\<rparr>"
  have co: "child_output order ex u c recs = Some (out, ?ex)"
    using op(1) o(1) d(3) treeD(3) [OF assms(1,3,2)] by (simp add: child_output_def op_of_def state_of_def)
  have l: "c < length (ex_nodes ex)" using c d(5) by simp
  have st: "state_of ?ex v = state_of ex v" "op_of ?ex v = (if v = c then Some op' else op_of ex v)" for v
    using l by (simp_all add: state_of_def op_of_def nth_list_update)
  have "same_shape ex ?ex"
    using l op o(2) unfolding same_shape_def st operating_def by (simp add: nth_list_update)
  then have "same_shape g ?ex" by (rule same_shape_trans [OF assms(6)])
  moreover have "maintained g ?ex c (op_query (op_at g c) M)"
    by (rule maintained_cong [OF assms(1) c, of ex]) (use assms(8) st in \<open>simp_all add: kept_def same_node_def\<close>)
  moreover have "op_holds ?ex c (apply_records recs M)" using o(2) st by (simp add: op_holds_def operating_def)
  ultimately show ?thesis using co o(3-5) st by (auto simp: same_node_def)
qed

text \<open>What propagation from a node does: the states below it are maintained, the others keep.\<close>

definition propagated :: "executor \<Rightarrow> nat \<Rightarrow> row multiset \<Rightarrow> executor \<Rightarrow> executor \<Rightarrow> bool" where
  "propagated g u M ex ex' \<longleftrightarrow> same_shape g ex' \<and> maintained g ex' u M \<and> op_of ex' u = op_of ex u \<and>
     (\<forall>v. \<not> below g u v \<longrightarrow> same_node ex ex' v)"

lemma below_disjoint:
  assumes "tree g" "u < length (ex_nodes g)" "c \<in> set (children g u)" "c' \<in> set (children g u)" "below g c v" "below g c' v"
  shows "c = c'"
  using subtrees_disjoint [OF assms(1-4)] assms(5,6) unfolding below_def by blast

lemma propagate_children_step:
  assumes tree: "tree g" "u < length (ex_nodes g)"
    and step: "\<And>c ex. c \<in> set (children g u) \<Longrightarrow> same_shape g ex \<Longrightarrow> kept g ex c M \<Longrightarrow>
      \<exists>out e1 ex'. child_output order ex u c recs = Some (out, e1) \<and> propagate fuel order c out e1 = Some ex' \<and>
        same_shape g ex' \<and> kept g ex' c N \<and> (\<forall>v. \<not> below g c v \<longrightarrow> same_node ex ex' v)"
    and cs: "set cs \<subseteq> set (children g u)" "distinct cs"
    and ex: "same_shape g ex" "\<forall>c\<in>set cs. kept g ex c M"
  shows "\<exists>ex'. propagate_children fuel order u recs cs ex = Some ex' \<and> same_shape g ex' \<and> (\<forall>c\<in>set cs. kept g ex' c N) \<and>
    (\<forall>v. (\<forall>c\<in>set cs. \<not> below g c v) \<longrightarrow> same_node ex ex' v)"
  using cs ex
proof (induction cs arbitrary: ex)
  case (Cons c cs)
  have c: "c \<in> set (children g u)" using Cons.prems(1) by simp
  obtain out e0 e1 where e1: "child_output order ex u c recs = Some (out, e0)" "propagate fuel order c out e0 = Some e1"
    "same_shape g e1" "kept g e1 c N" "\<And>v. \<not> below g c v \<Longrightarrow> same_node ex e1 v"
    using step [OF c Cons.prems(3)] Cons.prems(4) by auto
  have other: "\<not> below g c v" if "c' \<in> set cs" "below g c' v" for c' v
  proof
    assume "below g c v"
    then have "c = c'" using below_disjoint [OF tree c _ _ that(2)] that(1) Cons.prems(1) by auto
    then show False using that(1) Cons.prems(2) by simp
  qed
  have "kept g e1 c' M" if "c' \<in> set cs" for c'
    by (rule kept_cong [OF tree(1), of c' ex])
      (use treeD(2) [OF tree(1) _ tree(2), of c'] e1(5) other [OF that] Cons.prems(1,4) that in auto)
  then obtain e2 where e2: "propagate_children fuel order u recs cs e1 = Some e2" "same_shape g e2"
    "\<forall>c\<in>set cs. kept g e2 c N" "\<forall>v. (\<forall>c\<in>set cs. \<not> below g c v) \<longrightarrow> same_node e1 e2 v"
    using Cons.IH [of e1] Cons.prems(1,2) e1(3) by auto
  have "kept g e2 c N"
    by (rule kept_cong [OF tree(1) treeD(2) [OF tree(1) c tree(2)] e1(4)]) (use e2(4) other in blast)
  moreover have "propagate_children fuel order u recs (c # cs) ex = Some e2" using e1(1,2) e2(1) by simp
  moreover have "same_node ex e2 v" if "\<forall>c\<in>set (c # cs). \<not> below g c v" for v
    using same_node_trans [OF e1(5)] e2(4) that by simp
  ultimately show ?case using e2(2,3) by (intro exI [of _ e2]) simp
qed (simp add: same_node_def)

lemma update_state_maintained:
  assumes "u < length (ex_nodes g)" "same_shape g ex" "columns_ok g" "has_width (ncols g u) recs" "valid_change recs M" "state_holds ex u M"
  shows "\<exists>ex'. update_state u recs ex = Some ex' \<and> same_shape g ex' \<and> (\<forall>v. v \<noteq> u \<longrightarrow> same_node ex ex' v) \<and>
    op_of ex' u = op_of ex u \<and> state_holds ex' u (apply_records recs M)"
proof (cases "state_of ex u")
  case None
  then show ?thesis using assms(2) by (simp add: update_state_def state_of_def state_holds_def)
next
  case (Some s)
  have r: "represents s M" using assms(6) Some by (simp add: state_holds_def)
  obtain s0 where s0: "state_of g u = Some s0" "ms_key_columns s0 = ms_key_columns s"
    using same_shapeD(4) [OF assms(2,1)] Some by (cases "state_of g u") auto
  have "\<forall>rec\<in>set recs. from_row (record_row rec) (ms_key_columns s) \<noteq> None"
    using columns_okD(1) [OF assms(3,1) s0(1)] s0(2) assms(4) from_row_fits by metis
  from process_represents [OF r valid_changeD [OF assms(5)] this] obtain s' where
    s': "process_records recs s = Some s'" "represents s' (apply_records recs M)" "ms_key_columns s' = ms_key_columns s" by blast
  let ?ex = "ex\<lparr>ex_nodes := (ex_nodes ex)[u := (ex_nodes ex ! u)\<lparr>nd_state := Some s'\<rparr>]\<rparr>"
  have l: "u < length (ex_nodes ex)" using assms(1) same_shapeD(5) [OF assms(2,1)] by simp
  have u: "update_state u recs ex = Some ?ex" using Some s'(1) by (simp add: update_state_def state_of_def)
  have st: "state_of ?ex v = (if v = u then Some s' else state_of ex v)" "op_of ?ex v = op_of ex v" for v
    using l by (simp_all add: state_of_def op_of_def nth_list_update)
  have "same_shape ex ?ex"
    using l Some s'(3) unfolding same_shape_def st by (simp add: nth_list_update)
  then have "same_shape g ?ex" by (rule same_shape_trans [OF assms(2)])
  then show ?thesis using u st s'(2) by (simp add: same_node_def state_holds_def)
qed

lemma not_below_child:
  assumes "tree g" "u < length (ex_nodes g)" "c \<in> set (children g u)"
  shows "\<not> below g c u"
  using path_range [OF _ assms(1) treeD(2) [OF assms(1,3,2)]] treeD(1) [OF assms(1,3,2)] unfolding below_def by force

lemma below_cases:
  assumes "tree g" "u < length (ex_nodes g)" "path g u v ops"
  obtains "v = u" "ops = []" | c ops' where "c \<in> set (children g u)" "path g c v ops'" "ops = op_at g c # ops'"
  using assms(3)
proof cases
  case (path_step c op ops')
  then show ?thesis using that(2) [of c ops'] by simp
qed (use that(1) in simp)

lemma maintained_node:
  assumes "tree g" "u < length (ex_nodes g)" "state_holds ex u M" "\<forall>c\<in>set (children g u). kept g ex c M"
  shows "maintained g ex u M"
  unfolding maintained_def
proof (intro allI impI)
  fix v ops assume p: "path g u v ops"
  show "state_holds ex v (query_rows ops M) \<and> (\<forall>c\<in>set (children g v). op_holds ex c (query_rows ops M))"
    by (rule below_cases [OF assms(1,2) p]) (use assms(3,4) in \<open>auto simp: query_rows_def kept_def maintained_def\<close>)
qed

lemma propagate_maintains:
  assumes "tree g" "columns_ok g" "\<forall>c ks. mset (order c ks) = mset ks"
    and "u < length (ex_nodes g)" "length (ex_nodes g) - u \<le> fuel" "has_width (ncols g u) recs" "valid_change recs M"
    "same_shape g ex" "maintained g ex u M"
  shows "\<exists>ex'. propagate fuel order u recs ex = Some ex' \<and> propagated g u (apply_records recs M) ex ex'"
  using assms(4-)
proof (induction fuel arbitrary: u recs M ex)
  case (Suc fuel)
  let ?N = "apply_records recs M"
  show ?case
  proof (cases "recs = []")
    case True
    then show ?thesis using Suc.prems by (simp add: propagated_def apply_records_def)
  next
    case False
    have "state_holds ex u M" using Suc.prems(6) path_refl [of g u] unfolding maintained_def query_rows_def by fastforce
    from update_state_maintained [OF Suc.prems(1,5) assms(2) Suc.prems(3,4) this] obtain e1 where e1: "update_state u recs ex = Some e1" "same_shape g e1"
      "\<forall>v. v \<noteq> u \<longrightarrow> same_node ex e1 v" "op_of e1 u = op_of ex u" "state_holds e1 u ?N" by blast
    have step: "\<exists>out e0 e'. child_output order e u c recs = Some (out, e0) \<and> propagate fuel order c out e0 = Some e' \<and>
        same_shape g e' \<and> kept g e' c ?N \<and> (\<forall>v. \<not> below g c v \<longrightarrow> same_node e e' v)"
      if c: "c \<in> set (children g u)" and e: "same_shape g e" "kept g e c M" for c e
    proof -
      have "\<forall>ks. mset (order c ks) = mset ks" using assms(3) by blast
      from child_output_step [where order = order, OF assms(1) Suc.prems(1) c assms(2) Suc.prems(3) e(1) Suc.prems(4) e(2) this] obtain out e0 where
        e0: "child_output order e u c recs = Some (out, e0)" "same_shape g e0" "op_holds e0 c ?N" "maintained g e0 c (op_query (op_at g c) M)"
        "\<forall>v. v \<noteq> c \<longrightarrow> same_node e e0 v" "has_width (ncols g c) out" "valid_change out (op_query (op_at g c) M)"
        "apply_records out (op_query (op_at g c) M) = op_query (op_at g c) ?N" by blast
      note d = treeD(1,2) [OF assms(1) c Suc.prems(1)]
      have "length (ex_nodes g) - c \<le> fuel" using d Suc.prems(2) by simp
      from Suc.IH [OF d(2) this e0(6,7,2,4)] obtain e' where
        e': "propagate fuel order c out e0 = Some e'" "propagated g c (op_query (op_at g c) ?N) e0 e'" using e0(8) by auto
      have "kept g e' c ?N" using e'(2) e0(3) by (simp add: kept_def propagated_def op_holds_def)
      moreover have "same_node e e' v" if "\<not> below g c v" for v
        using same_node_trans [of e e0 v e'] e0(5) e'(2) that by (cases "v = c") (simp_all add: propagated_def)
      ultimately show ?thesis using e0(1) e' by (auto simp: propagated_def)
    qed
    have k: "\<forall>c\<in>set (children g u). kept g e1 c M"
    proof
      fix c assume c: "c \<in> set (children g u)"
      show "kept g e1 c M"
        by (rule kept_cong [OF assms(1) treeD(2) [OF assms(1) c Suc.prems(1)] kept_child [OF assms(1) Suc.prems(1) c Suc.prems(6)]])
          (use not_below_child [OF assms(1) Suc.prems(1) c] e1(3) in metis)
    qed
    from propagate_children_step [OF assms(1) Suc.prems(1) step subset_refl tree_distinct [OF assms(1) Suc.prems(1)] e1(2) k]
    obtain e2 where e2: "propagate_children fuel order u recs (children g u) e1 = Some e2" "same_shape g e2"
      "\<forall>c\<in>set (children g u). kept g e2 c ?N" "\<forall>v. (\<forall>c\<in>set (children g u). \<not> below g c v) \<longrightarrow> same_node e1 e2 v" by blast
    have u2: "same_node e1 e2 u" using e2(4) not_below_child [OF assms(1) Suc.prems(1)] by blast
    then have m: "maintained g e2 u ?N" using maintained_node [OF assms(1) Suc.prems(1) _ e2(3)] e1(5) holds_cong(1) by blast
    have "same_node ex e2 v" if "\<not> below g u v" for v
    proof -
      have "\<forall>c\<in>set (children g u). \<not> below g c v" using that path_child [OF assms(1) Suc.prems(1)] unfolding below_def by blast
      moreover have "v \<noteq> u" using that by auto
      ultimately show ?thesis using same_node_trans e2(4) e1(3) by blast
    qed
    moreover have "propagate (Suc fuel) order u recs ex = Some e2"
      using False e1(1) e2(1) same_shapeD(1) [OF e1(2) Suc.prems(1)] by simp
    moreover have "op_of e2 u = op_of ex u" using u2 e1(4) by (simp add: same_node_def)
    ultimately show ?thesis using e2(2) m by (simp add: propagated_def)
  qed
qed simp

section \<open>Building a graph\<close>

text \<open>The calls that build a graph of operators with one input.\<close>

datatype build_call = AddBaseTable bytes "bytes list" | AddOperator operator_type nat "bytes list" | Materialize nat "nat list"

fun build_step :: "build_call \<Rightarrow> executor \<Rightarrow> executor option" where
  "build_step (AddBaseTable name cols) ex = Some (snd (add_base_table name cols ex))"
| "build_step (AddOperator op parent cols) ex = map_option snd (add_operator op [parent] cols ex)"
| "build_step (Materialize nd key_columns) ex = map_option snd (materialize nd key_columns ex)"

fun build :: "build_call list \<Rightarrow> executor \<Rightarrow> executor option" where
  "build [] ex = Some ex"
| "build (st # sts) ex = do { ex \<leftarrow> build_step st ex; build sts ex }"

text \<open>No joins, and aggregates that have not seen a row.\<close>

fun one_input :: "build_call \<Rightarrow> bool" where
  "one_input (AddOperator op parent cols) = (op_shape op = op \<and> (\<forall>j. op \<noteq> JoinOp j))"
| "one_input _ = True"

lemma treeI:
  assumes "\<And>i. i < length (ex_nodes ex) \<Longrightarrow> distinct (children ex i)"
    "\<And>i c. i < length (ex_nodes ex) \<Longrightarrow> c \<in> set (children ex i) \<Longrightarrow> tree_edge ex i c"
  shows "tree ex"
  using assms unfolding tree_def by blast

lemma tree_add_base:
  assumes "tree ex"
  shows "tree (snd (add_base_table name cols ex))"
proof -
  let ?ex = "snd (add_base_table name cols ex)" and ?n = "length (ex_nodes ex)"
  have l: "length (ex_nodes ?ex) = Suc ?n" by (simp add: add_base_table_def)
  have old: "ex_nodes ?ex ! j = ex_nodes ex ! j" if "j < ?n" for j using that by (simp add: add_base_table_def nth_append)
  have new: "children ?ex ?n = []" by (simp add: add_base_table_def)
  show ?thesis
  proof (rule treeI)
    fix i assume i: "i < length (ex_nodes ?ex)"
    show "distinct (children ?ex i)"
      using i l old [of i] new tree_distinct [OF assms, of i] by (cases "i < ?n") (simp_all add: less_Suc_eq)
    fix c assume c: "c \<in> set (children ?ex i)"
    then have i': "i < ?n" using i l new by (cases "i = ?n") simp_all
    then have c': "c \<in> set (children ex i)" using c old by simp
    note e = tree_edgeD [OF assms c' i']
    then have "c < ?n" by (simp add: tree_edge_def)
    then show "tree_edge ?ex i c" using e l old [of c] by (simp add: tree_edge_def)
  qed
qed

lemma tree_materialize:
  assumes "tree ex" "materialize nd key_columns ex = Some (view, ex')"
  shows "tree ex'"
proof -
  have nd: "nd < length (ex_nodes ex)" and e: "ex' = ex\<lparr>ex_nodes := (ex_nodes ex)[nd := (ex_nodes ex ! nd)\<lparr>nd_state := Some (MemoryState_new key_columns)\<rparr>]\<rparr>"
    using assms(2) by (simp_all add: materialize_def split: if_splits)
  have n: "children ex' i = children ex i" "nd_parents (ex_nodes ex' ! i) = nd_parents (ex_nodes ex ! i)"
    "nd_operator (ex_nodes ex' ! i) = nd_operator (ex_nodes ex ! i)" for i
    using nd by (simp_all add: e nth_list_update)
  have l: "length (ex_nodes ex') = length (ex_nodes ex)" by (simp add: e)
  show ?thesis using assms(1) unfolding tree_def tree_edge_def n l .
qed

lemma tree_add_operator:
  assumes "tree ex" "add_operator op [parent] cols ex = Some (idx, ex')" "\<forall>j. op \<noteq> JoinOp j"
  shows "tree ex'"
proof -
  let ?n = "length (ex_nodes ex)"
  have p: "parent < ?n" and e: "ex_nodes ex' = add_child ?n parent (ex_nodes ex) @ [\<lparr>nd_operator = Some op, nd_parents = [parent], nd_children = [], nd_state = None, nd_columns = cols\<rparr>]"
    using assms(2) by (auto simp: add_operator_def Let_def split: if_splits)
  have l: "length (ex_nodes ex') = Suc ?n" by (simp add: e add_child_def)
  have keep: "nd_parents (ex_nodes ex' ! j) = nd_parents (ex_nodes ex ! j)" "nd_operator (ex_nodes ex' ! j) = nd_operator (ex_nodes ex ! j)" if "j < ?n" for j
    using that p by (simp_all add: e add_child_def nth_append nth_list_update)
  have ch: "children ex' j = children ex j @ (if j = parent then [?n] else [])" if "j < ?n" for j
    using that p by (simp add: e add_child_def nth_append nth_list_update)
  have new: "ex_nodes ex' ! ?n = \<lparr>nd_operator = Some op, nd_parents = [parent], nd_children = [], nd_state = None, nd_columns = cols\<rparr>"
    by (simp add: e add_child_def nth_append)
  show ?thesis
  proof (rule treeI)
    fix i assume i: "i < length (ex_nodes ex')"
    have "?n \<notin> set (children ex i)" if "i < ?n" using treeD(2) [OF assms(1) _ that, of ?n] by blast
    then show "distinct (children ex' i)"
      using i l ch [of i] new tree_distinct [OF assms(1), of i] by (cases "i < ?n") (auto simp: less_Suc_eq)
    fix c assume c: "c \<in> set (children ex' i)"
    then have i': "i < ?n" using i l new by (cases "i = ?n") simp_all
    show "tree_edge ex' i c"
    proof (cases "c \<in> set (children ex i)")
      case True
      note t = tree_edgeD [OF assms(1) True i']
      then have "c < ?n" by (simp add: tree_edge_def)
      then show ?thesis using t l keep [of c] by (simp add: tree_edge_def)
    next
      case False
      then have "c = ?n" "i = parent" using c ch [OF i'] by (simp_all split: if_splits)
      then show ?thesis using p l new assms(3) by (simp add: tree_edge_def)
    qed
  qed
qed

text \<open>A graph that has been built and not yet written to: a tree with empty states and aggregates.\<close>

definition built :: "executor \<Rightarrow> bool" where
  "built ex \<longleftrightarrow> tree ex \<and> (\<forall>t b. ex_base_tables ex t = Some b \<longrightarrow> b < length (ex_nodes ex)) \<and>
     (\<forall>v<length (ex_nodes ex). (\<forall>s. state_of ex v = Some s \<longrightarrow> s = MemoryState_new (ms_key_columns s)) \<and>
        (\<forall>op. op_of ex v = Some op \<longrightarrow> op_shape op = op))"

lemma built_new: "built LocalExecutor_new"
  by (simp add: built_def tree_def LocalExecutor_new_def)

lemma built_step:
  assumes "built ex" "build_step st ex = Some ex'" "one_input st"
  shows "built ex'"
proof (cases st)
  case (AddBaseTable name cols)
  then have e: "ex' = snd (add_base_table name cols ex)" using assms(2) by simp
  show ?thesis using tree_add_base [of ex name cols] assms(1) unfolding e built_def
    by (auto simp: add_base_table_def state_of_def op_of_def nth_append less_Suc_eq)
next
  case (AddOperator op parent cols)
  then obtain idx where a: "add_operator op [parent] cols ex = Some (idx, ex')" using assms(2) by auto
  have o: "\<forall>j. op \<noteq> JoinOp j" "op_shape op = op" using assms(3) AddOperator by auto
  with a have t: "tree ex'" using tree_add_operator assms(1) unfolding built_def by blast
  have e: "ex' = ex\<lparr>ex_nodes := add_child (length (ex_nodes ex)) parent (ex_nodes ex) @
      [\<lparr>nd_operator = Some op, nd_parents = [parent], nd_children = [], nd_state = None, nd_columns = cols\<rparr>]\<rparr>" and p: "parent < length (ex_nodes ex)"
    using a by (auto simp: add_operator_def Let_def split: if_splits)
  have "state_of ex' v = (if v < length (ex_nodes ex) then state_of ex v else None)" "op_of ex' v = (if v < length (ex_nodes ex) then op_of ex v else Some op)"
    if "v < length (ex_nodes ex')" for v
    using that p by (simp_all add: e state_of_def op_of_def add_child_def nth_append nth_list_update)
  moreover have "length (ex_nodes ex) \<le> length (ex_nodes ex')" "ex_base_tables ex' = ex_base_tables ex" by (simp_all add: e add_child_def)
  ultimately show ?thesis using t o(2) assms(1) unfolding built_def
    by (auto split: if_splits intro: less_le_trans [of _ "length (ex_nodes ex)"])
next
  case (Materialize nd key_columns)
  then obtain view where m: "materialize nd key_columns ex = Some (view, ex')" using assms(2) by auto
  then have t: "tree ex'" using tree_materialize assms(1) unfolding built_def by blast
  have e: "ex' = ex\<lparr>ex_nodes := (ex_nodes ex)[nd := (ex_nodes ex ! nd)\<lparr>nd_state := Some (MemoryState_new key_columns)\<rparr>]\<rparr>"
    using m by (simp add: materialize_def split: if_splits)
  have "state_of ex' v = (if v = nd then Some (MemoryState_new key_columns) else state_of ex v)" "op_of ex' v = op_of ex v"
    if "v < length (ex_nodes ex)" for v
    using that by (cases "nd = v"; simp add: e state_of_def op_of_def)+
  moreover have "length (ex_nodes ex') = length (ex_nodes ex)" "ex_base_tables ex' = ex_base_tables ex" by (simp_all add: e)
  ultimately show ?thesis using t assms(1) unfolding built_def by (auto simp: MemoryState_new_def split: if_splits)
qed

lemma build_built:
  assumes "built ex" "build sts ex = Some ex'" "list_all one_input sts"
  shows "built ex'"
  using assms
proof (induction sts arbitrary: ex)
  case (Cons st sts)
  then show ?case using built_step by (auto split: bind_splits)
qed simp

lemma built_maintained:
  assumes "built ex" "base < length (ex_nodes ex)"
  shows "maintained ex ex base {#}"
  unfolding maintained_def
proof (intro allI impI)
  fix v ops assume p: "path ex base v ops"
  have t: "tree ex" using assms(1) by (simp add: built_def)
  have v: "v < length (ex_nodes ex)" using path_range [OF p t assms(2)] by simp
  have fresh: "\<And>v s. v < length (ex_nodes ex) \<Longrightarrow> state_of ex v = Some s \<Longrightarrow> s = MemoryState_new (ms_key_columns s)"
    "\<And>v op. v < length (ex_nodes ex) \<Longrightarrow> op_of ex v = Some op \<Longrightarrow> op_shape op = op"
    using assms(1) unfolding built_def by blast+
  have "state_holds ex v {#}" unfolding state_holds_def using fresh(1) [OF v] represents_new by metis
  moreover have "op_holds ex c {#}" if "c \<in> set (children ex v)" for c
    unfolding op_holds_def using fresh(2) [OF treeD(2) [OF t that v]] op_keeps_empty by metis
  moreover have "query_rows ops {#} = {#}" by (induction ops) (simp_all add: query_rows_def)
  ultimately show "state_holds ex v (query_rows ops {#}) \<and> (\<forall>c\<in>set (children ex v). op_holds ex c (query_rows ops {#}))" by simp
qed

section \<open>Writes\<close>

text \<open>Batches of records, each with the order of the hash tables while it is written.\<close>

fun write_batches :: "bytes \<Rightarrow> (group_order \<times> dataflow_record list) list \<Rightarrow> executor \<Rightarrow> executor option" where
  "write_batches table [] ex = Some ex"
| "write_batches table ((order, recs) # batches) ex = do { ex \<leftarrow> apply_write order table recs ex; write_batches table batches ex }"

abbreviation arranging :: "group_order \<Rightarrow> bool" where
  "arranging order \<equiv> \<forall>c ks. mset (order c ks) = mset ks"

lemma apply_write_maintains:
  assumes "tree g" "ex_base_tables g table = Some base" "base < length (ex_nodes g)" "columns_ok g" "same_shape g ex"
    "maintained g ex base M" "valid_change recs M" "has_width (ncols g base) recs" "arranging order"
  shows "\<exists>ex'. apply_write order table recs ex = Some ex' \<and> same_shape g ex' \<and> maintained g ex' base (apply_records recs M)"
proof -
  have "ex_base_tables ex table = Some base" "length (ex_nodes ex) = length (ex_nodes g)"
    using assms(2,5) by (simp_all add: same_shape_def)
  moreover have "length (ex_nodes g) - base \<le> Suc (length (ex_nodes g))" by simp
  from propagate_maintains [OF assms(1,4,9,3) this assms(8,7,5,6)] obtain ex' where
    "propagate (Suc (length (ex_nodes g))) order base recs ex = Some ex'" "propagated g base (apply_records recs M) ex ex'" by blast
  ultimately show ?thesis by (simp add: apply_write_def propagated_def del: propagate.simps)
qed

lemma write_batches_maintain:
  assumes "tree g" "ex_base_tables g table = Some base" "base < length (ex_nodes g)" "columns_ok g" "same_shape g ex"
    "maintained g ex base M" "valid_batches (map snd batches) M"
    "\<forall>(order, recs)\<in>set batches. arranging order \<and> has_width (ncols g base) recs"
  shows "\<exists>ex'. write_batches table batches ex = Some ex' \<and> same_shape g ex' \<and> maintained g ex' base (table_rows (map snd batches) M)"
  using assms(5-)
proof (induction batches arbitrary: ex M)
  case (Cons b batches)
  obtain order recs where b: "b = (order, recs)" by fastforce
  obtain e1 where e1: "apply_write order table recs ex = Some e1" "same_shape g e1" "maintained g e1 base (apply_records recs M)"
    using apply_write_maintains [OF assms(1-4) Cons.prems(1,2), of recs order] Cons.prems(3,4) b by auto
  then show ?case using Cons.IH [of e1 "apply_records recs M"] Cons.prems(3,4) b by (simp add: table_rows_def)
qed (simp add: table_rows_def)

lemma lookup_maintained:
  assumes "state_of ex (vh_node view) = Some s" "represents s M"
  shows "mset (case lookup ex view key of Some rows \<Rightarrow> rows | None \<Rightarrow> []) = with_key (ms_key_columns s) (from_slice key) M"
  using lookup_represents [OF assms(2), of key] assms(1)
  by (auto simp: lookup_def state_of_def split: lookup_answer.splits)

lemma built_views:
  assumes "built ex" and "ex_base_tables ex table = Some base" and "columns_ok ex" and "path ex base (vh_node view) ops"
    and "state_of ex (vh_node view) = Some s"
    and "valid_batches (map snd batches) {#}" and "\<forall>(order, recs)\<in>set batches. arranging order \<and> has_width (ncols ex base) recs"
  shows "\<exists>ex'. write_batches table batches ex = Some ex' \<and>
    mset (case lookup ex' view key of Some rows \<Rightarrow> rows | None \<Rightarrow> []) =
      with_key (ms_key_columns s) (from_slice key) (query_rows ops (table_rows (map snd batches) {#}))"
proof -
  have t: "tree ex" "base < length (ex_nodes ex)" using assms(1,2) by (auto simp: built_def)
  obtain ex' where ex': "write_batches table batches ex = Some ex'" "same_shape ex ex'" "maintained ex ex' base (table_rows (map snd batches) {#})"
    using write_batches_maintain [OF t(1) assms(2) t(2) assms(3) same_shape_refl built_maintained [OF assms(1) t(2)] assms(6,7)] by blast
  have v: "vh_node view < length (ex_nodes ex)" using path_range [OF assms(4) t] by simp
  have "map_option ms_key_columns (state_of ex' (vh_node view)) = Some (ms_key_columns s)"
    using same_shapeD(4) [OF ex'(2) v] assms(5) by simp
  then obtain s' where s': "state_of ex' (vh_node view) = Some s'" "ms_key_columns s' = ms_key_columns s" by auto
  have "represents s' (query_rows ops (table_rows (map snd batches) {#}))"
    using ex'(3) assms(4) s'(1) unfolding maintained_def state_holds_def by blast
  from lookup_maintained [OF s'(1) this, of key] show ?thesis using ex'(1) s'(2) by simp
qed

section \<open>Properties\<close>

text \<open>C4: A view stays equal to its query.  Take a graph built by any calls of the executor with operators of
  one input (filters, projections, aggregates, identities) that need no column beyond those of their parent, a
  materialised node reached from the base table through the operators \<open>ops\<close>, and any sequence of batches of
  records that delete only rows that are there and never leave 2^63 rows, with any order of the hash tables.  The writes do not
  panic, and a lookup in the view returns, as a multiset, exactly the rows with that key in the result of \<open>ops\<close>
  over the rows of the table; it misses only if there are none.\<close>

theorem views_maintained:
  assumes "build calls LocalExecutor_new = Some ex" and "list_all one_input calls"
    and "ex_base_tables ex table = Some base" and "columns_ok ex" and "path ex base (vh_node view) ops"
    and "nd_state (ex_nodes ex ! vh_node view) = Some s"
    and "valid_batches (map snd batches) {#}" and "\<forall>(order, recs)\<in>set batches. arranging order \<and> has_width (ncols ex base) recs"
  shows "\<exists>ex'. write_batches table batches ex = Some ex' \<and>
    mset (case lookup ex' view key of Some rows \<Rightarrow> rows | None \<Rightarrow> []) =
      with_key (ms_key_columns s) (from_slice key) (query_rows ops (table_rows (map snd batches) {#}))"
  using built_views [OF build_built [OF built_new assms(1,2)] assms(3,4,5) _ assms(7,8)] assms(6) by (simp add: state_of_def)

definition example_calls :: "build_call list" where
  "example_calls = [AddBaseTable [0x74] [[0x61], [0x62]], AddOperator (FilterOp (FGt 1 (DBigInt 0))) 0 [[0x61], [0x62]],
     AddOperator (AggregateOp (AggregateOp_new [0] (AggSum 1))) 1 [[0x61], [0x73]], Materialize 2 [0]]"

definition example_batches :: "(group_order \<times> dataflow_record list) list" where
  "example_batches = [(\<lambda>_. rev, [Positive [DBigInt 7, DBigInt 5], Positive [DBigInt 8, DBigInt 0], Positive [DBigInt 7, DBigInt 3]]),
     (\<lambda>_ ks. ks, [Negative [DBigInt 7, DBigInt 5], Positive [DBigInt 8, DBigInt 1]])]"

definition example_graph :: executor where
  "example_graph = the (build example_calls LocalExecutor_new)"

lemma example_graph: "build example_calls LocalExecutor_new = Some example_graph"
  "ex_nodes example_graph =
    [\<lparr>nd_operator = None, nd_parents = [], nd_children = [1], nd_state = None, nd_columns = [[0x61], [0x62]]\<rparr>,
     \<lparr>nd_operator = Some (FilterOp (FGt 1 (DBigInt 0))), nd_parents = [0], nd_children = [2], nd_state = None, nd_columns = [[0x61], [0x62]]\<rparr>,
     \<lparr>nd_operator = Some (AggregateOp (AggregateOp_new [0] (AggSum 1))), nd_parents = [1], nd_children = [],
       nd_state = Some (MemoryState_new [0]), nd_columns = [[0x61], [0x73]]\<rparr>]"
  "ex_base_tables example_graph [0x74] = Some 0"
  by (simp_all add: example_graph_def example_calls_def LocalExecutor_new_def add_base_table_def add_operator_def
      add_child_def materialize_def Let_def numeral_2_eq_2)

abbreviation example_ops :: "operator_type list" where
  "example_ops \<equiv> [FilterOp (FGt 1 (DBigInt 0)), AggregateOp (AggregateOp_new [0] (AggSum 1))]"

lemma example_path: "path example_graph 0 2 example_ops"
  by (rule path_step [of 1], simp add: example_graph(2), simp add: example_graph(2),
      rule path_step [of 2], simp add: example_graph(2), simp add: example_graph(2), rule path_refl)

lemma example_columns: "columns_ok example_graph"
  unfolding columns_ok_def
proof (intro allI impI)
  fix i assume "i < length (ex_nodes example_graph)"
  then have "i = 0 \<or> i = 1 \<or> i = 2" by (simp add: example_graph(2)) linarith
  then show "(\<forall>s. state_of example_graph i = Some s \<longrightarrow> list_all (\<lambda>c. c < ncols example_graph i) (ms_key_columns s)) \<and>
     (\<forall>c\<in>set (children example_graph i). op_fits (ncols example_graph i) (op_at example_graph c) \<and>
       op_width (op_at example_graph c) (ncols example_graph i) = ncols example_graph c)"
    by (auto simp: example_graph(2) state_of_def MemoryState_new_def AggregateOp_new_def)
qed

lemma example_view_rows: "query_rows example_ops (table_rows (map snd example_batches) {#}) =
    {#[DBigInt 7, DBigInt 3], [DBigInt 8, DBigInt 1]#}"
proof -
  let ?M = "{#[DBigInt 7, DBigInt 3], [DBigInt 8, DBigInt 1]#}"
  have "table_rows (map snd example_batches) {#} = add_mset [DBigInt 8, DBigInt 0] ?M"
    by (simp add: example_batches_def table_rows_def apply_records_def)
  moreover have "group_keys [0] ?M = {Single (DBigInt 7), Single (DBigInt 8)}" by (auto simp: group_keys_def from_row_def column_def)
  then have "grouped (AggSum 1) [0] ?M = ?M"
    by (simp add: grouped_def group_row_def group_rows_def group_values_def group_sum_def row_value_def from_row_def column_def
        aggregate_value_def i64_def add_mset_commute)
  ultimately show ?thesis
    by (simp add: query_rows_def op_query_def rows_query_def column_def greater_data_def AggregateOp_new_def)
qed

theorem views_maintained_witness:
  "\<exists>ex'. write_batches [0x74] example_batches example_graph = Some ex' \<and>
    mset (case lookup ex' \<lparr>vh_node = 2, vh_key_columns = [0]\<rparr> [DBigInt 7] of Some rows \<Rightarrow> rows | None \<Rightarrow> []) = {#[DBigInt 7, DBigInt 3]#}"
  using views_maintained [OF example_graph(1) _ example_graph(3) example_columns, of "\<lparr>vh_node = 2, vh_key_columns = [0]\<rparr>"
      example_ops "MemoryState_new [0]" example_batches "[DBigInt 7]"] example_path example_view_rows
  by (simp add: example_calls_def example_graph(2) AggregateOp_new_def)
    (simp add: example_batches_def valid_change_def apply_records_def with_key_def from_row_def from_slice_def MemoryState_new_def column_def)

end
