(* ===== verification/EngineFfi.thy ===== *)
theory EngineFfi
  imports NoriaBridge DataflowViews
begin

text \<open>
  The engine behind noria.h (noria-ffi/src/lib.rs): the views and tables it knows by name, the conversion of
  values at the C interface, lookups that ask SQLite on a miss, and the changes that flow into the executor.

  A panic of Rust in one of these functions ends the process: \<open>None\<close>.  The executor and the maps are behind
  locks that are taken and released within a call, and there is one thread.  Names and texts are
  ASCII where their case matters.
\<close>

section \<open>Values\<close>

text \<open>
  What the engine takes from elsewhere: the decoding of text (\<open>String::from_utf8_lossy\<close>), counted C strings
  (\<open>ArcCStr::try_from\<close>, with the text of the result; \<open>None\<close>: the error, on which the caller panics), a double as integral
  part and billionths and back (\<open>None\<close>: the panic for infinities and NaN), the order of the hash tables of
  aggregates, and the conversion of a query to operators, which works on the syntax tree of the crate
  sqlite3-parser.  It may add nodes before it fails.
\<close>

record rust_env =
  r_utf8_lossy :: "bytes \<Rightarrow> bytes"
  r_arc_cstr :: "bytes \<Rightarrow> bytes option"
  r_to_real :: "u64 \<Rightarrow> (int \<times> int) option"
  r_of_real :: "int \<Rightarrow> int \<Rightarrow> u64"
  r_group_order :: group_order
  r_convert_select :: "(bytes \<times> bytes list) list \<Rightarrow> bytes \<Rightarrow> executor \<Rightarrow> view_handle option \<times> executor"

definition hex_digit :: "u8 \<Rightarrow> u8" where
  "hex_digit d = (if d < 10 then 0x30 + d else 0x57 + d)"

definition hex_text :: "bytes \<Rightarrow> bytes" where
  "hex_text z = concat (map (\<lambda>b. [hex_digit (b div 16), hex_digit (b mod 16)]) z)"

definition noria_value_to_datatype :: "rust_env \<Rightarrow> noria_value \<Rightarrow> data_type option" where
  "noria_value_to_datatype r nv =
     (case nv of
        NORIA_NULL \<Rightarrow> Some DNone
      | NORIA_INTEGER i \<Rightarrow> Some (DBigInt (sint i))
      | NORIA_FLOAT f \<Rightarrow> map_option (\<lambda>(i, frac). DReal i frac) (r_to_real r f)
      | NORIA_TEXT z \<Rightarrow> try_from_bytes (r_arc_cstr r) (if z = [] then [] else r_utf8_lossy r z)
      | NORIA_BLOB z \<Rightarrow> if z = [] then Some DNone else try_from_bytes (r_arc_cstr r) (hex_text z))"

fun convert_values :: "rust_env \<Rightarrow> noria_value list \<Rightarrow> row option" where
  "convert_values r [] = Some []"
| "convert_values r (v # vs) = do { d \<leftarrow> noria_value_to_datatype r v; ds \<leftarrow> convert_values r vs; Some (d # ds) }"

text \<open>\<open>Value::from_datatype\<close> and \<open>to_noria_value\<close>.\<close>

definition from_datatype :: "rust_env \<Rightarrow> data_type \<Rightarrow> noria_value" where
  "from_datatype r d =
     (case d of
        DNone \<Rightarrow> NORIA_NULL
      | DBigInt i \<Rightarrow> NORIA_INTEGER (word_of_int i)
      | DReal i frac \<Rightarrow> NORIA_FLOAT (r_of_real r i frac)
      | _ \<Rightarrow> NORIA_TEXT (text_str d))"

text \<open>A row of an upquery: copied (\<open>noria_rows_add_row\<close>), and converted for the cache.\<close>

definition copied_value :: "rust_env \<Rightarrow> noria_value \<Rightarrow> noria_value" where
  "copied_value r nv = (case nv of NORIA_TEXT z \<Rightarrow> NORIA_TEXT (if z = [] then [] else r_utf8_lossy r z) | _ \<Rightarrow> nv)"

definition cached_value :: "rust_env \<Rightarrow> noria_value \<Rightarrow> data_type option" where
  "cached_value r nv =
     (case nv of
        NORIA_NULL \<Rightarrow> Some DNone
      | NORIA_INTEGER i \<Rightarrow> Some (DBigInt (sint i))
      | NORIA_FLOAT f \<Rightarrow> map_option (\<lambda>(i, frac). DReal i frac) (r_to_real r f)
      | NORIA_TEXT z \<Rightarrow> try_from_bytes (r_arc_cstr r) z
      | NORIA_BLOB z \<Rightarrow> Some DNone)"

fun cached_row :: "rust_env \<Rightarrow> noria_value list \<Rightarrow> row option" where
  "cached_row r [] = Some []"
| "cached_row r (v # vs) = do { d \<leftarrow> cached_value r v; ds \<leftarrow> cached_row r vs; Some (d # ds) }"

fun cached_records :: "rust_env \<Rightarrow> noria_value list list \<Rightarrow> dataflow_record list option" where
  "cached_records r [] = Some []"
| "cached_records r (vs # vss) = do { row \<leftarrow> cached_row r vs; recs \<leftarrow> cached_records r vss; Some (Positive row # recs) }"

section \<open>Names\<close>

definition tolower :: "u8 \<Rightarrow> u8" where
  "tolower c = (if 0x41 \<le> c \<and> c \<le> 0x5a then c + 0x20 else c)"

definition to_lowercase :: "bytes \<Rightarrow> bytes" where
  "to_lowercase s = map tolower s"

text \<open>\<open>split_whitespace\<close> and \<open>split\<close> at a character.\<close>

lemma next_word_shorter:
  assumes "dropWhile isspace s \<noteq> []"
  shows "length (dropWhile (\<lambda>c. \<not> isspace c) (dropWhile isspace s)) < length s"
proof -
  obtain c t where t: "dropWhile isspace s = c # t" using assms by (cases "dropWhile isspace s") auto
  then have "\<not> isspace c" using hd_dropWhile [of isspace s] by auto
  then have "length (dropWhile (\<lambda>c. \<not> isspace c) (dropWhile isspace s)) \<le> length t"
    using t length_dropWhile_le [of "\<lambda>c. \<not> isspace c" t] by simp
  also have "length t < length s" using t length_dropWhile_le [of isspace s] by simp
  finally show ?thesis .
qed

function split_whitespace :: "bytes \<Rightarrow> bytes list" where
  "split_whitespace s =
     (let s = dropWhile isspace s
      in if s = [] then [] else takeWhile (\<lambda>c. \<not> isspace c) s # split_whitespace (dropWhile (\<lambda>c. \<not> isspace c) s))"
  by auto
termination
  by (relation "measure length", simp, simp only: in_measure, rule next_word_shorter)

declare split_whitespace.simps [simp del]

fun split_at :: "u8 \<Rightarrow> bytes \<Rightarrow> bytes list" where
  "split_at d [] = [[]]"
| "split_at d (c # s) = (if c = d then [] # split_at d s else case split_at d s of w # ws \<Rightarrow> (c # w) # ws | [] \<Rightarrow> [[c]])"

definition trim_matches :: "(u8 \<Rightarrow> bool) \<Rightarrow> bytes \<Rightarrow> bytes" where
  "trim_matches p s = rev (dropWhile p (rev (dropWhile p s)))"

fun join_words :: "bytes list \<Rightarrow> bytes" where
  "join_words [] = []"
| "join_words [w] = w"
| "join_words (w # ws) = w @ 0x20 # join_words ws"

definition normalize_sql :: "bytes \<Rightarrow> bytes" where
  "normalize_sql sql = map toupper (join_words (split_whitespace sql))"

definition quote_char :: "u8 \<Rightarrow> bool" where
  "quote_char c \<longleftrightarrow> c = 0x60 \<or> c = 0x22 \<or> c = 0x5b \<or> c = 0x5d"

definition end_keywords :: "bytes list" where
  "end_keywords =
     [[0x20, 0x57, 0x48, 0x45, 0x52, 0x45, 0x20], 0x20 # kw_JOIN @ [0x20], [0x20, 0x4f, 0x52, 0x44, 0x45, 0x52, 0x20],
      [0x20, 0x47, 0x52, 0x4f, 0x55, 0x50, 0x20], [0x20, 0x4c, 0x49, 0x4d, 0x49, 0x54, 0x20],
      [0x20, 0x48, 0x41, 0x56, 0x49, 0x4e, 0x47, 0x20], [0x3b]]"

definition from_clause_tables :: "bytes \<Rightarrow> bytes list" where
  "from_clause_tables sql =
     (case find_from (0x20 # kw_FROM @ [0x20]) (map toupper sql) 0 of
        None \<Rightarrow> []
      | Some from_pos \<Rightarrow>
          let after_from = drop (from_pos + 6) sql;
              end_pos = fold (\<lambda>kw e. case find_from kw (map toupper after_from) 0 of Some p \<Rightarrow> min p e | None \<Rightarrow> e)
                end_keywords (length after_from);
              table_part = trim_matches isspace (take end_pos after_from);
              clean = (\<lambda>t. let t = trim_matches isspace t
                           in trim_matches quote_char (case split_whitespace t of w # _ \<Rightarrow> w | [] \<Rightarrow> t))
          in map to_lowercase (filter (\<lambda>t. t \<noteq> []) (map clean (split_at 0x2c table_part))))"

text \<open>The loop over the matches of one join keyword; none of them is empty.\<close>

definition join_table :: "bytes \<Rightarrow> bytes list \<Rightarrow> bytes list" where
  "join_table after_join tables =
     (case split_whitespace after_join of
        [] \<Rightarrow> tables
      | w # _ \<Rightarrow>
          let lower = to_lowercase (trim_matches (\<lambda>c. quote_char c \<or> c = 0x2c) w)
          in if lower \<noteq> [] \<and> lower \<noteq> [0x6f, 0x6e] \<and> lower \<notin> set tables then tables @ [lower] else tables)"

function add_join_tables :: "bytes \<Rightarrow> bytes \<Rightarrow> nat \<Rightarrow> bytes list \<Rightarrow> bytes list" where
  "add_join_tables join_kw sql pos tables =
     (case find_from join_kw (map toupper sql) pos of
        None \<Rightarrow> tables
      | Some i \<Rightarrow>
          let actual_pos = i + length join_kw;
              tables = (if actual_pos < length sql then join_table (drop actual_pos sql) tables else tables)
          in if join_kw = [] then tables else add_join_tables join_kw sql actual_pos tables)"
  by auto
termination
proof (relation "measure (\<lambda>(kw, sql, pos, ts). length sql + 1 - pos)", simp, clarsimp)
  fix kw :: bytes and sql :: bytes and pos i
  assume "find_from kw (map toupper sql) pos = Some i" and "kw \<noteq> []"
  then have "pos \<le> i" "i + length kw \<le> length sql" "0 < length kw"
    using find_from_sound [of kw "map toupper sql" pos i] by auto
  then show "Suc (length sql) - (i + length kw) < Suc (length sql) - pos" by linarith
qed

declare add_join_tables.simps [simp del]

definition extract_tables :: "bytes \<Rightarrow> bytes list" where
  "extract_tables sql =
     fold (\<lambda>kw. add_join_tables (0x20 # kw @ [0x20]) sql 0)
       [kw_JOIN, kw_INNER_JOIN, kw_LEFT_JOIN, kw_RIGHT_JOIN, kw_CROSS_JOIN] (from_clause_tables sql)"

section \<open>The engine\<close>

record view_entry =
  ve_handle :: view_handle
  ve_sql :: bytes
  ve_tables :: "bytes list"

record engine =
  en_executor :: executor
  en_schemas :: "(bytes \<times> bytes list) list"
  en_views :: "int \<Rightarrow> view_entry option"
  en_sql_to_view_id :: "bytes \<Rightarrow> int option"
  en_table_to_views :: "bytes \<Rightarrow> int list option"
  en_table_to_id :: "bytes \<Rightarrow> nat option"
  en_id_to_table :: "bytes list"
  en_next_view_id :: int
  en_cache_hits :: u64
  en_cache_misses :: u64
  en_dirty_tables :: u64

text \<open>An integer as \<open>c_int\<close>; the counter of view ids is one too, and wraps around.\<close>

definition c_int :: "int \<Rightarrow> int" where
  "c_int x = sint (word_of_int x :: 32 word)"

definition ffi_create :: engine where
  "ffi_create = \<lparr>en_executor = LocalExecutor_new, en_schemas = [], en_views = (\<lambda>_. None), en_sql_to_view_id = (\<lambda>_. None),
     en_table_to_views = (\<lambda>_. None), en_table_to_id = (\<lambda>_. None), en_id_to_table = [], en_next_view_id = 0,
     en_cache_hits = 0, en_cache_misses = 0, en_dirty_tables = 0\<rparr>"

definition assign_table_id :: "bytes \<Rightarrow> engine \<Rightarrow> engine" where
  "assign_table_id table e =
     (if en_table_to_id e table = None
      then e\<lparr>en_table_to_id := (en_table_to_id e)(table \<mapsto> length (en_id_to_table e)), en_id_to_table := en_id_to_table e @ [table]\<rparr>
      else e)"

definition ffi_register_table_schema :: "engine \<Rightarrow> bytes \<Rightarrow> bytes list \<Rightarrow> engine" where
  "ffi_register_table_schema e table column_names =
     (let table_str = to_lowercase table;
          e = e\<lparr>en_schemas := en_schemas e @ [(table_str, column_names)]\<rparr>;
          e = e\<lparr>en_executor := snd (add_base_table table_str column_names (en_executor e))\<rparr>
      in assign_table_id table_str e)"

definition add_table_view :: "int \<Rightarrow> bytes \<Rightarrow> engine \<Rightarrow> engine" where
  "add_table_view view_id table e =
     (let e = assign_table_id table e
      in e\<lparr>en_table_to_views := (en_table_to_views e)(table \<mapsto> (case en_table_to_views e table of Some ids \<Rightarrow> ids | None \<Rightarrow> []) @ [view_id])\<rparr>)"

definition ffi_register_view :: "rust_env \<Rightarrow> engine \<Rightarrow> bytes \<Rightarrow> int \<times> engine" where
  "ffi_register_view r e sql =
     (let normalized = normalize_sql sql
      in case en_sql_to_view_id e normalized of
           Some view_id \<Rightarrow> (view_id, e)
         | None \<Rightarrow>
             let tables = extract_tables sql;
                 (vh, ex) = r_convert_select r (en_schemas e) sql (en_executor e);
                 e = e\<lparr>en_executor := ex\<rparr>
             in case vh of
                  None \<Rightarrow> (-1, e)
                | Some vh \<Rightarrow>
                    let view_id = en_next_view_id e;
                        e = e\<lparr>en_next_view_id := c_int (view_id + 1),
                               en_views := (en_views e)(view_id \<mapsto> \<lparr>ve_handle = vh, ve_sql = sql, ve_tables = tables\<rparr>),
                               en_sql_to_view_id := (en_sql_to_view_id e)(normalized \<mapsto> view_id)\<rparr>
                    in (view_id, fold (add_table_view view_id) tables e))"

definition ffi_has_view :: "engine \<Rightarrow> bytes \<Rightarrow> int" where
  "ffi_has_view e sql = (if en_sql_to_view_id e (normalize_sql sql) \<noteq> None then 1 else 0)"

definition ffi_table_has_views :: "engine \<Rightarrow> bytes \<Rightarrow> int" where
  "ffi_table_has_views e table = (if en_table_to_views e (to_lowercase table) \<noteq> None then 1 else 0)"

definition ffi_get_table_id :: "engine \<Rightarrow> bytes \<Rightarrow> int" where
  "ffi_get_table_id e table = (case en_table_to_id e (to_lowercase table) of Some i \<Rightarrow> c_int (int i) | None \<Rightarrow> -1)"

definition ffi_queue_invalidate_by_id :: "engine \<Rightarrow> int \<Rightarrow> int \<times> engine" where
  "ffi_queue_invalidate_by_id e table_id =
     (if table_id < 0 \<or> table_id \<ge> 64 then (-1, e)
      else (0, e\<lparr>en_dirty_tables := set_bit (nat table_id) (en_dirty_tables e)\<rparr>))"

definition not_found :: lookup_result where
  "not_found = \<lparr>found = 0, row_count = 0, rows = None\<rparr>"

definition ffi_lookup :: "rust_env \<Rightarrow> upquery option \<Rightarrow> engine \<Rightarrow> int \<Rightarrow> noria_value list \<Rightarrow> (lookup_result \<times> engine) option" where
  "ffi_lookup r callback e view_id key_values =
     (if view_id < 0 then Some (not_found, e)
      else case en_views e view_id of
             None \<Rightarrow> Some (not_found, e)
           | Some entry \<Rightarrow> do {
               key \<leftarrow> convert_values r key_values;
               case lookup (en_executor e) (ve_handle entry) key of
                 Some rs \<Rightarrow>
                   Some (\<lparr>found = 1, row_count = c_int (int (length rs)),
                          rows = (if rs = [] then None else Some (map (map (from_datatype r)) rs))\<rparr>,
                         e\<lparr>en_cache_hits := en_cache_hits e + 1\<rparr>)
               | None \<Rightarrow>
                   let e = e\<lparr>en_cache_misses := en_cache_misses e + 1\<rparr>
                   in case callback of
                        None \<Rightarrow> Some (not_found, e)
                      | Some cb \<Rightarrow>
                          (case cb (Some (ve_sql entry)) key_values of (result, out_rows) \<Rightarrow>
                             if result = 0 \<and> out_rows \<noteq> [] then do {
                               let copied = map (map (copied_value r)) out_rows;
                               recs \<leftarrow> cached_records r copied;
                               ex \<leftarrow> inject_into_view (ve_handle entry) recs (en_executor e);
                               Some (\<lparr>found = 1, row_count = c_int (int (length copied)), rows = Some copied\<rparr>, e\<lparr>en_executor := ex\<rparr>)
                             } else Some (not_found, e))
             })"

definition write_table :: "rust_env \<Rightarrow> engine \<Rightarrow> bytes \<Rightarrow> dataflow_record list \<Rightarrow> engine option" where
  "write_table r e table recs =
     map_option (\<lambda>ex. e\<lparr>en_executor := ex\<rparr>) (apply_write (r_group_order r) (to_lowercase table) recs (en_executor e))"

definition ffi_apply_insert :: "rust_env \<Rightarrow> engine \<Rightarrow> bytes \<Rightarrow> noria_value list \<Rightarrow> engine option" where
  "ffi_apply_insert r e table vs = do { row \<leftarrow> convert_values r vs; write_table r e table [Positive row] }"

definition ffi_apply_delete :: "rust_env \<Rightarrow> engine \<Rightarrow> bytes \<Rightarrow> noria_value list \<Rightarrow> engine option" where
  "ffi_apply_delete r e table vs = do { row \<leftarrow> convert_values r vs; write_table r e table [Negative row] }"

definition ffi_apply_update :: "rust_env \<Rightarrow> engine \<Rightarrow> bytes \<Rightarrow> noria_value list \<Rightarrow> noria_value list \<Rightarrow> engine option" where
  "ffi_apply_update r e table os ns = do {
     old_r \<leftarrow> convert_values r os;
     new_r \<leftarrow> convert_values r ns;
     write_table r e table [Negative old_r, Positive new_r]
   }"

definition ffi_flush :: "engine \<Rightarrow> int \<times> engine" where
  "ffi_flush e = (0, e\<lparr>en_dirty_tables := 0\<rparr>)"

definition executor_rows :: "executor \<Rightarrow> nat" where
  "executor_rows ex = sum_list (map (\<lambda>nd. case nd_state nd of Some s \<Rightarrow> ms_row_count s | None \<Rightarrow> 0) (ex_nodes ex))"

definition DEFAULT_MAX_MEMORY_BYTES :: u64 where
  "DEFAULT_MAX_MEMORY_BYTES = 100 * 1024 * 1024"

text \<open>The view ids are the numbers below the next one, so that their number is that one (of fewer than 2^31 views).\<close>

definition ffi_get_stats :: "engine \<Rightarrow> cache_stats" where
  "ffi_get_stats e =
     \<lparr>cache_hits = en_cache_hits e, cache_misses = en_cache_misses e, total_rows = of_nat (executor_rows (en_executor e)),
      view_count = en_next_view_id e, node_count = c_int (int (length (ex_nodes (en_executor e)))),
      memory_bytes = of_nat (executor_rows (en_executor e) * 100), max_memory_bytes = DEFAULT_MAX_MEMORY_BYTES,
      eviction_count = 0, bytes_evicted = 0\<rparr>"

section \<open>The engine behind the interface\<close>

text \<open>
  The functions of noria.h for the wrapper, on engines or \<open>None\<close> once one of them has panicked.  The callback
  of \<open>noria_lookup\<close> is the one set when the engine was created.
\<close>

definition on_engine :: "(engine \<Rightarrow> 'a \<times> engine) \<Rightarrow> 'a \<Rightarrow> engine option \<Rightarrow> 'a \<times> engine option" where
  "on_engine f d e = (case e of Some e \<Rightarrow> (case f e of (x, e) \<Rightarrow> (x, Some e)) | None \<Rightarrow> (d, None))"

definition on_lookup :: "(engine \<Rightarrow> (lookup_result \<times> engine) option) \<Rightarrow> engine option \<Rightarrow> lookup_result \<times> engine option" where
  "on_lookup f e = (case Option.bind e f of Some (x, e) \<Rightarrow> (x, Some e) | None \<Rightarrow> (not_found, None))"

definition queued :: "engine option \<Rightarrow> int \<times> engine option" where
  "queued e = (0, e)"

definition engine_ffi :: "rust_env \<Rightarrow> upquery \<Rightarrow> engine option engine_api" where
  "engine_ffi r callback =
     \<lparr>noria_create = Some (Some ffi_create),
      noria_register_view = (\<lambda>e sql. on_engine (\<lambda>e. ffi_register_view r e sql) (-1) e),
      noria_register_table_schema = (\<lambda>e t cols. map_option (\<lambda>e. ffi_register_table_schema e t cols) e),
      noria_has_view = (\<lambda>e sql. case e of Some e \<Rightarrow> ffi_has_view e sql | None \<Rightarrow> 0),
      noria_table_has_views = (\<lambda>e t. case e of Some e \<Rightarrow> ffi_table_has_views e t | None \<Rightarrow> 0),
      noria_get_table_id = (\<lambda>e t. case e of Some e \<Rightarrow> ffi_get_table_id e t | None \<Rightarrow> -1),
      noria_queue_invalidate_by_id = (\<lambda>e i. on_engine (\<lambda>e. ffi_queue_invalidate_by_id e i) (-1) e),
      noria_lookup = (\<lambda>e i key. on_lookup (\<lambda>e. ffi_lookup r (Some callback) e i key) e),
      noria_lookup_or_upquery = (\<lambda>cb e i key. on_lookup (\<lambda>e. ffi_lookup r (Some cb) e i key) e),
      noria_apply_insert = (\<lambda>e t vs. Option.bind e (\<lambda>e. ffi_apply_insert r e t vs)),
      noria_apply_delete = (\<lambda>e t vs. Option.bind e (\<lambda>e. ffi_apply_delete r e t vs)),
      noria_apply_update = (\<lambda>e t os ns. Option.bind e (\<lambda>e. ffi_apply_update r e t os ns)),
      noria_queue_insert = (\<lambda>e t vs. queued (Option.bind e (\<lambda>e. ffi_apply_insert r e t vs))),
      noria_queue_delete = (\<lambda>e t vs. queued (Option.bind e (\<lambda>e. ffi_apply_delete r e t vs))),
      noria_queue_update = (\<lambda>e t os ns. queued (Option.bind e (\<lambda>e. ffi_apply_update r e t os ns))),
      noria_flush = (\<lambda>e. on_engine ffi_flush (-1) e),
      noria_get_stats = (\<lambda>e. case e of Some e \<Rightarrow> ffi_get_stats e | None \<Rightarrow> ffi_get_stats ffi_create)\<rparr>"

end
