(* ===== verification/EngineProps.thy ===== *)
theory EngineProps
  imports EngineFfi ChangesetGenerate
begin

text \<open>
  What holds of the engine behind noria.h, and where its answers differ from those of SQLite.
\<close>

section \<open>The maps of the engine\<close>

text \<open>
  The view ids are the numbers below the next one, each text leads to a view, the ids of tables are their
  positions, and the views of a table are those whose query names it.
\<close>

definition ids_inv :: "engine \<Rightarrow> bool" where
  "ids_inv e \<longleftrightarrow> distinct (en_id_to_table e) \<and>
     (\<forall>t i. en_table_to_id e t = Some i \<longleftrightarrow> i < length (en_id_to_table e) \<and> en_id_to_table e ! i = t)"

definition views_inv :: "engine \<Rightarrow> bool" where
  "views_inv e \<longleftrightarrow> 0 \<le> en_next_view_id e \<and> (\<forall>i. en_views e i \<noteq> None \<longleftrightarrow> 0 \<le> i \<and> i < en_next_view_id e) \<and>
     (\<forall>q i. en_sql_to_view_id e q = Some i \<longrightarrow> en_views e i \<noteq> None)"

definition view_tables :: "engine \<Rightarrow> int \<Rightarrow> bytes list" where
  "view_tables e i = (case en_views e i of Some v \<Rightarrow> ve_tables v | None \<Rightarrow> [])"

definition table_views :: "engine \<Rightarrow> bytes \<Rightarrow> int list" where
  "table_views e t = (case en_table_to_views e t of Some ids \<Rightarrow> ids | None \<Rightarrow> [])"

definition tables_inv :: "engine \<Rightarrow> bool" where
  "tables_inv e \<longleftrightarrow> (\<forall>t. en_table_to_views e t \<noteq> Some [] \<and> (en_table_to_views e t \<noteq> None \<longrightarrow> en_table_to_id e t \<noteq> None) \<and>
     set (table_views e t) = {i. t \<in> set (view_tables e i)})"

definition engine_inv :: "engine \<Rightarrow> bool" where
  "engine_inv e \<longleftrightarrow> ids_inv e \<and> views_inv e \<and> tables_inv e"

text \<open>The calls of the interface, as long as fewer than 2^31 - 1 views are registered.\<close>

inductive engine_step :: "rust_env \<Rightarrow> engine \<Rightarrow> engine \<Rightarrow> bool" for r where
  register_table_schema: "engine_step r e (ffi_register_table_schema e t cols)"
| register_view: "en_next_view_id e < 2 ^ 31 - 1 \<Longrightarrow> engine_step r e (snd (ffi_register_view r e sql))"
| queue_invalidate: "engine_step r e (snd (ffi_queue_invalidate_by_id e i))"
| lookup: "ffi_lookup r cb e i key = Some (res, e') \<Longrightarrow> engine_step r e e'"
| apply_insert: "ffi_apply_insert r e t vs = Some e' \<Longrightarrow> engine_step r e e'"
| apply_delete: "ffi_apply_delete r e t vs = Some e' \<Longrightarrow> engine_step r e e'"
| apply_update: "ffi_apply_update r e t os ns = Some e' \<Longrightarrow> engine_step r e e'"
| flush: "engine_step r e (snd (ffi_flush e))"

inductive engine_reach :: "rust_env \<Rightarrow> engine \<Rightarrow> bool" for r where
  reach_create: "engine_reach r ffi_create"
| reach_engine: "engine_reach r e \<Longrightarrow> engine_step r e e' \<Longrightarrow> engine_reach r e'"

text \<open>The parts of an engine the invariant speaks of.\<close>

definition registry :: "engine \<Rightarrow> (int \<Rightarrow> view_entry option) \<times> (bytes \<Rightarrow> int option) \<times> (bytes \<Rightarrow> int list option) \<times>
    (bytes \<Rightarrow> nat option) \<times> bytes list \<times> int" where
  "registry e = (en_views e, en_sql_to_view_id e, en_table_to_views e, en_table_to_id e, en_id_to_table e, en_next_view_id e)"

lemmas engine_inv_defs = engine_inv_def ids_inv_def views_inv_def tables_inv_def view_tables_def table_views_def

lemma engine_inv_registry:
  assumes "registry e' = registry e" "engine_inv e"
  shows "engine_inv e'"
proof -
  have eqs: "en_views e' = en_views e" "en_sql_to_view_id e' = en_sql_to_view_id e" "en_table_to_views e' = en_table_to_views e"
    "en_table_to_id e' = en_table_to_id e" "en_id_to_table e' = en_id_to_table e" "en_next_view_id e' = en_next_view_id e"
    using assms(1) by (simp_all add: registry_def)
  show ?thesis using assms(2) unfolding engine_inv_defs eqs .
qed

lemma ids_invD: "ids_inv e \<Longrightarrow> en_table_to_id e t = Some i \<longleftrightarrow> i < length (en_id_to_table e) \<and> en_id_to_table e ! i = t"
  unfolding ids_inv_def by blast

lemma ids_inv_snoc:
  assumes "ids_inv e" "en_table_to_id e t = None"
  shows "ids_inv (e\<lparr>en_table_to_id := (en_table_to_id e)(t \<mapsto> length (en_id_to_table e)), en_id_to_table := en_id_to_table e @ [t]\<rparr>)"
proof -
  have t: "t \<notin> set (en_id_to_table e)"
  proof
    assume "t \<in> set (en_id_to_table e)"
    then obtain i where "i < length (en_id_to_table e)" "en_id_to_table e ! i = t" by (metis in_set_conv_nth)
    then show False using ids_invD [OF assms(1), of t i] assms(2) by simp
  qed
  have "((en_table_to_id e)(t \<mapsto> length (en_id_to_table e))) x = Some i \<longleftrightarrow>
      i < Suc (length (en_id_to_table e)) \<and> (en_id_to_table e @ [t]) ! i = x" for x i
    using ids_invD [OF assms(1), of x i] t nth_mem [of i "en_id_to_table e"]
    by (cases "i < length (en_id_to_table e)"; cases "x = t") (auto simp: nth_append less_Suc_eq)
  moreover have "distinct (en_id_to_table e @ [t])" using assms(1) t by (simp add: ids_inv_def)
  ultimately show ?thesis unfolding ids_inv_def by simp
qed

lemma views_inv_cong:
  assumes "en_views e' = en_views e" "en_sql_to_view_id e' = en_sql_to_view_id e" "en_next_view_id e' = en_next_view_id e"
  shows "views_inv e' = views_inv e"
  unfolding views_inv_def assms ..

lemma assign_table_id_inv: "engine_inv e \<Longrightarrow> engine_inv (assign_table_id t e)"
proof (cases "en_table_to_id e t")
  case None
  let ?e = "e\<lparr>en_table_to_id := (en_table_to_id e)(t \<mapsto> length (en_id_to_table e)), en_id_to_table := en_id_to_table e @ [t]\<rparr>"
  assume i: "engine_inv e"
  have "tables_inv ?e" using i by (simp add: engine_inv_def tables_inv_def view_tables_def table_views_def)
  moreover have "views_inv ?e" using i views_inv_cong [of ?e e] by (simp add: engine_inv_def)
  ultimately show ?thesis using ids_inv_snoc [OF _ None] i None by (simp add: assign_table_id_def engine_inv_def)
qed (simp add: assign_table_id_def)

lemma assign_table_id_simps [simp]:
  "en_views (assign_table_id t e) = en_views e" "en_sql_to_view_id (assign_table_id t e) = en_sql_to_view_id e"
  "en_next_view_id (assign_table_id t e) = en_next_view_id e" "en_table_to_views (assign_table_id t e) = en_table_to_views e"
  "en_executor (assign_table_id t e) = en_executor e" "en_table_to_id (assign_table_id t e) t \<noteq> None"
  by (simp_all add: assign_table_id_def)

lemma assign_table_id_keeps: "en_table_to_id e x \<noteq> None \<Longrightarrow> en_table_to_id (assign_table_id t e) x \<noteq> None"
  by (simp add: assign_table_id_def)

lemma assign_table_id_ids: "ids_inv e \<Longrightarrow> ids_inv (assign_table_id t e)"
  using ids_inv_snoc [of e t] by (cases "en_table_to_id e t") (simp_all add: assign_table_id_def)

text \<open>The tables while a view is being added to some of them.\<close>

definition listed_for :: "(bytes \<Rightarrow> int set) \<Rightarrow> engine \<Rightarrow> bool" where
  "listed_for S e \<longleftrightarrow> (\<forall>t. en_table_to_views e t \<noteq> Some [] \<and> (en_table_to_views e t \<noteq> None \<longrightarrow> en_table_to_id e t \<noteq> None) \<and>
     set (table_views e t) = S t)"

lemma tables_inv_listed: "tables_inv e \<longleftrightarrow> listed_for (\<lambda>t. {i. t \<in> set (view_tables e i)}) e"
  unfolding tables_inv_def listed_for_def ..

lemma add_table_view_simps [simp]:
  "en_views (add_table_view i t e) = en_views e" "en_sql_to_view_id (add_table_view i t e) = en_sql_to_view_id e"
  "en_next_view_id (add_table_view i t e) = en_next_view_id e" "en_executor (add_table_view i t e) = en_executor e"
  by (simp_all add: add_table_view_def Let_def)

lemma add_table_view_listed:
  assumes "ids_inv e" "listed_for S e"
  shows "ids_inv (add_table_view i t e) \<and> listed_for (S(t := insert i (S t))) (add_table_view i t e)"
proof
  have v: "en_table_to_views (add_table_view i t e) = (en_table_to_views e)(t \<mapsto> table_views e t @ [i])"
    by (simp add: add_table_view_def Let_def table_views_def)
  have d: "en_table_to_id (add_table_view i t e) = en_table_to_id (assign_table_id t e)"
    "en_id_to_table (add_table_view i t e) = en_id_to_table (assign_table_id t e)"
    by (simp_all add: add_table_view_def Let_def)
  show "ids_inv (add_table_view i t e)" using assign_table_id_ids [OF assms(1), of t] unfolding ids_inv_def d .
  show "listed_for (S(t := insert i (S t))) (add_table_view i t e)"
    unfolding listed_for_def
  proof (intro allI conjI impI)
    fix x
    have x: "en_table_to_views e x \<noteq> Some []" "en_table_to_views e x \<noteq> None \<Longrightarrow> en_table_to_id e x \<noteq> None" "set (table_views e x) = S x"
      using assms(2) unfolding listed_for_def by blast+
    show "en_table_to_views (add_table_view i t e) x \<noteq> Some []" using x(1) v by simp
    show "en_table_to_id (add_table_view i t e) x \<noteq> None" if "en_table_to_views (add_table_view i t e) x \<noteq> None"
      using that x(2) v assign_table_id_keeps [of e x t] unfolding d by (cases "x = t") simp_all
    show "set (table_views (add_table_view i t e) x) = (S(t := insert i (S t))) x"
    proof (cases "x = t")
      case True
      have "table_views (add_table_view i t e) t = table_views e t @ [i]" using v by (simp add: table_views_def)
      then show ?thesis using x(3) True by simp
    next
      case False
      then have "table_views (add_table_view i t e) x = table_views e x" using v by (simp add: table_views_def)
      then show ?thesis using x(3) False by simp
    qed
  qed
qed

lemma add_table_views_listed:
  assumes "ids_inv e" "listed_for S e"
  shows "ids_inv (fold (add_table_view i) ts e) \<and>
    listed_for (\<lambda>t. if t \<in> set ts then insert i (S t) else S t) (fold (add_table_view i) ts e)"
  using assms
proof (induction ts arbitrary: e S)
  case (Cons t ts)
  have "(\<lambda>x. if x \<in> set ts then insert i ((S(t := insert i (S t))) x) else (S(t := insert i (S t))) x) =
      (\<lambda>x. if x \<in> set (t # ts) then insert i (S x) else S x)" by (auto simp: fun_eq_iff)
  then show ?case using Cons.IH [of "add_table_view i t e" "S(t := insert i (S t))"] add_table_view_listed [OF Cons.prems, of i t]
    by (simp only: fold_simps simp_thms)
qed simp

lemma add_table_views_simps [simp]:
  "en_views (fold (add_table_view i) ts e) = en_views e" "en_sql_to_view_id (fold (add_table_view i) ts e) = en_sql_to_view_id e"
  "en_next_view_id (fold (add_table_view i) ts e) = en_next_view_id e" "en_executor (fold (add_table_view i) ts e) = en_executor e"
  by (induction ts arbitrary: e) simp_all

lemma c_int_small: "- (2 ^ 31) \<le> x \<Longrightarrow> x < 2 ^ 31 \<Longrightarrow> c_int x = x"
  by (simp add: c_int_def sint_sbintrunc' signed_take_bit_int_eq_self)

lemma register_view_inv:
  assumes "engine_inv e" and bound: "en_next_view_id e < 2 ^ 31 - 1"
  shows "engine_inv (snd (ffi_register_view r e sql))"
proof (cases "en_sql_to_view_id e (normalize_sql sql)")
  case (Some i)
  then show ?thesis using assms by (simp add: ffi_register_view_def)
next
  case None
  obtain vh ex where c: "r_convert_select r (en_schemas e) sql (en_executor e) = (vh, ex)" by fastforce
  show ?thesis
  proof (cases vh)
    case None2: None
    then have "registry (snd (ffi_register_view r e sql)) = registry e" using None c by (simp add: ffi_register_view_def registry_def)
    then show ?thesis using engine_inv_registry assms by blast
  next
    case (Some v)
    let ?i = "en_next_view_id e" and ?ts = "extract_tables sql"
    let ?w = "\<lparr>ve_handle = v, ve_sql = sql, ve_tables = ?ts\<rparr>"
    let ?e = "e\<lparr>en_executor := ex, en_next_view_id := c_int (?i + 1), en_views := (en_views e)(?i \<mapsto> ?w),
        en_sql_to_view_id := (en_sql_to_view_id e)(normalize_sql sql \<mapsto> ?i)\<rparr>"
    let ?S = "\<lambda>t. {j. t \<in> set (view_tables e j)}" and ?f = "fold (add_table_view ?i) ?ts ?e"
    have f: "snd (ffi_register_view r e sql) = ?f" using None c Some by (simp add: ffi_register_view_def Let_def)
    have i: "ids_inv e" "views_inv e" "listed_for ?S e" using assms by (simp_all add: engine_inv_def tables_inv_listed)
    have new: "en_views e ?i = None" using i(2) unfolding views_inv_def by (metis less_irrefl)
    have e: "ids_inv ?e" "listed_for ?S ?e" using i(1,3) by (simp_all add: ids_inv_def listed_for_def table_views_def)
    have "views_inv ?e"
    proof -
      have v: "0 \<le> ?i" "\<And>j. en_views e j \<noteq> None \<longleftrightarrow> 0 \<le> j \<and> j < ?i" "\<And>q j. en_sql_to_view_id e q = Some j \<Longrightarrow> en_views e j \<noteq> None"
        using i(2) unfolding views_inv_def by blast+
      have "(\<forall>j. ((en_views e)(?i \<mapsto> ?w)) j \<noteq> None \<longleftrightarrow> 0 \<le> j \<and> j < ?i + 1)" using v(1,2) by (auto simp del: not_None_eq)
      moreover have "\<forall>q j. ((en_sql_to_view_id e)(normalize_sql sql \<mapsto> ?i)) q = Some j \<longrightarrow> ((en_views e)(?i \<mapsto> ?w)) j \<noteq> None"
        using v(3) by (simp del: not_None_eq)
      moreover have "c_int (?i + 1) = ?i + 1" using v(1) bound by (simp add: c_int_small)
      ultimately show ?thesis unfolding views_inv_def using v(1) by simp
    qed
    then have vf: "views_inv ?f" using views_inv_cong [of ?f ?e] by simp
    have "(\<lambda>t. if t \<in> set ?ts then insert ?i (?S t) else ?S t) = (\<lambda>t. {j. t \<in> set (view_tables ?f j)})"
      using new by (auto simp: fun_eq_iff view_tables_def split: if_splits)
    then have "ids_inv ?f \<and> tables_inv ?f" using add_table_views_listed [OF e, of ?i ?ts] by (simp only: tables_inv_listed simp_thms)
    then show ?thesis unfolding f engine_inv_def using vf by simp
  qed
qed

lemma register_table_schema_inv: "engine_inv e \<Longrightarrow> engine_inv (ffi_register_table_schema e t cols)"
  unfolding ffi_register_table_schema_def Let_def
  by (rule assign_table_id_inv, rule engine_inv_registry [of _ e]) (simp_all add: registry_def)

lemma lookup_registry: "ffi_lookup r cb e i key = Some (res, e') \<Longrightarrow> registry e' = registry e"
  by (auto simp: ffi_lookup_def registry_def Let_def split: if_splits option.splits prod.splits bind_splits)

lemma write_registry: "write_table r e t recs = Some e' \<Longrightarrow> registry e' = registry e"
  by (auto simp: write_table_def registry_def)

lemma engine_step_inv: "engine_step r e e' \<Longrightarrow> engine_inv e \<Longrightarrow> engine_inv e'"
proof (induction rule: engine_step.induct)
  case (register_table_schema e t cols)
  then show ?case by (rule register_table_schema_inv)
next
  case (register_view e sql)
  then show ?case by (simp add: register_view_inv)
next
  case (queue_invalidate e i)
  then show ?case by (rule engine_inv_registry [rotated]) (simp add: ffi_queue_invalidate_by_id_def registry_def)
next
  case (lookup cb e i key res e')
  then show ?case using engine_inv_registry lookup_registry by blast
next
  case (flush e)
  then show ?case by (rule engine_inv_registry [rotated]) (simp add: ffi_flush_def registry_def)
qed (auto simp: ffi_apply_insert_def ffi_apply_delete_def ffi_apply_update_def split: bind_splits
      dest!: write_registry intro: engine_inv_registry)

lemma engine_reach_inv: "engine_reach r e \<Longrightarrow> engine_inv e"
proof (induction rule: engine_reach.induct)
  case reach_create
  show ?case by (simp add: engine_inv_defs ffi_create_def)
qed (rule engine_step_inv)

section \<open>Base tables without a view\<close>

text \<open>A table whose base node leads nowhere: what is written to it is dropped.\<close>

definition detached :: "bytes \<Rightarrow> executor \<Rightarrow> bool" where
  "detached t ex \<longleftrightarrow> (\<exists>b<length (ex_nodes ex). ex_base_tables ex t = Some b \<and> nd_children (ex_nodes ex ! b) = [] \<and> nd_state (ex_nodes ex ! b) = None)"

lemma detached_write: "detached t ex \<Longrightarrow> apply_write order t recs ex = Some ex"
  by (auto simp: detached_def apply_write_def update_state_def)

lemma detached_add: "detached t (snd (add_base_table t cols ex))"
  by (simp add: detached_def add_base_table_def nth_append)

lemma detached_add_other: "detached t ex \<Longrightarrow> detached t (snd (add_base_table t' cols ex))"
proof (cases "t' = t")
  case False
  then show "detached t ex \<Longrightarrow> detached t (snd (add_base_table t' cols ex))"
    by (auto simp: detached_def add_base_table_def nth_append)
qed (simp add: detached_add)

lemma lookup_add_base: "vh_node vh < length (ex_nodes ex) \<Longrightarrow> lookup (snd (add_base_table t cols ex)) vh key = lookup ex vh key"
  by (simp add: lookup_def add_base_table_def nth_append)

text \<open>What registering schemas keeps of an engine.\<close>

definition same_views :: "engine \<Rightarrow> engine \<Rightarrow> bool" where
  "same_views e e' \<longleftrightarrow> en_views e' = en_views e \<and> en_sql_to_view_id e' = en_sql_to_view_id e \<and> en_table_to_views e' = en_table_to_views e \<and>
     length (ex_nodes (en_executor e)) \<le> length (ex_nodes (en_executor e')) \<and>
     (\<forall>vh key. vh_node vh < length (ex_nodes (en_executor e)) \<longrightarrow> lookup (en_executor e') vh key = lookup (en_executor e) vh key)"

lemma same_views_refl: "same_views e e"
  by (simp add: same_views_def)

lemma same_views_trans: "same_views e e' \<Longrightarrow> same_views e' e'' \<Longrightarrow> same_views e e''"
  unfolding same_views_def by (metis le_trans less_le_trans)

lemma register_schema_executor:
  "en_executor (ffi_register_table_schema e t cols) = snd (add_base_table (to_lowercase t) cols (en_executor e))"
  by (simp add: ffi_register_table_schema_def Let_def)

lemma register_schema_same: "same_views e (ffi_register_table_schema e t cols)"
  unfolding same_views_def register_schema_executor
  by (simp add: lookup_add_base) (simp add: ffi_register_table_schema_def Let_def add_base_table_def)

lemma RegisterTableSchema_engine:
  assumes "m_handle n = Some (Some e)"
  obtains e' where "RegisterTableSchema (engine_ffi r cb) conn t n = n\<lparr>m_handle := Some (Some e')\<rparr>" "same_views e e'"
    "\<And>x. detached x (en_executor e) \<Longrightarrow> detached x (en_executor e')"
    "\<And>cols. IsEnabled n \<Longrightarrow> m_db n \<Longrightarrow> pragmaColumns conn (pragma_sql t) = Some cols \<Longrightarrow> List.map_filter (\<lambda>x. x) cols \<noteq> [] \<Longrightarrow>
      detached (to_lowercase t) (en_executor e')"
proof (cases "IsEnabled n \<and> m_db n \<and> (\<exists>cols. pragmaColumns conn (pragma_sql t) = Some cols \<and> List.map_filter (\<lambda>x. x) cols \<noteq> [])")
  case True
  then obtain cols where c: "IsEnabled n" "m_db n" "pragmaColumns conn (pragma_sql t) = Some cols" "List.map_filter (\<lambda>x. x) cols \<noteq> []" by blast
  let ?e = "ffi_register_table_schema e t (List.map_filter (\<lambda>x. x) cols)"
  have "RegisterTableSchema (engine_ffi r cb) conn t n = n\<lparr>m_handle := Some (Some ?e)\<rparr>"
    using c assms by (simp add: RegisterTableSchema_def engine_ffi_def Let_def id_def)
  then show ?thesis using that [of ?e] register_schema_same detached_add detached_add_other by (simp add: register_schema_executor)
next
  case False
  then have "RegisterTableSchema (engine_ffi r cb) conn t n = n"
    by (auto simp: RegisterTableSchema_def Let_def id_def split: option.splits)
  then show ?thesis using that [of e] same_views_refl assms False by auto
qed

lemma RegisterTableSchemas_engine:
  assumes "m_handle n = Some (Some e)" "IsEnabled n" "m_db n"
  shows "\<exists>e'. fold (RegisterTableSchema (engine_ffi r cb) conn) ts n = n\<lparr>m_handle := Some (Some e')\<rparr> \<and> same_views e e' \<and>
    (\<forall>t. detached t (en_executor e) \<longrightarrow> detached t (en_executor e')) \<and>
    (\<forall>t cols. t \<in> set ts \<longrightarrow> pragmaColumns conn (pragma_sql t) = Some cols \<longrightarrow> List.map_filter (\<lambda>x. x) cols \<noteq> [] \<longrightarrow>
      detached (to_lowercase t) (en_executor e'))"
  using assms
proof (induction ts arbitrary: n e)
  case (Cons t ts)
  obtain e1 where e1: "RegisterTableSchema (engine_ffi r cb) conn t n = n\<lparr>m_handle := Some (Some e1)\<rparr>" "same_views e e1"
    "\<And>x. detached x (en_executor e) \<Longrightarrow> detached x (en_executor e1)"
    "\<And>cols. pragmaColumns conn (pragma_sql t) = Some cols \<Longrightarrow> List.map_filter (\<lambda>x. x) cols \<noteq> [] \<Longrightarrow> detached (to_lowercase t) (en_executor e1)"
    using RegisterTableSchema_engine [OF Cons.prems(1)] Cons.prems(2,3) by metis
  have "m_handle (n\<lparr>m_handle := Some (Some e1)\<rparr>) = Some (Some e1)" "IsEnabled (n\<lparr>m_handle := Some (Some e1)\<rparr>)" "m_db (n\<lparr>m_handle := Some (Some e1)\<rparr>)"
    using Cons.prems by (simp_all add: IsEnabled_def)
  from Cons.IH [OF this] obtain e2 where e2: "fold (RegisterTableSchema (engine_ffi r cb) conn) ts (n\<lparr>m_handle := Some (Some e1)\<rparr>) = n\<lparr>m_handle := Some (Some e2)\<rparr>"
    "same_views e1 e2" "\<forall>t. detached t (en_executor e1) \<longrightarrow> detached t (en_executor e2)"
    "\<forall>t cols. t \<in> set ts \<longrightarrow> pragmaColumns conn (pragma_sql t) = Some cols \<longrightarrow> List.map_filter (\<lambda>x. x) cols \<noteq> [] \<longrightarrow>
      detached (to_lowercase t) (en_executor e2)" by auto
  show ?case by (rule exI [of _ e2]) (use e1 e2 same_views_trans in auto)
next
  case Nil
  have "n\<lparr>m_handle := Some (Some e)\<rparr> = n" using Nil.prems(1) by simp
  then show ?case by (intro exI [of _ e]) (simp add: same_views_refl)
qed

section \<open>Views on a base table\<close>

text \<open>A view that is the base node of its table itself, as for \<open>SELECT *\<close>, with no operator below.\<close>

definition base_view :: "executor \<Rightarrow> bytes \<Rightarrow> view_handle \<Rightarrow> memory_state \<Rightarrow> bool" where
  "base_view ex t vh s \<longleftrightarrow> ex_base_tables ex t = Some (vh_node vh) \<and> vh_node vh < length (ex_nodes ex) \<and>
     nd_children (ex_nodes ex ! vh_node vh) = [] \<and> nd_state (ex_nodes ex ! vh_node vh) = Some s"

lemma base_view_write:
  assumes "base_view ex t vh s" "process_records recs s = Some s'" "recs \<noteq> []"
  shows "\<exists>ex'. apply_write order t recs ex = Some ex' \<and> base_view ex' t vh s'"
proof -
  let ?ex = "ex\<lparr>ex_nodes := (ex_nodes ex)[vh_node vh := (ex_nodes ex ! vh_node vh)\<lparr>nd_state := Some s'\<rparr>]\<rparr>"
  have "apply_write order t recs ex = Some ?ex" using assms by (simp add: base_view_def apply_write_def update_state_def)
  moreover have "base_view ?ex t vh s'" using assms(1) by (simp add: base_view_def)
  ultimately show ?thesis by blast
qed

lemma base_view_lookup:
  "base_view ex t vh s \<Longrightarrow> ms_data s (from_slice key) = Some rs \<Longrightarrow> rs \<noteq> [] \<Longrightarrow> lookup ex vh key = Some rs"
  by (simp add: base_view_def lookup_def state_lookup_def)

lemma base_view_miss: "base_view ex t vh s \<Longrightarrow> lookup ex vh key = None \<Longrightarrow> ms_data s (from_slice key) = None"
  by (simp add: base_view_def lookup_def state_lookup_def split: option.splits if_splits)

text \<open>Rows with one key, added to a state.\<close>

lemma process_positive_key:
  assumes "from_row row (ms_key_columns s) = Some k"
  shows "\<exists>s'. process_record (Positive row) s = Some s' \<and> ms_key_columns s' = ms_key_columns s \<and> ms_data s' k = Some (rows_of s k @ [row])"
  using assms by (simp add: process_record_def rows_of_def Let_def)

lemma process_positives:
  assumes "\<forall>row\<in>set rs. from_row row (ms_key_columns s) = Some k" "rs \<noteq> []"
  shows "\<exists>s'. process_records (map Positive rs) s = Some s' \<and> ms_data s' k = Some (rows_of s k @ rs)"
  using assms
proof (induction rs arbitrary: s)
  case (Cons row rs)
  obtain s1 where s1: "process_record (Positive row) s = Some s1" "ms_key_columns s1 = ms_key_columns s" "ms_data s1 k = Some (rows_of s k @ [row])"
    using process_positive_key [of row s k] Cons.prems(1) by auto
  show ?case
  proof (cases "rs = []")
    case False
    then show ?thesis using Cons.IH [of s1] Cons.prems(1) s1 by (auto simp: rows_of_def)
  qed (use s1 in simp)
qed simp

lemma convert_values_nth:
  "convert_values r vs = Some ds \<Longrightarrow> i < length vs \<Longrightarrow> noria_value_to_datatype r (vs ! i) = Some (ds ! i)"
proof (induction vs arbitrary: ds i)
  case (Cons v vs)
  then show ?case by (cases i) (auto split: bind_splits)
qed simp

text \<open>Normalisation depends on the text in upper case only.\<close>

lemma split_whitespace_toupper: "split_whitespace (map toupper s) = map (map toupper) (split_whitespace s)"
proof (induction s rule: split_whitespace.induct)
  case (1 s)
  have d: "dropWhile isspace (map toupper s) = map toupper (dropWhile isspace s)"
    "takeWhile (\<lambda>c. \<not> isspace c) (map toupper t) = map toupper (takeWhile (\<lambda>c. \<not> isspace c) t)"
    "dropWhile (\<lambda>c. \<not> isspace c) (map toupper t) = map toupper (dropWhile (\<lambda>c. \<not> isspace c) t)" for t
    by (simp_all add: dropWhile_map takeWhile_map comp_def)
  show ?case
  proof (cases "dropWhile isspace s = []")
    case True
    then show ?thesis unfolding split_whitespace.simps [of s] split_whitespace.simps [of "map toupper s"] Let_def d by simp
  next
    case False
    then show ?thesis using 1 [OF refl False]
      unfolding split_whitespace.simps [of s] split_whitespace.simps [of "map toupper s"] Let_def d by simp
  qed
qed

lemma join_words_map: "map f (join_words ws) = (if f 0x20 = 0x20 then join_words (map (map f) ws) else map f (join_words ws))"
  by (induction ws rule: join_words.induct) auto

lemma normalize_sql_cong:
  assumes "map toupper sql' = map toupper sql"
  shows "normalize_sql sql' = normalize_sql sql"
proof -
  have "normalize_sql q = join_words (split_whitespace (map toupper q))" for q
    using join_words_map [of toupper "split_whitespace q"] by (simp add: normalize_sql_def split_whitespace_toupper toupper_def)
  then show ?thesis using assms by simp
qed

text \<open>
  Values that the engine returns as it got them: NULL, integers, and valid texts without a zero byte that, if
  they are longer than 15 bytes, the C strings keep.
\<close>

fun exact_value :: "rust_env \<Rightarrow> noria_value \<Rightarrow> data_type option" where
  "exact_value r NORIA_NULL = Some DNone"
| "exact_value r (NORIA_INTEGER i) = Some (DBigInt (sint i))"
| "exact_value r (NORIA_TEXT z) = 
    (if 0 \<notin> set z \<and> r_utf8_lossy r z = z \<and> (length z \<le> TINYTEXT_WIDTH \<or> r_arc_cstr r z = Some z)
     then try_from_bytes (r_arc_cstr r) z else None)"
| "exact_value r _ = None"

lemma cached_records_nth:
  assumes "cached_records r vss = Some (map Positive rs)" "i < length vss" "j < length (vss ! i)"
  shows "i < length rs" "j < length (rs ! i)" "cached_value r (vss ! i ! j) = Some (rs ! i ! j)"
proof -
  have row: "length ds = length vs \<and> (\<forall>j<length vs. cached_value r (vs ! j) = Some (ds ! j))" if "cached_row r vs = Some ds" for vs ds
    using that
  proof (induction vs arbitrary: ds)
    case (Cons v vs)
    then show ?case by (fastforce simp: less_Suc_eq_0_disj split: bind_splits)
  qed simp
  have "length rs = length vss \<and> (\<forall>i<length vss. cached_row r (vss ! i) = Some (rs ! i))" using assms(1)
  proof (induction vss arbitrary: rs)
    case (Cons vs vss)
    then show ?case by (cases rs) (fastforce simp: less_Suc_eq_0_disj split: bind_splits)+
  qed simp
  then show "i < length rs" "j < length (rs ! i)" "cached_value r (vss ! i ! j) = Some (rs ! i ! j)"
    using row [of "vss ! i" "rs ! i"] assms(2,3) by auto
qed

lemma cached_records_length: "cached_records r vss = Some (map Positive rs) \<Longrightarrow> length rs = length vss"
  by (induction vss arbitrary: rs) (auto split: bind_splits)

lemma exact_value_cached:
  assumes "exact_value r v = Some d"
  shows "copied_value r v = v" "cached_value r v = Some d" "from_datatype r d = v"
proof -
  have t: "text_str d = z \<and> (\<exists>b. d = DText b \<or> d = DTinyText b)" if "v = NORIA_TEXT z" for z
    using assms text_str_from [of z "r_arc_cstr r" d] that by (cases d) (auto simp: try_from_bytes_def split: if_splits)
  show "copied_value r v = v" "cached_value r v = Some d" "from_datatype r d = v"
    using assms t by (cases v; auto simp: copied_value_def cached_value_def from_datatype_def split: if_splits)+
qed

lemma exact_rows_cached:
  assumes "list_all2 (list_all2 (\<lambda>v d. exact_value r v = Some d)) vss rs"
  shows "map (map (copied_value r)) vss = vss" "cached_records r vss = Some (map Positive rs)" "map (map (from_datatype r)) rs = vss"
proof -
  have row: "map (copied_value r) vs = vs \<and> cached_row r vs = Some ds \<and> map (from_datatype r) ds = vs"
    if "list_all2 (\<lambda>v d. exact_value r v = Some d) vs ds" for vs ds
    using that by (induction rule: list_all2_induct) (simp_all add: exact_value_cached)
  show "map (map (copied_value r)) vss = vss" "cached_records r vss = Some (map Positive rs)" "map (map (from_datatype r)) rs = vss"
    using assms by (induction rule: list_all2_induct; simp add: row)+
qed

text \<open>A miss that SQLite answers: the caller gets the rows, and the next lookup those that the cache holds.\<close>

lemma upquery_cached:
  assumes "0 \<le> i" "en_views e i = Some v" "convert_values r kvs = Some key"
    and "nd_state (ex_nodes (en_executor e) ! vh_node (ve_handle v)) = Some s" "vh_node (ve_handle v) < length (ex_nodes (en_executor e))"
    and "state_lookup s key = Missing" "cb (Some (ve_sql v)) kvs = (0, vss)" "vss \<noteq> []"
    and "cached_records r (map (map (copied_value r)) vss) = Some (map Positive rs)"
    and "\<forall>row\<in>set rs. from_row row (ms_key_columns s) = Some (from_slice key)"
  shows "\<exists>e' e''. ffi_lookup r (Some cb) e i kvs =
      Some (\<lparr>found = 1, row_count = c_int (int (length vss)), rows = Some (map (map (copied_value r)) vss)\<rparr>, e') \<and>
    ffi_lookup r None e' i kvs = Some (\<lparr>found = 1, row_count = c_int (int (length vss)), rows = Some (map (map (from_datatype r)) rs)\<rparr>, e'')"
proof -
  let ?nd = "vh_node (ve_handle v)" and ?ex = "en_executor e"
  have len: "length rs = length vss" "rs \<noteq> []" using cached_records_length [OF assms(9)] assms(8) by auto
  have miss: "ms_data s (from_slice key) = None" using assms(6) by (simp add: state_lookup_def split: option.splits if_splits)
  obtain s' where s': "process_records (map Positive rs) s = Some s'" "ms_data s' (from_slice key) = Some rs"
    using process_positives [OF assms(10) len(2)] miss by (auto simp: rows_of_def)
  let ?ex' = "?ex\<lparr>ex_nodes := (ex_nodes ?ex)[?nd := (ex_nodes ?ex ! ?nd)\<lparr>nd_state := Some s'\<rparr>]\<rparr>"
  let ?e = "e\<lparr>en_cache_misses := en_cache_misses e + 1, en_executor := ?ex'\<rparr>"
  have "inject_into_view (ve_handle v) (map Positive rs) ?ex = Some ?ex'"
    using assms(4) s'(1) by (simp add: inject_into_view_def update_state_def)
  then have "ffi_lookup r (Some cb) e i kvs = Some (\<lparr>found = 1, row_count = c_int (int (length vss)), rows = Some (map (map (copied_value r)) vss)\<rparr>, ?e)"
    using assms(1-4,6-9) by (simp add: ffi_lookup_def lookup_def Let_def)
  moreover have "lookup ?ex' (ve_handle v) key = Some rs" using assms(5) s'(2) len(2) by (simp add: lookup_def state_lookup_def)
  then have "\<exists>e''. ffi_lookup r None ?e i kvs = Some (\<lparr>found = 1, row_count = c_int (int (length vss)), rows = Some (map (map (from_datatype r)) rs)\<rparr>, e'')"
    using assms(1-3) len by (simp add: ffi_lookup_def)
  ultimately show ?thesis by blast
qed

text \<open>A short text with a zero byte comes back from the cache cut at the zero.\<close>

lemma cached_value_zero:
  assumes "0 \<in> set z" "length z < TINYTEXT_WIDTH" "r_utf8_lossy r z = z"
  shows "copied_value r (NORIA_TEXT z) = NORIA_TEXT z"
    "\<exists>d. cached_value r (NORIA_TEXT z) = Some d \<and> from_datatype r d = NORIA_TEXT (takeWhile (\<lambda>b. b \<noteq> 0) z)"
proof -
  show "copied_value r (NORIA_TEXT z) = NORIA_TEXT z" using assms(3) by (simp add: copied_value_def)
  have "(z @ replicate (TINYTEXT_WIDTH - length z) 0) ! (TINYTEXT_WIDTH - 1) = 0"
    using assms(2) by (simp add: nth_append TINYTEXT_WIDTH_def)
  then show "\<exists>d. cached_value r (NORIA_TEXT z) = Some d \<and> from_datatype r d = NORIA_TEXT (takeWhile (\<lambda>b. b \<noteq> 0) z)"
    using assms(1,2) takeWhile_append1 [of 0 z "\<lambda>b. b \<noteq> 0"]
    by (simp add: cached_value_def try_from_bytes_def from_datatype_def text_str_def)
qed

section \<open>An example\<close>

text \<open>The query \<open>SELECT * FROM t\<close> on a table with two columns, as a view on its base node keyed by the first.\<close>

definition example_rust :: rust_env where
  "example_rust = \<lparr>r_utf8_lossy = (\<lambda>z. z), r_arc_cstr = (\<lambda>z. if 0 \<in> set z then None else Some z), r_to_real = (\<lambda>_. None), r_of_real = (\<lambda>_ _. 0), r_group_order = (\<lambda>_ ks. ks),
     r_convert_select = (\<lambda>schemas sql ex.
       case ex_base_tables ex [0x74] of
         Some b \<Rightarrow> (case materialize b [0] ex of Some (vh, ex) \<Rightarrow> (Some vh, ex) | None \<Rightarrow> (None, ex))
       | None \<Rightarrow> (None, ex))\<rparr>"

definition example_sql :: bytes where
  "example_sql = [0x53, 0x45, 0x4c, 0x45, 0x43, 0x54, 0x20, 0x2a, 0x20, 0x46, 0x52, 0x4f, 0x4d, 0x20, 0x74]"

definition example_handle :: view_handle where
  "example_handle = \<lparr>vh_node = 0, vh_key_columns = [0]\<rparr>"

abbreviation example_text :: data_type where
  "example_text \<equiv> DTinyText (0x78 # replicate 14 0)"

definition example_registered :: engine where
  "example_registered = snd (ffi_register_view example_rust (ffi_register_table_schema ffi_create [0x74] [[0x61], [0x62]]) example_sql)"

lemma example_tables: "extract_tables example_sql = [[0x74]]" "tables_from_sql example_sql = [[0x74]]" "to_lowercase [0x74] = [0x74]"
  by code_simp+

lemma example_registered:
  "en_sql_to_view_id example_registered (normalize_sql example_sql) = Some 0"
  "en_views example_registered 0 = Some \<lparr>ve_handle = example_handle, ve_sql = example_sql, ve_tables = [[0x74]]\<rparr>"
  "base_view (en_executor example_registered) [0x74] example_handle (MemoryState_new [0])"
  "ffi_table_has_views example_registered [0x74] = 1"
  by (simp_all add: example_registered_def ffi_register_view_def ffi_register_table_schema_def ffi_create_def example_tables example_rust_def
      add_base_table_def LocalExecutor_new_def materialize_def example_handle_def base_view_def Let_def ffi_table_has_views_def add_table_view_def)

section \<open>Properties\<close>

text \<open>C10: in every state the engine reaches by calls of its interface, the ids of views are the numbers below the next
  one, every registered text leads to a view, tables and their ids correspond one to one, and
  the views listed for a table are exactly the views whose query names it.  So a change is
  passed on (\<open>noria_table_has_views\<close>) exactly if some view depends on its table.\<close>

theorem engine_invariant:
  assumes "engine_reach r e"
  shows "engine_inv e \<and> (ffi_table_has_views e t = 1 \<longleftrightarrow> (\<exists>i. to_lowercase t \<in> set (view_tables e i)))"
proof -
  have i: "engine_inv e" by (rule engine_reach_inv [OF assms])
  then have "en_table_to_views e (to_lowercase t) \<noteq> Some []"
    "set (table_views e (to_lowercase t)) = {i. to_lowercase t \<in> set (view_tables e i)}"
    unfolding engine_inv_def tables_inv_def by blast+
  then have "en_table_to_views e (to_lowercase t) \<noteq> None \<longleftrightarrow> {i. to_lowercase t \<in> set (view_tables e i)} \<noteq> {}"
    by (cases "en_table_to_views e (to_lowercase t)") (simp_all add: table_views_def flip: set_empty)
  then show ?thesis using i by (simp add: ffi_table_has_views_def)
qed

theorem engine_invariant_witness: "engine_inv example_registered \<and> ffi_table_has_views example_registered [0x54] = 1"
proof -
  have "engine_reach example_rust example_registered" unfolding example_registered_def
    by (rule reach_engine [OF reach_engine [OF reach_create engine_step.register_table_schema] engine_step.register_view])
      (simp add: ffi_register_table_schema_def ffi_create_def Let_def)
  from engine_invariant [OF this, of "[0x54]"] show ?thesis
    using example_registered(2) by (auto simp: view_tables_def to_lowercase_def tolower_def intro!: exI [of _ 0])
qed

text \<open>C11: a lookup that misses asks SQLite and keeps the rows: the caller gets the rows of the query, and the next
  lookup of the same key answers from the view with the same rows, provided they consist of
  integers, NULL and valid texts without zero bytes, and have that key.\<close>

theorem upquery_then_hit:
  assumes "0 \<le> i" "en_views e i = Some v" "convert_values r kvs = Some key"
    and "nd_state (ex_nodes (en_executor e) ! vh_node (ve_handle v)) = Some s" "vh_node (ve_handle v) < length (ex_nodes (en_executor e))"
    and "state_lookup s key = Missing" "cb (Some (ve_sql v)) kvs = (0, vss)" "vss \<noteq> []"
    and "list_all2 (list_all2 (\<lambda>v d. exact_value r v = Some d)) vss rs"
    and "\<forall>row\<in>set rs. from_row row (ms_key_columns s) = Some (from_slice key)"
  shows "\<exists>e' e''. ffi_lookup r (Some cb) e i kvs = Some (\<lparr>found = 1, row_count = c_int (int (length vss)), rows = Some vss\<rparr>, e') \<and>
    ffi_lookup r None e' i kvs = Some (\<lparr>found = 1, row_count = c_int (int (length vss)), rows = Some vss\<rparr>, e'')"
  using upquery_cached [where cb = cb and rs = rs, OF assms(1-8) _ assms(10)] exact_rows_cached [OF assms(9)] by simp

theorem upquery_then_hit_witness:
  "\<exists>e' e''. ffi_lookup example_rust (Some (\<lambda>_ _. (0, [[NORIA_INTEGER 7, NORIA_TEXT [0x78]]]))) example_registered 0 [NORIA_INTEGER 7] =
      Some (\<lparr>found = 1, row_count = 1, rows = Some [[NORIA_INTEGER 7, NORIA_TEXT [0x78]]]\<rparr>, e') \<and>
    ffi_lookup example_rust None e' 0 [NORIA_INTEGER 7] = Some (\<lparr>found = 1, row_count = 1, rows = Some [[NORIA_INTEGER 7, NORIA_TEXT [0x78]]]\<rparr>, e'')"
  using upquery_then_hit [of 0 example_registered "\<lparr>ve_handle = example_handle, ve_sql = example_sql, ve_tables = [[0x74]]\<rparr>" example_rust
      "[NORIA_INTEGER 7]" "[DBigInt 7]" "MemoryState_new [0]" "\<lambda>_ _. (0, [[NORIA_INTEGER 7, NORIA_TEXT [0x78]]])"
      "[[NORIA_INTEGER 7, NORIA_TEXT [0x78]]]" "[[DBigInt 7, example_text]]"] example_registered(2,3)
  by (simp add: base_view_def noria_value_to_datatype_def state_lookup_def MemoryState_new_def from_row_def from_slice_def column_def example_rust_def
      try_from_bytes_def TINYTEXT_WIDTH_def c_int_small)

text \<open>C21: a text with a zero byte is cut by the cache.  The first lookup of a key returns the text as SQLite has it;
  the next one, answered from the view, returns it up to its first zero byte.\<close>

theorem text_cut_at_zero:
  assumes "0 \<le> i" "en_views e i = Some v" "convert_values r kvs = Some key"
    and "nd_state (ex_nodes (en_executor e) ! vh_node (ve_handle v)) = Some s" "vh_node (ve_handle v) < length (ex_nodes (en_executor e))"
    and "state_lookup s key = Missing" "cb (Some (ve_sql v)) kvs = (0, vss)" "vss \<noteq> []"
    and "cached_records r (map (map (copied_value r)) vss) = Some (map Positive rs)"
    and "\<forall>row\<in>set rs. from_row row (ms_key_columns s) = Some (from_slice key)"
    and "k < length vss" "j < length (vss ! k)" "vss ! k ! j = NORIA_TEXT z"
    and "0 \<in> set z" "length z < TINYTEXT_WIDTH" "r_utf8_lossy r z = z"
  shows "\<exists>rows1 rows2 e' e''. ffi_lookup r (Some cb) e i kvs = Some (\<lparr>found = 1, row_count = c_int (int (length vss)), rows = Some rows1\<rparr>, e') \<and>
    ffi_lookup r None e' i kvs = Some (\<lparr>found = 1, row_count = c_int (int (length vss)), rows = Some rows2\<rparr>, e'') \<and>
    rows1 ! k ! j = NORIA_TEXT z \<and> rows2 ! k ! j = NORIA_TEXT (takeWhile (\<lambda>b. b \<noteq> 0) z)"
proof -
  have c: "map (map (copied_value r)) vss ! k ! j = NORIA_TEXT z" using assms(11-13) cached_value_zero(1) [OF assms(14-16)] by simp
  have n: "k < length rs" "j < length (rs ! k)" "cached_value r (NORIA_TEXT z) = Some (rs ! k ! j)"
    using cached_records_nth [OF assms(9), of k j] assms(11,12) c by simp_all
  then have "map (map (from_datatype r)) rs ! k ! j = NORIA_TEXT (takeWhile (\<lambda>b. b \<noteq> 0) z)"
    using cached_value_zero(2) [OF assms(14-16)] by auto
  with c show ?thesis using upquery_cached [where cb = cb and rs = rs, OF assms(1-10)] by blast
qed

theorem text_cut_at_zero_witness:
  "\<exists>rows1 rows2 e' e''. ffi_lookup example_rust (Some (\<lambda>_ _. (0, [[NORIA_INTEGER 7, NORIA_TEXT [0x78, 0, 0x79]]]))) example_registered 0 [NORIA_INTEGER 7] =
      Some (\<lparr>found = 1, row_count = 1, rows = Some rows1\<rparr>, e') \<and>
    ffi_lookup example_rust None e' 0 [NORIA_INTEGER 7] = Some (\<lparr>found = 1, row_count = 1, rows = Some rows2\<rparr>, e'') \<and>
    rows1 ! 0 ! 1 = NORIA_TEXT [0x78, 0, 0x79] \<and> rows2 ! 0 ! 1 = NORIA_TEXT [0x78]"
  using text_cut_at_zero [of 0 example_registered "\<lparr>ve_handle = example_handle, ve_sql = example_sql, ve_tables = [[0x74]]\<rparr>" example_rust
      "[NORIA_INTEGER 7]" "[DBigInt 7]" "MemoryState_new [0]" "\<lambda>_ _. (0, [[NORIA_INTEGER 7, NORIA_TEXT [0x78, 0, 0x79]]])"
      "[[NORIA_INTEGER 7, NORIA_TEXT [0x78, 0, 0x79]]]" "[[DBigInt 7, DTinyText ([0x78, 0, 0x79] @ replicate 12 0)]]" 0 1 "[0x78, 0, 0x79]"] example_registered(2,3)
  by (simp add: base_view_def noria_value_to_datatype_def state_lookup_def MemoryState_new_def from_row_def from_slice_def column_def example_rust_def
      copied_value_def cached_value_def try_from_bytes_def TINYTEXT_WIDTH_def c_int_small)

text \<open>C18: registering a query a second time cuts its views off.  \<open>RegisterView\<close> of the wrapper registers the
  schemas of the tables first, and the engine makes a new base node each time.  If the query is
  registered already, the wrapper gets the id of the old view, which keeps its rows and its answers; but
  no write to a table of the query changes the engine any more.\<close>

theorem reregister_detaches:
  assumes "m_handle n = Some (Some e)" "IsEnabled n" "m_db n" "en_sql_to_view_id e (normalize_sql sql) = Some vid"
    and "t \<in> set (tables_from_sql sql)" "pragmaColumns conn (pragma_sql t) = Some cols" "List.map_filter (\<lambda>x. x) cols \<noteq> []"
  shows "\<exists>n' e'. RegisterView (engine_ffi r cb) conn sql n = (vid, n') \<and> m_handle n' = Some (Some e') \<and> same_views e e' \<and>
    (\<forall>recs. write_table r e' t recs = Some e')"
proof -
  obtain e' where e': "RegisterTablesFromSql (engine_ffi r cb) conn sql n = n\<lparr>m_handle := Some (Some e')\<rparr>" "same_views e e'"
    "detached (to_lowercase t) (en_executor e')"
    using RegisterTableSchemas_engine [OF assms(1-3), of r cb conn "tables_from_sql sql"] assms(5-7) unfolding RegisterTablesFromSql_def by blast
  have "en_sql_to_view_id e' (normalize_sql sql) = Some vid" using e'(2) assms(4) by (simp add: same_views_def)
  then have v: "noria_register_view (engine_ffi r cb) (Some e') sql = (vid, Some e')"
    by (simp add: engine_ffi_def on_engine_def ffi_register_view_def)
  have "\<exists>n'. RegisterView (engine_ffi r cb) conn sql n = (vid, n') \<and> m_handle n' = Some (Some e')"
    using assms(2) e'(1) v by (simp add: RegisterView_def Let_def EnsureSession_def split: prod.split)
  moreover have "write_table r e' t recs = Some e'" for recs using detached_write [OF e'(3)] by (simp add: write_table_def)
  ultimately show ?thesis using e'(2) by blast
qed

definition example_wrapper :: "engine option noria" where
  "example_wrapper = \<lparr>m_handle = Some (Some example_registered), m_db = True, m_session = None, m_enabled = True, m_has_any_views = True,
     m_buffered_old_rows = (\<lambda>_. None)\<rparr>"

theorem reregister_detaches_witness:
  "\<exists>n' e'. RegisterView (engine_ffi example_rust (\<lambda>_ _. (-1, []))) ((example_connection example_db)\<lparr>pragmaColumns := (\<lambda>_. Some [Some [0x61], Some [0x62]])\<rparr>)
      example_sql example_wrapper = (0, n') \<and> m_handle n' = Some (Some e') \<and> write_table example_rust e' [0x74] [Positive [DBigInt 1, DNone]] = Some e'"
  using reregister_detaches [of example_wrapper example_registered example_sql 0 "[0x74]"
      "(example_connection example_db)\<lparr>pragmaColumns := (\<lambda>_. Some [Some [0x61], Some [0x62]])\<rparr>" "[Some [0x61], Some [0x62]]" example_rust "\<lambda>_ _. (-1, [])"]
    example_registered(1) example_tables(2)
  by (auto simp: example_wrapper_def IsEnabled_def map_filter_simps)

text \<open>C19: a write fills a hole with one row.  If a view on a base table has no rows for a key (because they have
  not been asked for yet, whatever the table holds), and a row with that key is inserted, then the next lookup
  finds the key and returns that row alone.\<close>

theorem hole_filled:
  assumes "base_view ex t vh s" "lookup ex vh key = None" "from_row row (ms_key_columns s) = Some (from_slice key)"
  shows "\<exists>ex'. apply_write order t [Positive row] ex = Some ex' \<and> lookup ex' vh key = Some [row]"
proof -
  obtain s' where s': "process_records [Positive row] s = Some s'" "ms_data s' (from_slice key) = Some [row]"
    using process_positives [of "[row]" s "from_slice key"] base_view_miss [OF assms(1,2)] assms(3) by (auto simp: rows_of_def)
  obtain ex' where "apply_write order t [Positive row] ex = Some ex'" "base_view ex' t vh s'"
    using base_view_write [OF assms(1) s'(1)] by auto
  then show ?thesis using base_view_lookup s'(2) by auto
qed

theorem hole_filled_witness:
  "\<exists>ex'. apply_write (\<lambda>_. rev) [0x74] [Positive [DBigInt 7, example_text]] (en_executor example_registered) = Some ex' \<and>
    lookup ex' example_handle [DBigInt 7] = Some [[DBigInt 7, example_text]]"
proof -
  have "lookup (en_executor example_registered) example_handle [DBigInt 7] = None"
    using example_registered(3) by (simp add: base_view_def lookup_def state_lookup_def MemoryState_new_def)
  then show ?thesis
    using hole_filled [OF example_registered(3), of "[DBigInt 7]" "[DBigInt 7, example_text]"]
    by (simp add: MemoryState_new_def from_row_def from_slice_def column_def)
qed

text \<open>C17: an update empties the columns it leaves alone.  Take a view on a base table that holds a row, and an
  update of that row which leaves the column i, outside the primary key, unchanged.  The change as the wrapper delivers
  it replaces the row in the view by one with NULL in that column, whatever was there.\<close>

theorem cached_row_blanked:
  assumes "change_wf pk c" "ch_op c = SQLITE_UPDATE" "m_buffered_old_rows n = (\<lambda>_. None)"
    and "i < length pk" "pk ! i = 0" "ch_new c ! i = None"
    and "ffi_table_has_views e t \<noteq> 0" "base_view (en_executor e) (to_lowercase t) vh s"
    and "convert_values r (map SqliteValueToNoria (ch_old c)) = Some old_r"
    and "convert_values r (new_row (map SqliteValueToNoria (ch_old c)) (ch_new c)) = Some new_r"
    and "ms_data s (from_slice key) = Some [stored]" "wildcard_match old_r stored"
    and "from_row old_r (ms_key_columns s) = Some (from_slice key)" "from_row new_r (ms_key_columns s) = Some (from_slice key)"
  shows "\<exists>e'. apply_change (engine_ffi r cb) n (t, pk, c) (Some e) = Some e' \<and> lookup (en_executor e') vh key = Some [new_r] \<and> new_r ! i = DNone"
proof -
  have len: "length (ch_old c) = length pk" "length (ch_new c) = length pk" "ch_old c ! i = None" using assms(1,2,4-6) by (auto simp: change_wf_def)
  have "old_row n t c = map SqliteValueToNoria (ch_old c)" using assms(3) by (simp add: old_row_def buffered_values_def GetBufferedOldRow_def)
  moreover have "pk \<noteq> []" using assms(4) by auto
  ultimately have "apply_change (engine_ffi r cb) n (t, pk, c) (Some e) = write_table r e t [Negative old_r, Positive new_r]"
    using assms(2,7,9,10) by (simp add: apply_change_def engine_ffi_def ffi_apply_update_def)
  moreover obtain s' where s': "process_records [Negative old_r, Positive new_r] s = Some s'" "ms_data s' (from_slice key) = Some [new_r]"
    using assms(11-14) by (auto simp: process_record_def Let_def remove_nth_def)
  moreover obtain ex' where "apply_write (r_group_order r) (to_lowercase t) [Negative old_r, Positive new_r] (en_executor e) = Some ex'" "base_view ex' (to_lowercase t) vh s'"
    using base_view_write [OF assms(8) s'(1)] by auto
  moreover have "new_row (map SqliteValueToNoria (ch_old c)) (ch_new c) ! i = NORIA_NULL" using len assms(4,6) by (simp add: new_row_def)
  then have "new_r ! i = DNone" using convert_values_nth [OF assms(10), of i] len assms(4) by (simp add: new_row_def noria_value_to_datatype_def)
  ultimately show ?thesis using base_view_lookup [OF _ s'(2)] by (simp add: write_table_def)
qed

definition example_partial_update :: change where
  "example_partial_update = \<lparr>ch_op = SQLITE_UPDATE, ch_indirect = 0, ch_old = [Some (VInteger 7), None, Some (VInteger 0)],
     ch_new = [None, None, Some (VInteger 1)]\<rparr>"

definition example_held :: memory_state where
  "example_held = (MemoryState_new [0])\<lparr>ms_data := [Single (DBigInt 7) \<mapsto> [[DBigInt 7, example_text, DBigInt 0]]], ms_row_count := 1\<rparr>"

definition example_holding :: engine where
  "example_holding = example_registered\<lparr>en_executor := \<lparr>ex_nodes = [\<lparr>nd_operator = None, nd_parents = [], nd_children = [],
     nd_state = Some example_held, nd_columns = []\<rparr>], ex_base_tables = [[0x74] \<mapsto> 0]\<rparr>\<rparr>"

theorem cached_row_blanked_witness:
  "\<exists>e'. apply_change (engine_ffi example_rust (\<lambda>_ _. (-1, []))) example_wrapper ([0x74], [1, 0, 0], example_partial_update) (Some example_holding) = Some e' \<and>
    lookup (en_executor example_holding) example_handle [DBigInt 7] = Some [[DBigInt 7, example_text, DBigInt 0]] \<and>
    lookup (en_executor e') example_handle [DBigInt 7] = Some [[DBigInt 7, DNone, DBigInt 1]]"
proof -
  have b: "base_view (en_executor example_holding) (to_lowercase [0x74]) example_handle example_held"
    by (simp add: base_view_def example_holding_def example_handle_def example_tables(3))
  have v: "ffi_table_has_views example_holding [0x74] \<noteq> 0"
    using example_registered(4) by (simp add: ffi_table_has_views_def example_holding_def)
  have wf: "change_wf [1, 0, 0] example_partial_update" by (simp add: change_wf_def example_partial_update_def All_less_Suc numeral_3_eq_3)
  have "lookup (en_executor example_holding) example_handle [DBigInt 7] = Some [[DBigInt 7, example_text, DBigInt 0]]"
    using base_view_lookup [OF b] by (simp add: example_held_def from_slice_def)
  moreover have "\<exists>e'. apply_change (engine_ffi example_rust (\<lambda>_ _. (-1, []))) example_wrapper ([0x74], [1, 0, 0], example_partial_update) (Some example_holding) = Some e' \<and>
    lookup (en_executor e') example_handle [DBigInt 7] = Some [[DBigInt 7, DNone, DBigInt 1]]"
    using cached_row_blanked [OF wf _ _ _ _ _ v b, of example_wrapper 1 example_rust "[DBigInt 7, DNone, DBigInt 0]" "[DBigInt 7, DNone, DBigInt 1]" "[DBigInt 7]"
        "[DBigInt 7, example_text, DBigInt 0]" "\<lambda>_ _. (-1, [])"]
    by (simp add: example_partial_update_def example_wrapper_def SqliteValueToNoria_def noria_value_to_datatype_def new_row_def example_held_def from_slice_def
        wildcard_match_def from_row_def column_def MemoryState_new_def)
  ultimately show ?thesis by blast
qed

text \<open>C20: queries that differ in case only share a view, even where the case is that of a string: the second one is
  answered with the id of the view of the first, and nothing is built for it.\<close>

theorem view_shared:
  assumes "en_sql_to_view_id e (normalize_sql sql) = Some vid" "map toupper sql' = map toupper sql"
  shows "ffi_register_view r e sql' = (vid, e)"
proof -
  have "normalize_sql sql' = normalize_sql sql" using assms(2) by (rule normalize_sql_cong)
  then show ?thesis using assms(1) by (simp add: ffi_register_view_def)
qed

theorem view_shared_witness:
  "ffi_register_view example_rust example_registered [0x73, 0x65, 0x6c, 0x65, 0x63, 0x74, 0x20, 0x2a, 0x20, 0x66, 0x72, 0x6f, 0x6d, 0x20, 0x54] =
    (0, example_registered)"
  using view_shared [OF example_registered(1), of "[0x73, 0x65, 0x6c, 0x65, 0x63, 0x74, 0x20, 0x2a, 0x20, 0x66, 0x72, 0x6f, 0x6d, 0x20, 0x54]" example_rust]
  by (simp add: example_sql_def toupper_def)

end
