(* ===== verification/Spec2Isabelle.thy ===== *)
theory Spec2Isabelle
  imports SessionTracking ConnectionRows ConnectionCdc CustomTables ErrorCodes Opening EngineProps
begin

text \<open>
  Verification of noria-better-sqlite3, the SQLite addon of Noria, and of the dataflow engine behind it.

  \<^bold>\<open>The program.\<close>  The addon (src/noria-better-sqlite3/src) is better-sqlite3 with an engine beside the
  database.  JavaScript calls the methods of \<open>Database\<close>, \<open>Statement\<close>, \<open>StatementIterator\<close> and \<open>Backup\<close>
  (objects/); they convert and bind arguments (util/data.cpp, util/binder.cpp, util/bind-map.cpp), step
  statements of SQLite, and call user-defined functions, aggregates and tables (util/custom-*.cpp).  The
  wrapper \<open>Noria\<close> (util/noria.cpp) registers a view for each query that is prepared, answers \<open>get()\<close> from the
  views, and records the changes of the connection with the session extension of SQLite
  (deps/sqlite3/sqlite3.c).  After a write it turns the session into a changeset, reads the changeset back and
  applies each change to the engine.  The engine (noria-ffi/src/lib.rs over src/noria-sqlite/src/dataflow)
  keeps views as materialised nodes of a graph of operators through which added and removed rows flow.

  \<^bold>\<open>The theories and what they model.\<close>
  \<^item> Prelude: machine types, buffers, the locale \<open>codec\<close> of self-delimiting encodings with its
    lemmas on lists of encoded items, and the rule collections of the components.
  \<^item> Varint: the integers of variable length of sqlite3.c, writers, unrolled readers and length function.
  \<^item> SessionValue, SessionRecord: values and records of the session extension, hashes and comparison of
    keys, merging of changes.  SessionTrack, SessionTracking: the pre-update hook and what a session has recorded.
    SessionBuffer, ChangesetWrite, ChangesetGenerate: growing buffers and the generation of a
    changeset.  ChangesetIter: the iterator over one.  The static functions of the extension are
    in sqlite3.c from line 230940 on (\<open>sessionSerializeValue\<close> to \<open>sqlite3changeset_finalize\<close>), and the definitions have their
    names; the functions that the addon calls are declared and documented in sqlite3.h.
  \<^item> SqlText: what the addon reads off the text of a statement: the tables of a query, text after
    the first statement, the kind of a statement.
  \<^item> NoriaBridge: the class \<open>Noria\<close> as a record (engine, session, flags, buffered rows) with
    one definition for each method; the engine is the record \<open>engine_api\<close> of the functions of noria.h.
  \<^item> JsData, Binder: JavaScript values, their conversion to and from SQL values, rows, and the binding of arguments.
  \<^item> Connection: one connection with its statements, iterators and backups; \<open>invoke\<close> is a call of a method and \<open>calls\<close> a
    sequence of them.  SQLite is the record \<open>env\<close>, functions on a state \<open>'q\<close> of the connection.
    ConnectionFrame, ConnectionInv: the invariant and what each method keeps.  ConnectionProps, ConnectionRows,
    ConnectionCdc: properties.  Opening: the constructor.
  \<^item> CustomFunctions, CustomTables: the callbacks of functions, aggregates and tables; JavaScript is a parameter.
  \<^item> ErrorCodes: result codes and their names in util/constants.cpp.
  \<^item> Dataflow, Aggregates, Executor: values (noria/src/data.rs), records, states and operators of the engine and the
    graph (mod.rs, state.rs, ops.rs, executor.rs).  DataflowViews: what the views hold.  EngineFfi,
    EngineProps: the functions of noria.h on top of it, with a value of \<open>engine_api\<close>, so that what is proved of
    the wrapper for any engine holds with this one.

  \<^bold>\<open>Interfaces.\<close>  \<open>codec\<close> (a reader that inverts a writer, whatever follows) is interpreted by the varints
  and by serialised values.  \<open>change_handler\<close> (a function called for each change) is interpreted by the body of the
  loop in \<open>ProcessSessionChangeset\<close>, with \<open>apply_change\<close> as its effect.  \<open>incremental_operator\<close> (from a valid change of its input an
  operator makes a valid change of its result) is interpreted by the aggregate and by every operator
  with one input, and carries the proof for the graph.

  \<^bold>\<open>What is shown.\<close>  The chain from a write to a view: the hook records each row once, with the values it had at first
  (C6); the changeset is the encoding of the difference to the rows now in the database (C5), and reading gives back what
  was encoded (C7, on C12 to C14); so the wrapper hands exactly this difference to the engine (C3), and \<open>run()\<close> does so
  before it returns (C1); and a view of the engine equals its query after any such changes (C4, C9).  The states of the
  connection, the wrapper and the engine keep their invariants under all calls (C2, C8, C10), a busy
  connection is not disturbed and a closed one not used (C29, C30), opening leaks no handle (C36).  Lookups (C11, C35),
  binding and rows (C26 to C28, C31 to C33), user-defined functions and tables (C37 to C39), scanning of SQL text (C23, C24)
  and error codes (C40) do what they are for.  Where the code falls short, the theorem says what it does:
  C15 to C22, C25, C28 and C34.

  \<^bold>\<open>Bounds, fuel and undefined behaviour.\<close>  Integers have their width where a value can reach it: words in the
  session extension, wrap-around written out (\<open>i64\<close>, \<open>c_int\<close>) for the sums and counts of aggregates and the ids and counts at the
  C interface.  C4 and C9 therefore speak of tables that never hold 2^63 rows, and C10 of fewer than 2^31 views.  Loops that may not
  end are \<open>partial_function\<close>s with \<open>None\<close> for not ending; for the loops over changes, rows and virtual
  tables the properties state that they end.  \<open>propagate\<close> has fuel one more than the number of nodes: children
  have greater numbers than their parents, so that it never runs out (part of C4).  \<open>scan\<close> of CustomTables is
  what SQLite does with a cursor, with the number of rows as fuel; C39 says how much is enough.  \<open>None\<close> is also undefined behaviour of C++ and a
  panic of Rust.  Assertions are not checked in a release build; the model stops at the two of backups that
  a method relies on, see Connection.

  \<^bold>\<open>What is a parameter.\<close>  The SQL side of SQLite (preparing and stepping, the schema, the current row of a key),
  V8 and user code, \<open>String::from_utf8_lossy\<close>, the conversion of doubles, the crate arccstr, and the order of Rust's hash
  tables.  The conversion of a query to operators (dataflow/sql.rs) works on the syntax tree of the crate
  sqlite3-parser, which is not part of the repository; it is a parameter of the engine, and C4 starts from the graph.

  \<^bold>\<open>What is not modelled.\<close>  The rest of SQLite; applying, inverting and rebasing of changesets, which the addon
  does not call; joins are modelled, but C4 is about operators with one input; garbage collection and the freeing of
  memory; threads (a connection is used by one); the JavaScript files in lib/, which check arguments and call the
  addon; the Rust library noria-sqlite around the dataflow, the Noria server and its applications, which the
  addon does not use.
\<close>

section \<open>From a recorded change to the engine\<close>

text \<open>What the wrapper does with the changes of a session outside a transaction.\<close>

lemma NotifyChange_difference:
  assumes "m_session n = Some s" and "m_has_any_views n" and "m_handle n = Some e"
    and "autocommit conn" and "allocOk conn = granted" and "createRc conn = SQLITE_OK"
    and "session_recorded (sessionDb conn) s" and "session_content (sessionDb conn) s \<noteq> []"
  shows "NotifyChange api conn n = Some (n\<lparr>
      m_handle := Some (fold (apply_change api n) (views (session_content (sessionDb conn) s)) e),
      m_session := Some fresh_session, m_buffered_old_rows := (\<lambda>_. None)\<rparr>)"
  using ProcessSessionChangeset_applies [OF assms(1,2,4,3) _ session_content_wf [OF assms(7)] assms(8), of s api]
    sqlite3session_changeset_content [OF assms(7)] assms(5,6)
  by (simp add: NotifyChange_def)

text \<open>C3: outside a transaction, with views registered and the session intact, the wrapper brings the
  engine up to date with the database: the engine receives, in order and for the tables that
  have views, exactly the difference between the rows recorded by the session and the rows now
  in the database, and recording starts afresh.\<close>

theorem cdc_delivers_difference:
  assumes "m_session n = Some s" and "m_has_any_views n" and "m_handle n = Some e"
    and "autocommit conn" and "allocOk conn = granted" and "createRc conn = SQLITE_OK"
    and "session_recorded (sessionDb conn) s" and "session_content (sessionDb conn) s \<noteq> []"
  shows "NotifyChange api conn n = Some (n\<lparr>
      m_handle := Some (fold (apply_change api n) (views (session_content (sessionDb conn) s)) e),
      m_session := Some fresh_session, m_buffered_old_rows := (\<lambda>_. None)\<rparr>)"
  by (rule NotifyChange_difference [OF assms])

theorem cdc_delivers_difference_witness:
  "map_option m_handle (NotifyChange example_engine (example_connection example_db) (example_noria example_session)) =
    Some (Some [EvUpdate [0x74] [NORIA_INTEGER 7, NORIA_TEXT [0x61]] [NORIA_INTEGER 7, NORIA_TEXT [0x62]],
                EvDelete [0x74] [NORIA_INTEGER 8, NORIA_NULL]])"
  using cdc_delivers_difference [of "example_noria example_session" example_session "[]" "example_connection example_db"
      example_engine] example_session_recorded example_session_content
  by (simp add: example_noria_def example_connection_def example_content_def views_def apply_change_def example_engine_def
      old_row_def new_row_def buffered_values_def GetBufferedOldRow_def SqliteValueToNoria_def)

text \<open>C16: an update reaches the engine without the values of the columns it leaves alone.  Let the session have recorded
  one row of a table with views, which now has other values.  The wrapper gives the engine an update whose old row has
  the recorded value in the columns of the primary key and in those that changed, and NULL in every other
  column, whatever the row holds; the new row has the new value in the columns that changed, and
  otherwise what the old row has.\<close>

theorem update_delivered:
  assumes "m_session n = Some s" and "m_has_any_views n" and "m_handle n = Some e"
    and "autocommit conn" and "allocOk conn = granted" and "createRc conn = SQLITE_OK"
    and "session_recorded (sessionDb conn) s" "pTable s = [T]" "nEntry T \<noteq> 0" "concat (apChange T) = [p]" "op p \<noteq> SQLITE_INSERT"
    and "current_row (sessionDb conn) T p = StepRow row" "vs = map the (recorded (nCol T) p)" "\<not> list_all2 value_same vs row"
    and "noria_table_has_views api e (zName T) \<noteq> 0" "m_buffered_old_rows n = (\<lambda>_. None)"
  shows "\<exists>os ns. NotifyChange api conn n = Some (n\<lparr>m_handle := Some (noria_apply_update api e (zName T) os ns),
        m_session := Some fresh_session, m_buffered_old_rows := (\<lambda>_. None)\<rparr>) \<and>
    length os = nCol T \<and> length ns = nCol T \<and>
    (\<forall>j<nCol T.
       os ! j = (if abPK T ! j = 0 \<and> value_same (vs ! j) (row ! j) then NORIA_NULL else SqliteValueToNoria (Some (vs ! j))) \<and>
       ns ! j = (if value_same (vs ! j) (row ! j) then os ! j else SqliteValueToNoria (Some (row ! j))))"
proof -
  let ?c = "\<lparr>ch_op = SQLITE_UPDATE, ch_indirect = of_bool (bIndirect p), ch_old = update_old (abPK T) vs row, ch_new = update_new vs row\<rparr>"
  let ?os = "map SqliteValueToNoria (ch_old ?c)" and ?ns = "new_row (map SqliteValueToNoria (ch_old ?c)) (ch_new ?c)"
  have t: "table_recorded (sessionDb conn) s T" using assms(7-9) by (simp add: session_recorded_def)
  then have c: "change_recorded (sessionDb conn) T p" "length (abPK T) = nCol T" "0 < nCol T"
    using assms(10) by (simp_all add: table_recorded_def flip: list_all_iff)
  then have l: "length row = nCol T" "length vs = nCol T"
    using assms(12,13) by (auto simp: change_recorded_def record_values_def)
  have d: "diff_table (sessionDb conn) T = [?c]"
    using assms(10-14) c(2) by (simp add: diff_table_def diff_change_def Let_def)
  then have v: "views (session_content (sessionDb conn) s) = [(zName T, abPK T, ?c)]" "session_content (sessionDb conn) s \<noteq> []"
    using assms(8,9) by (simp_all add: session_content_def table_content_def views_def)
  have "apply_change api n (zName T, abPK T, ?c) e = noria_apply_update api e (zName T) ?os ?ns"
    using assms(15,16) c by (auto simp: apply_change_def old_row_def buffered_values_def GetBufferedOldRow_def)
  then have "NotifyChange api conn n = Some (n\<lparr>m_handle := Some (noria_apply_update api e (zName T) ?os ?ns),
      m_session := Some fresh_session, m_buffered_old_rows := (\<lambda>_. None)\<rparr>)"
    using NotifyChange_difference [OF assms(1-7) v(2), of api] v(1) by simp
  then show ?thesis using l c(2)
    by (intro exI [of _ ?os] exI [of _ ?ns]) (auto simp: update_old_def update_new_def new_row_def)
qed

text \<open>A row of three columns of which the last has changed.\<close>

definition example_partial_table :: session_table where
  "example_partial_table = example_table\<lparr>nCol := 3, nTotalCol := 3, aiIdx := [0, 1, 2], abPK := [1, 0, 0], nEntry := 1, nChange := 1,
     apChange := [[\<lparr>op = SQLITE_UPDATE, bIndirect = False, nRecordField = 3, nMaxSize = 0,
       aRecord = serials [Some (VInteger 7), Some (VText [0x61]), Some (VInteger 1)]\<rparr>]]\<rparr>"

definition example_partial_session :: session where
  "example_partial_session = example_session\<lparr>pTable := [example_partial_table]\<rparr>"

definition example_partial_db :: session_db where
  "example_partial_db = example_db\<lparr>
     schema := \<lparr>tableInfo = (\<lambda>_ _. Inr \<lparr>ti_nCol = 3, ti_nTotalCol = 3, ti_aiIdx = [0, 1, 2], ti_abPK = [1, 0, 0], ti_bRowid = False\<rparr>),
       dfltRow = (\<lambda>_. Inr [VNull, VNull, VNull])\<rparr>,
     selectRow := (\<lambda>_ binds. StepRow [VInteger 7, VText [0x61], VInteger 2])\<rparr>"

theorem update_delivered_witness:
  "\<exists>os ns. NotifyChange example_engine (example_connection example_partial_db) (example_noria example_partial_session) =
      Some ((example_noria fresh_session)\<lparr>m_handle := Some [EvUpdate [0x74] os ns]\<rparr>) \<and>
    length os = 3 \<and> length ns = 3 \<and> os ! 1 = NORIA_NULL \<and> ns ! 1 = NORIA_NULL \<and> ns ! 2 = NORIA_INTEGER 2"
proof -
  let ?p = "hd (hd (apChange example_partial_table))"
  have r: "recorded 3 ?p = [Some (VInteger 7), Some (VText [0x61]), Some (VInteger 1)]"
    by (rule recorded_serials) (simp_all add: example_partial_table_def)
  have s: "session_recorded example_partial_db example_partial_session" using r
    by (simp add: example_partial_session_def example_partial_db_def example_partial_table_def example_simps session_recorded_def table_recorded_def
        change_recorded_def record_values_def table_work_def change_work_def enc_table_def enc_header_def sessionVarintPut_def putVarint32_def)
  show ?thesis
    using update_delivered [of "example_noria example_partial_session" example_partial_session "[]" "example_connection example_partial_db"
        example_partial_table ?p "[VInteger 7, VText [0x61], VInteger 2]" "map the (recorded 3 ?p)" example_engine] r s
    by (auto simp: example_noria_def example_connection_def example_engine_def example_partial_session_def example_partial_db_def
        example_partial_table_def example_simps SqliteValueToNoria_def)
qed

text \<open>C1: A write by \<open>run()\<close> outside a transaction, or the COMMIT of one, that leaves recorded changes returns with
  the engine up to date: from the wrapper as the hooks of SQLite left it during the statement, the
  engine has received the difference between the rows recorded by the session and the rows now in
  the database, table by table, and recording starts afresh.\<close>

theorem run_delivers_difference:
  assumes "d_statement d i = Some s" "STATEMENT_START env [] DOES_MUTATE i info s d = (None, s0, d0)"
    and "e_step env (d_handle d) (st_handle s0) = (rc, p, q, js, hooks)" "e_reset env q p = (SQLITE_OK, p', q')"
    and "st_stmt_type s \<in> {STMT_INSERT, STMT_UPDATE, STMT_DELETE} \<and> st_table_id s \<noteq> -2 \<and>
      e_total_changes env q' \<noteq> e_total_changes env (d_handle d) \<and> e_changes env q' > 0 \<or> \<not> autocommit (e_conn env (d_handle d))"
    and "d_noria d = Some n" "m_has_any_views (hooks n)" "m_session (hooks n) = Some ss" "m_handle (hooks n) = Some e"
    and "autocommit (e_conn env q')" "allocOk (e_conn env q') = granted" "createRc (e_conn env q') = SQLITE_OK"
    and "session_recorded (sessionDb (e_conn env q')) ss" "session_content (sessionDb (e_conn env q')) ss \<noteq> []"
  shows "\<exists>v d'. JS_run env i info d = Some (Returns v, d') \<and> d_handle d' = q' \<and>
    d_noria d' = Some ((hooks n)\<lparr>
      m_handle := Some (fold (apply_change (e_engine env) (hooks n)) (views (session_content (sessionDb (e_conn env q')) ss)) e),
      m_session := Some fresh_session, m_buffered_old_rows := (\<lambda>_. None)\<rparr>)"
proof -
  have "NotifyChange (e_engine env) (e_conn env q') (hooks n) = Some ((hooks n)\<lparr>
      m_handle := Some (fold (apply_change (e_engine env) (hooks n)) (views (session_content (sessionDb (e_conn env q')) ss)) e),
      m_session := Some fresh_session, m_buffered_old_rows := (\<lambda>_. None)\<rparr>)"
    by (rule NotifyChange_difference [OF assms(8,7,9-14)])
  with JS_run_notifies [OF assms(1-4) _ assms(6,7)] assms(5,10) show ?thesis by blast
qed

definition example_write :: "(nat, engine_event list) env" where
  "example_write = example_env\<lparr>e_conn := (\<lambda>_. example_connection example_db),
     e_step := (\<lambda>q p. (SQLITE_DONE, p, Suc q, False, \<lambda>n. n\<lparr>m_session := Some example_session\<rparr>)),
     e_total_changes := int, e_changes := (\<lambda>_. 2)\<rparr>"

definition example_writer :: statement where
  "example_writer = example_statement\<lparr>st_returns_data := False, st_stmt_type := STMT_DELETE, st_table_id := 0\<rparr>"

definition example_writing :: "(nat, engine_event list) database" where
  "example_writing = add_statement example_writer (Some (example_noria fresh_session)) (Database_new example_write 0 JsUndefined)"

lemma example_writing_START:
  "\<exists>s0 d0. STATEMENT_START example_write [] DOES_MUTATE 0 [] example_writer example_writing = (None, s0, d0)"
proof -
  have "first_error ([REQUIRE_DATABASE_OPEN example_writing, REQUIRE_DATABASE_NOT_BUSY example_writing] @ DOES_MUTATE example_writer example_writing) = None"
    by (simp add: first_error_None DOES_MUTATE_def REQUIRE_DATABASE_NO_ITERATORS_UNLESS_UNSAFE_def example_writer_def example_statement_def
        example_writing_def add_statement_def Database_new_def set_statement_def)
  then show ?thesis
    by (simp add: STATEMENT_START_def STATEMENT_START_LOGIC_def example_writer_def example_statement_def example_bind Let_def)
      (simp add: Log_def example_writing_def add_statement_def Database_new_def set_statement_def IsFunction_def)
qed

theorem run_delivers_difference_witness:
  "\<exists>v d'. JS_run example_write 0 [] example_writing = Some (Returns v, d') \<and>
    map_option m_handle (d_noria d') = Some (Some [EvUpdate [0x74] [NORIA_INTEGER 7, NORIA_TEXT [0x61]] [NORIA_INTEGER 7, NORIA_TEXT [0x62]],
      EvDelete [0x74] [NORIA_INTEGER 8, NORIA_NULL]])"
proof -
  obtain s0 d0 where st: "STATEMENT_START example_write [] DOES_MUTATE 0 [] example_writer example_writing = (None, s0, d0)"
    using example_writing_START by blast
  have w: "d_statement example_writing 0 = Some example_writer" "d_noria example_writing = Some (example_noria fresh_session)"
    "d_handle example_writing = 0"
    by (simp_all add: example_writing_def add_statement_def set_statement_def Database_new_def)
  have e: "e_step example_write 0 p = (SQLITE_DONE, p, Suc 0, False, \<lambda>n. n\<lparr>m_session := Some example_session\<rparr>)"
    "e_reset example_write q p = (SQLITE_OK, p, q)" "e_conn example_write q = example_connection example_db"
    "e_engine example_write = example_engine" "e_total_changes example_write q = int q" "e_changes example_write q = 2" for p q
    by (simp_all add: example_write_def example_env_def)
  from run_delivers_difference [OF w(1) st e(1) [folded w(3)] e(2) _ w(2), of example_session "[]"]
  have "\<exists>v d'. JS_run example_write 0 [] example_writing = Some (Returns v, d') \<and> d_handle d' = Suc 0 \<and>
    d_noria d' = Some ((example_noria example_session)\<lparr>
      m_handle := Some (fold (apply_change example_engine (example_noria example_session)) (views (session_content example_db example_session)) []),
      m_session := Some fresh_session, m_buffered_old_rows := (\<lambda>_. None)\<rparr>)"
    using example_session_recorded example_session_content
    by (simp add: e w example_writer_def example_noria_def example_connection_def example_content_def)
  moreover have "fold (apply_change example_engine (example_noria example_session)) (views (session_content example_db example_session)) [] =
      [EvUpdate [0x74] [NORIA_INTEGER 7, NORIA_TEXT [0x61]] [NORIA_INTEGER 7, NORIA_TEXT [0x62]], EvDelete [0x74] [NORIA_INTEGER 8, NORIA_NULL]]"
    by (simp add: example_session_content example_noria_def example_content_def views_def apply_change_def
        example_engine_def old_row_def new_row_def buffered_values_def GetBufferedOldRow_def SqliteValueToNoria_def)
  ultimately show ?thesis by auto
qed

end
